(* ===== verification/Rpget_Prelude.thy ===== *)
theory Rpget_Prelude
  imports Main "HOL-Library.Word" "HOL-Library.Signed_Division"
begin

text \<open>
  What every component of the rpget model shares: Go's 64-bit integers, the error values of
  the program, the two ways a Go call can end without a value (a returned error, a panic),
  contiguous pieces of a byte sequence, and reachability in a transition system with the
  interface through which the components prove their invariants.
\<close>

named_theorems go_int \<open>facts that turn wrapped 64-bit arithmetic into integer arithmetic\<close>
named_theorems piece_simps \<open>facts on contiguous pieces of a list\<close>

type_synonym byte = "8 word"
type_synonym int64 = int

section \<open>Go's int and int64\<close>

text \<open>
  \<open>int64\<close>, and \<open>int\<close> on the 64-bit platforms the program is released for, are modelled by
  integers with the two's complement wrap-around written out by \<open>wrap64\<close> after every
  operation that can leave the range. Division and remainder truncate towards zero as in
  Go (\<open>sdiv\<close> and \<open>smod\<close> of HOL-Library.Signed_Division).
\<close>

definition wrap64 :: "int \<Rightarrow> int64" where
  "wrap64 x = (x + 2 ^ 63) mod 2 ^ 64 - 2 ^ 63"

definition in64 :: "int \<Rightarrow> bool" where
  "in64 x \<longleftrightarrow> - (2 ^ 63) \<le> x \<and> x < 2 ^ 63"

lemma wrap64_in64 [go_int]: "in64 x \<Longrightarrow> wrap64 x = x"
  by (simp add: wrap64_def in64_def)

lemma in64_wrap64 [simp]: "in64 (wrap64 x)"
  by (simp add: wrap64_def in64_def)

lemma wrap64_nonneg [go_int]: "0 \<le> x \<Longrightarrow> x < 2 ^ 63 \<Longrightarrow> wrap64 x = x"
  by (simp add: wrap64_def)

lemma in64_nonneg: "0 \<le> x \<Longrightarrow> x < 2 ^ 63 \<Longrightarrow> in64 x"
  by (simp add: in64_def)

lemma sdiv_nonneg [go_int]: "0 \<le> (a::int) \<Longrightarrow> 0 < b \<Longrightarrow> a sdiv b = a div b"
  by (cases "a = 0") (simp_all add: signed_divide_int_def)

lemma smod_nonneg [go_int]: "0 \<le> (a::int) \<Longrightarrow> 0 < b \<Longrightarrow> a smod b = a mod b"
  by (cases "a = 0") (simp_all add: signed_modulo_int_def)

lemma int_mult_div_le: "0 < c \<Longrightarrow> c * (x div c) \<le> (x :: int)"
  using pos_mod_sign [of c x] mult_div_mod_eq [of c x] by linarith

lemma int_less_mult_div: "0 < c \<Longrightarrow> (x :: int) < c * (x div c) + c"
  using pos_mod_bound [of c x] mult_div_mod_eq [of c x] by linarith

section \<open>Errors\<close>

text \<open>
  The package-level error values the code compares with \<open>errors.Is\<close> or \<open>==\<close>. The first
  group belongs to the standard library, the rest is declared by the program.
\<close>

datatype sentinel =
    EOF | ErrUnexpectedEOF | ErrNetClosed | ErrNotExist | Canceled | DeadlineExceeded
  | ErrUnexpectedHTTPStatus
  | ErrMalformedRangeHeader | ErrMissingRangeHeader | ErrInvalidContentRange
  | ErrStrategyFallback
  | ErrDupeURLDestCombo
  | ErrZipSlip | ErrEmptyHeaderName

text \<open>
  An error value: a sentinel, a formatted message, a message that wraps another error with
  the verb \<open>%w\<close>, the structured network errors the retry policy inspects
  (\<open>net.OpError\<close> with its operation, \<open>net.DNSError\<close> with its three flags, \<open>url.Error\<close>),
  or any other error, of which only its text and, if it has one, the answer of its
  \<open>Timeout\<close> method are visible.
\<close>

datatype go_error =
    Sentinel sentinel
  | Errorf string
  | Wrapf string go_error
  | OpError string "go_error option"
  | DNSError bool bool bool
  | UrlError go_error
  | ErrSyntax string
  | ErrRange string
  | Foreign string "bool option"

text \<open>\<open>errors.Is\<close> walks the chain of wrapped errors.\<close>

fun errors_is :: "go_error \<Rightarrow> sentinel \<Rightarrow> bool" where
  "errors_is (Sentinel s) t = (s = t)"
| "errors_is (Wrapf _ e) t = errors_is e t"
| "errors_is (OpError _ (Some e)) t = errors_is e t"
| "errors_is (UrlError e) t = errors_is e t"
| "errors_is _ t = False"

text \<open>A call that a run-time check can abort: it returns, or the goroutine panics.\<close>

datatype 'a outcome = Ret 'a | Panic string

section \<open>Pieces of a byte sequence\<close>

text \<open>\<open>piece xs a n\<close> is the Go slice expression \<open>xs[a : a+n]\<close>, cut off at the end of \<open>xs\<close>.\<close>

definition piece :: "'a list \<Rightarrow> nat \<Rightarrow> nat \<Rightarrow> 'a list" where
  "piece xs a n = take n (drop a xs)"

lemma length_piece [piece_simps, simp]: "length (piece xs a n) = min n (length xs - a)"
  by (simp add: piece_def)

lemma piece_0 [piece_simps, simp]: "piece xs a 0 = []"
  by (simp add: piece_def)

lemma piece_whole [piece_simps]: "length xs \<le> n \<Longrightarrow> piece xs 0 n = xs"
  by (simp add: piece_def)

lemma piece_append [piece_simps]: "piece xs a m @ piece xs (a + m) n = piece xs a (m + n)"
  by (simp add: piece_def take_add add.commute)

lemma piece_piece [piece_simps]:
  "i + k \<le> n \<Longrightarrow> piece (piece xs a n) i k = piece xs (a + i) k"
  by (simp add: piece_def drop_take min_def add.commute)

lemma take_piece [piece_simps]: "take k (piece xs a n) = piece xs a (min k n)"
  by (simp add: piece_def)

lemma drop_piece [piece_simps]: "drop k (piece xs a n) = piece xs (a + k) (n - k)"
  by (simp add: piece_def drop_take add.commute)

lemma piece_cut: "length xs - a \<le> n \<Longrightarrow> piece xs a n = drop a xs"
  by (simp add: piece_def)

lemma take_drop_length: "take k xs @ drop (length (take k xs)) xs = xs"
  by (cases "k \<le> length xs") auto

text \<open>Writing \<open>ys\<close> over the part of a buffer that starts at \<open>a\<close>, as \<open>copy(xs[a:], ys)\<close> does.\<close>

definition overwrite_at :: "'a list \<Rightarrow> nat \<Rightarrow> 'a list \<Rightarrow> 'a list" where
  "overwrite_at xs a ys = take a xs @ take (length xs - a) ys @ drop (a + length ys) xs"

lemma length_overwrite_at [simp]: "length (overwrite_at xs a ys) = length xs"
  by (auto simp: overwrite_at_def min_def)

lemma take_overwrite_at:
  "a + length ys \<le> length xs \<Longrightarrow> take (a + length ys) (overwrite_at xs a ys) = take a xs @ ys"
  by (simp add: overwrite_at_def)

section \<open>Reachable states\<close>

inductive reachable :: "('s \<Rightarrow> bool) \<Rightarrow> ('s \<Rightarrow> 's \<Rightarrow> bool) \<Rightarrow> 's \<Rightarrow> bool"
  for init :: "'s \<Rightarrow> bool" and step :: "'s \<Rightarrow> 's \<Rightarrow> bool" where
  reach_init: "init s \<Longrightarrow> reachable init step s"
| reach_step: "reachable init step s \<Longrightarrow> step s t \<Longrightarrow> reachable init step t"

text \<open>
  The interface between a component with steps and the proof of its safety: a predicate
  that holds at the start and that every step keeps.
\<close>

locale invariant_system =
  fixes init :: "'s \<Rightarrow> bool"
    and step :: "'s \<Rightarrow> 's \<Rightarrow> bool"
    and inv :: "'s \<Rightarrow> bool"
  assumes inv_init: "init s \<Longrightarrow> inv s"
    and inv_step: "inv s \<Longrightarrow> step s t \<Longrightarrow> inv t"
begin

lemma inv_reachable: "reachable init step s \<Longrightarrow> inv s"
  by (induction rule: reachable.induct) (auto intro: inv_init inv_step)

lemma inv_steps: "step\<^sup>*\<^sup>* s t \<Longrightarrow> inv s \<Longrightarrow> inv t"
  by (induction rule: rtranclp.induct) (auto intro: inv_step)

end

text \<open>A system in which every step uses up some of a finite budget ends, whatever steps it takes.\<close>

locale bounded_system = invariant_system init step inv
  for init :: "'s \<Rightarrow> bool" and step :: "'s \<Rightarrow> 's \<Rightarrow> bool" and inv :: "'s \<Rightarrow> bool" +
  fixes budget :: "'s \<Rightarrow> nat"
  assumes budget_step: "inv s \<Longrightarrow> step s t \<Longrightarrow> budget t < budget s"
begin

lemma steps_bounded: "(step ^^ n) s t \<Longrightarrow> inv s \<Longrightarrow> n + budget t \<le> budget s"
proof (induction n arbitrary: t)
  case (Suc n)
  then obtain u where u: "(step ^^ n) s u" "step u t" by auto
  have "inv u" using inv_steps relpowp_imp_rtranclp [OF u(1)] Suc.prems(2) by blast
  from budget_step [OF this u(2)] Suc.IH [OF u(1) Suc.prems(2)] show ?case by simp
qed simp

lemma reaches_end: "inv s \<Longrightarrow> \<exists>t. step\<^sup>*\<^sup>* s t \<and> (\<forall>u. \<not> step t u)"
proof (induction "budget s" arbitrary: s rule: less_induct)
  case less
  show ?case
  proof (cases "\<exists>u. step s u")
    case True
    then obtain u where u: "step s u" by blast
    from less(1) [OF budget_step [OF less(2) u] inv_step [OF less(2) u]] u show ?thesis
      by (blast intro: converse_rtranclp_into_rtranclp)
  qed blast
qed

end

end
