(* ===== verification/Go_Strings.thy ===== *)
theory Go_Strings
  imports Rpget_Prelude
begin

text \<open>
  The parts of Go's packages strings, strconv and fmt that rpget uses, over byte strings:
  prefixes and suffixes, splitting at a separator, white space, decimal integers, and the
  two regular expressions of the program. A \<^typ>\<open>char\<close> is one byte of the string, as in Go.
\<close>

named_theorems go_string \<open>facts on prefixes, splitting and decimal notation\<close>

section \<open>Prefixes and suffixes\<close>

definition has_prefix :: "string \<Rightarrow> string \<Rightarrow> bool" where
  "has_prefix s p \<longleftrightarrow> take (length p) s = p"

definition trim_prefix :: "string \<Rightarrow> string \<Rightarrow> string" where
  "trim_prefix s p = (if has_prefix s p then drop (length p) s else s)"

definition has_suffix :: "string \<Rightarrow> string \<Rightarrow> bool" where
  "has_suffix s p \<longleftrightarrow> has_prefix (rev s) (rev p)"

definition trim_suffix :: "string \<Rightarrow> string \<Rightarrow> string" where
  "trim_suffix s p = (if has_suffix s p then take (length s - length p) s else s)"

lemma has_prefix_iff: "has_prefix s p \<longleftrightarrow> (\<exists>r. s = p @ r)"
  unfolding has_prefix_def by (metis append_eq_conv_conj append_take_drop_id)

lemma has_prefix_append [simp, go_string]: "has_prefix (p @ r) p"
  by (simp add: has_prefix_def)

lemma has_prefix_Nil [simp]: "has_prefix s []"
  by (simp add: has_prefix_def)

lemma has_prefix_Cons [simp]:
  "has_prefix (x # s) (y # p) \<longleftrightarrow> x = y \<and> has_prefix s p"
  "\<not> has_prefix [] (y # p)"
  by (auto simp: has_prefix_def)

lemma trim_prefix_append [simp, go_string]: "trim_prefix (p @ r) p = r"
  by (simp add: trim_prefix_def)

lemma trim_suffix_append [simp, go_string]: "trim_suffix (r @ p) p = r"
  by (simp add: trim_suffix_def has_suffix_def)

section \<open>Splitting at a separator\<close>

text \<open>\<open>strings.Split\<close> with a one-byte separator.\<close>

fun split_on :: "char \<Rightarrow> string \<Rightarrow> string list" where
  "split_on c [] = [[]]"
| "split_on c (x # s) =
     (if x = c then [] # split_on c s
      else case split_on c s of [] \<Rightarrow> [[x]] | p # ps \<Rightarrow> (x # p) # ps)"

text \<open>\<open>strings.SplitN\<close> with a one-byte separator and a positive limit.\<close>

fun split_first :: "char \<Rightarrow> string \<Rightarrow> (string \<times> string) option" where
  "split_first c [] = None"
| "split_first c (x # s) =
     (if x = c then Some ([], s) else map_option (\<lambda>(p, r). (x # p, r)) (split_first c s))"

fun split_n :: "char \<Rightarrow> nat \<Rightarrow> string \<Rightarrow> string list" where
  "split_n c 0 s = []"
| "split_n c (Suc 0) s = [s]"
| "split_n c (Suc (Suc n)) s =
     (case split_first c s of None \<Rightarrow> [s] | Some (p, r) \<Rightarrow> p # split_n c (Suc n) r)"

lemma split_on_ne [simp]: "split_on c s \<noteq> []"
  by (cases s) (auto split: list.splits)

lemma split_on_notin [go_string]: "c \<notin> set s \<Longrightarrow> split_on c s = [s]"
  by (induction s) auto

lemma split_on_append [go_string]: "c \<notin> set s \<Longrightarrow> split_on c (s @ c # t) = s # split_on c t"
  by (induction s) auto

lemma split_first_append [go_string]: "c \<notin> set s \<Longrightarrow> split_first c (s @ c # t) = Some (s, t)"
  by (induction s) auto

lemma split_first_notin [go_string]: "c \<notin> set s \<Longrightarrow> split_first c s = None"
  by (induction s) auto

lemma split_first_SomeD: "split_first c s = Some (p, r) \<Longrightarrow> s = p @ c # r \<and> c \<notin> set p"
  by (induction s arbitrary: p) (auto split: if_splits)

lemma split_n_3 [go_string]:
  "c \<notin> set p \<Longrightarrow> c \<notin> set q \<Longrightarrow> split_n c 3 (p @ c # q @ c # r) = [p, q, r]"
  by (simp add: numeral_3_eq_3 split_first_append)

section \<open>Decimal integers\<close>

definition is_digit :: "char \<Rightarrow> bool" where
  "is_digit c \<longleftrightarrow> (48::int) \<le> of_char c \<and> of_char c \<le> (57::int)"

definition digit_val :: "char \<Rightarrow> int" where
  "digit_val c = of_char c - 48"

definition digit_char :: "int \<Rightarrow> char" where
  "digit_char d = char_of (48 + d)"

text \<open>
  \<open>strconv.ParseUint(s, 10, 64)\<close> after its empty-string check: bytes from left to right, a
  syntax error at the first byte that is not a digit, a range error as soon as the value
  read so far no longer fits into 64 bits.
\<close>

fun parse_uint_loop :: "string \<Rightarrow> int \<Rightarrow> string \<Rightarrow> go_error + int" where
  "parse_uint_loop s0 n [] = Inr n"
| "parse_uint_loop s0 n (c # cs) =
     (if \<not> is_digit c then Inl (ErrSyntax s0)
      else let n' = 10 * n + digit_val c
           in if 2 ^ 64 \<le> n' then Inl (ErrRange s0) else parse_uint_loop s0 n' cs)"

definition parse_uint :: "string \<Rightarrow> string \<Rightarrow> go_error + int" where
  "parse_uint s0 s = (if s = [] then Inl (ErrSyntax s0) else parse_uint_loop s0 0 s)"

text \<open>\<open>strconv.ParseInt(s, 10, 64)\<close>: an optional sign, then the unsigned digits.\<close>

definition parse_int :: "string \<Rightarrow> go_error + int64" where
  "parse_int s =
     (case s of
        [] \<Rightarrow> Inl (ErrSyntax s)
      | c # cs \<Rightarrow>
          let neg = (c = CHR ''-'');
              body = (if c = CHR ''+'' \<or> c = CHR ''-'' then cs else s)
          in case parse_uint s body of
               Inl e \<Rightarrow> Inl e
             | Inr un \<Rightarrow>
                 if \<not> neg \<and> 2 ^ 63 \<le> un then Inl (ErrRange s)
                 else if neg \<and> 2 ^ 63 < un then Inl (ErrRange s)
                 else Inr (if neg then - un else un))"

text \<open>The verb \<open>%d\<close> of package fmt.\<close>

function nat_dec :: "int \<Rightarrow> string" where
  "nat_dec n = (if n < 10 then [digit_char n] else nat_dec (n div 10) @ [digit_char (n mod 10)])"
  by pat_completeness auto
termination
  by (relation "measure nat") auto

declare nat_dec.simps [simp del]

definition int_dec :: "int \<Rightarrow> string" where
  "int_dec i = (if i < 0 then CHR ''-'' # nat_dec (- i) else nat_dec i)"

lemma of_digit_char: "0 \<le> d \<Longrightarrow> d < 10 \<Longrightarrow> of_char (digit_char d) = 48 + d"
  by (simp add: digit_char_def)

lemma digit_char_props:
  assumes "0 \<le> d" "d < 10"
  shows "is_digit (digit_char d)" "digit_val (digit_char d) = d"
  using of_digit_char [OF assms] assms by (simp_all add: is_digit_def digit_val_def)

lemma digit_val_bounds: "is_digit c \<Longrightarrow> 0 \<le> digit_val c \<and> digit_val c < 10"
  by (simp add: is_digit_def digit_val_def)

lemma is_digit_distinct [simp]:
  "\<not> is_digit CHR ''-''" "\<not> is_digit CHR ''+''" "\<not> is_digit CHR ''/''" "\<not> is_digit CHR ''.''"
  "\<not> is_digit CHR '':''" "\<not> is_digit CHR '' ''" "\<not> is_digit CHR 0x0A"
  by (simp_all add: is_digit_def)

lemma nat_dec_ne [simp]: "nat_dec n \<noteq> []"
  by (subst nat_dec.simps) simp

lemma nat_dec_digits: "0 \<le> n \<Longrightarrow> c \<in> set (nat_dec n) \<Longrightarrow> is_digit c"
proof (induction n rule: nat_dec.induct)
  case (1 n)
  then show ?case
    using digit_char_props(1) [of n] digit_char_props(1) [of "n mod 10"]
    by (auto simp: nat_dec.simps [of n] split: if_splits)
qed

lemma nat_dec_notin [simp]:
  "0 \<le> n \<Longrightarrow> CHR ''-'' \<notin> set (nat_dec n)" "0 \<le> n \<Longrightarrow> CHR ''/'' \<notin> set (nat_dec n)"
  "0 \<le> n \<Longrightarrow> CHR '':'' \<notin> set (nat_dec n)" "0 \<le> n \<Longrightarrow> CHR 0x0A \<notin> set (nat_dec n)"
  using nat_dec_digits by fastforce+

lemma int_dec_nonneg [simp]: "0 \<le> i \<Longrightarrow> int_dec i = nat_dec i"
  by (simp add: int_dec_def)

lemma parse_uint_loop_append:
  "parse_uint_loop s0 n cs = Inr m \<Longrightarrow>
     parse_uint_loop s0 n (cs @ ds) = parse_uint_loop s0 m ds"
  by (induction s0 n cs rule: parse_uint_loop.induct)
     (auto simp: Let_def split: if_splits)

lemma parse_uint_loop_dec: "0 \<le> n \<Longrightarrow> n < 2 ^ 64 \<Longrightarrow> parse_uint_loop s0 0 (nat_dec n) = Inr n"
proof (induction n rule: nat_dec.induct)
  case (1 n)
  show ?case
  proof (cases "n < 10")
    case True
    then show ?thesis
      using digit_char_props [OF "1.prems"(1) True] by (subst nat_dec.simps) simp
  next
    case False
    have "n div 10 < 2 ^ 64" using "1.prems" by simp
    with False "1" have ih: "parse_uint_loop s0 0 (nat_dec (n div 10)) = Inr (n div 10)"
      by simp
    have m: "0 \<le> n mod 10" "n mod 10 < 10" by simp_all
    show ?thesis
      using False "1.prems" digit_char_props [OF m]
      by (subst nat_dec.simps) (simp add: parse_uint_loop_append [OF ih])
  qed
qed

text \<open>Printing then parsing an integer of 64 bits gives it back.\<close>

lemma parse_int_dec [go_string]:
  assumes "in64 i"
  shows "parse_int (int_dec i) = Inr i"
proof (cases "i < 0")
  case True
  then have d: "int_dec i = CHR ''-'' # nat_dec (- i)" by (simp add: int_dec_def)
  have r: "- i \<le> 2 ^ 63" "0 \<le> - i" "- i < 2 ^ 64" using assms True by (simp_all add: in64_def)
  from parse_uint_loop_dec [OF r(2,3)] True r show ?thesis
    by (simp add: d parse_int_def parse_uint_def)
next
  case False
  then have d: "int_dec i = nat_dec i" by simp
  obtain c cs where c: "nat_dec i = c # cs" by (cases "nat_dec i") auto
  then have "is_digit c" using nat_dec_digits [of i c] False by simp
  then have s: "c \<noteq> CHR ''-''" "c \<noteq> CHR ''+''" by auto
  have r: "i < 2 ^ 63" "0 \<le> i" "i < 2 ^ 64" using assms False by (simp_all add: in64_def)
  from parse_uint_loop_dec [OF r(2,3)] r show ?thesis
    by (simp add: d parse_int_def parse_uint_def c s)
qed

lemma parse_uint_loop_nonneg: "parse_uint_loop s0 n cs = Inr m \<Longrightarrow> 0 \<le> n \<Longrightarrow> 0 \<le> m"
  by (induction s0 n cs rule: parse_uint_loop.induct)
     (auto simp: Let_def dest: digit_val_bounds split: if_splits)

lemma parse_uint_nonneg: "parse_uint s0 s = Inr m \<Longrightarrow> 0 \<le> m"
  by (auto simp: parse_uint_def dest: parse_uint_loop_nonneg split: if_splits)

lemma parse_int_in64: "parse_int s = Inr i \<Longrightarrow> in64 i"
  by (auto simp: parse_int_def Let_def in64_def split: list.splits sum.splits if_splits
      dest!: parse_uint_nonneg)

section \<open>White space\<close>

text \<open>
  The white space of \<open>unicode.IsSpace\<close>, as UTF-8: six ASCII bytes and the encodings of
  U+0085, U+00A0, U+1680, U+2000 to U+200A, U+2028, U+2029, U+202F, U+205F and U+3000. The
  first byte of a longer encoding is never a continuation byte, so matching these byte
  sequences finds exactly the white-space runes.
\<close>

definition white_space :: "string list" where
  "white_space =
    [[CHR 0x09], [CHR 0x0A], [CHR 0x0B], [CHR 0x0C], [CHR 0x0D], [CHR 0x20],
      [CHR 0xC2, CHR 0x85], [CHR 0xC2, CHR 0xA0], [CHR 0xE1, CHR 0x9A, CHR 0x80],
      [CHR 0xE2, CHR 0x80, CHR 0x80], [CHR 0xE2, CHR 0x80, CHR 0x81],
      [CHR 0xE2, CHR 0x80, CHR 0x82], [CHR 0xE2, CHR 0x80, CHR 0x83],
      [CHR 0xE2, CHR 0x80, CHR 0x84], [CHR 0xE2, CHR 0x80, CHR 0x85],
      [CHR 0xE2, CHR 0x80, CHR 0x86], [CHR 0xE2, CHR 0x80, CHR 0x87],
      [CHR 0xE2, CHR 0x80, CHR 0x88], [CHR 0xE2, CHR 0x80, CHR 0x89],
      [CHR 0xE2, CHR 0x80, CHR 0x8A], [CHR 0xE2, CHR 0x80, CHR 0xA8],
      [CHR 0xE2, CHR 0x80, CHR 0xA9], [CHR 0xE2, CHR 0x80, CHR 0xAF],
      [CHR 0xE2, CHR 0x81, CHR 0x9F], [CHR 0xE3, CHR 0x80, CHR 0x80]]"

text \<open>The length of the white-space rune at the front of a string, 0 if there is none.\<close>

definition space_len :: "string \<Rightarrow> nat" where
  "space_len s = (case filter (has_prefix s) white_space of [] \<Rightarrow> 0 | w # _ \<Rightarrow> length w)"

text \<open>\<open>strings.Fields\<close>: the maximal runs of bytes that belong to no white-space rune.\<close>

lemma space_len_pos: "space_len s > 0 \<Longrightarrow> s \<noteq> []"
proof -
  have "filter (has_prefix []) white_space = []" by code_simp
  then show "space_len s > 0 \<Longrightarrow> s \<noteq> []" by (auto simp: space_len_def)
qed

function fields_loop :: "string \<Rightarrow> string \<Rightarrow> string list" where
  "fields_loop cur [] = (if cur = [] then [] else [rev cur])"
| "fields_loop cur (c # s) =
     (let k = space_len (c # s)
      in if k = 0 then fields_loop (c # cur) s
         else (if cur = [] then [] else [rev cur]) @ fields_loop [] (drop k (c # s)))"
  by pat_completeness auto
termination
  by (relation "measure (\<lambda>(cur, s). length s)") auto

definition fields :: "string \<Rightarrow> string list" where
  "fields s = fields_loop [] s"

text \<open>\<open>strings.TrimSpace\<close>.\<close>

function trim_left :: "string \<Rightarrow> string" where
  "trim_left s = (if space_len s = 0 then s else trim_left (drop (space_len s) s))"
  by pat_completeness auto
termination
  by (relation "measure length") (use space_len_pos in fastforce)+

declare trim_left.simps [simp del]

definition end_space_len :: "string \<Rightarrow> nat" where
  "end_space_len s = (case filter (has_suffix s) white_space of [] \<Rightarrow> 0 | w # _ \<Rightarrow> length w)"

lemma end_space_len_pos: "end_space_len s > 0 \<Longrightarrow> s \<noteq> []"
proof -
  have "filter (has_suffix []) white_space = []" by code_simp
  then show "end_space_len s > 0 \<Longrightarrow> s \<noteq> []" by (auto simp: end_space_len_def)
qed

function trim_right :: "string \<Rightarrow> string" where
  "trim_right s =
     (if end_space_len s = 0 then s else trim_right (take (length s - end_space_len s) s))"
  by pat_completeness auto
termination
  by (relation "measure length") (use end_space_len_pos in fastforce)+

declare trim_right.simps [simp del]

definition trim_space :: "string \<Rightarrow> string" where
  "trim_space s = trim_right (trim_left s)"

section \<open>Regular expressions\<close>

text \<open>
  \<open>contentRangeRegexp\<close> of pkg/download/common.go, \<open>^bytes .*/([0-9]+)$\<close>: the text after the
  last slash, if it is a non-empty run of digits and what precedes it starts with
  \<open>bytes\<close> and a blank and holds no newline.
\<close>

definition content_range_match :: "string \<Rightarrow> string option" where
  "content_range_match s =
     (let r = rev s;
          digits = rev (takeWhile is_digit r);
          rest = dropWhile is_digit r
      in if has_prefix s ''bytes '' \<and> digits \<noteq> [] \<and> rest \<noteq> [] \<and> hd rest = CHR ''/'' \<and>
            CHR 0x0A \<notin> set s \<and> length ''bytes '' < length rest
         then Some digits else None)"

lemma content_range_match_print [go_string]:
  assumes nl: "CHR 0x0A \<notin> set mid" and n: "0 \<le> n"
  shows "content_range_match (''bytes '' @ mid @ ''/'' @ nat_dec n) = Some (nat_dec n)"
proof -
  have d: "\<forall>c \<in> set (rev (nat_dec n)). is_digit c" using nat_dec_digits n by auto
  have dn: "CHR 0x0A \<notin> set (nat_dec n)" using n by simp
  have r: "rev (''bytes '' @ mid @ ''/'' @ nat_dec n) =
      rev (nat_dec n) @ CHR ''/'' # rev mid @ rev ''bytes ''" by simp
  have t: "takeWhile is_digit (rev (nat_dec n) @ CHR ''/'' # rev mid @ rev ''bytes '') = rev (nat_dec n)"
    using d by (subst takeWhile_append2) auto
  have w: "dropWhile is_digit (rev (nat_dec n) @ CHR ''/'' # rev mid @ rev ''bytes '') =
      CHR ''/'' # rev mid @ rev ''bytes ''"
    using d by (subst dropWhile_append2) auto
  show ?thesis
    using nl dn by (simp only: content_range_match_def Let_def r t w) (auto simp: has_prefix_def)
qed

end
