(* ===== verification/Go_Http.thy ===== *)
theory Go_Http
  imports Go_Strings
begin

text \<open>
  The parts of net/url, net/http and io that rpget uses: parsed URLs, header maps with
  canonical keys, requests, responses with their bodies, \<open>io.ReadFull\<close>, and the type of an
  HTTP client. What a client answers is not code of the repository: wherever the program
  calls \<open>HTTPClient.Do\<close>, the model takes the client as a parameter, together with the state
  of the outside world the client answers from.
\<close>

named_theorems http_simps \<open>facts on header maps and requests\<close>

section \<open>URLs\<close>

text \<open>\<open>url.URL\<close>. How a string is parsed into a URL is a parameter where the program parses one.\<close>

record URL =
  url_Scheme :: string
  url_Opaque :: string
  url_User :: string
  url_Host :: string
  url_Path :: string
  url_RawPath :: string
  url_RawQuery :: string
  url_Fragment :: string

section \<open>Header maps\<close>

text \<open>\<open>textproto.CanonicalMIMEHeaderKey\<close>.\<close>

definition is_lower :: "char \<Rightarrow> bool" where
  "is_lower c \<longleftrightarrow> (97::int) \<le> of_char c \<and> of_char c \<le> (122::int)"

definition is_upper :: "char \<Rightarrow> bool" where
  "is_upper c \<longleftrightarrow> (65::int) \<le> of_char c \<and> of_char c \<le> (90::int)"

definition token_byte :: "char \<Rightarrow> bool" where
  "token_byte c \<longleftrightarrow> is_digit c \<or> is_lower c \<or> is_upper c \<or> c \<in> set ''!#$%&*+-.^_`|~'' \<or> c = CHR 0x27"

fun canonical_bytes :: "bool \<Rightarrow> string \<Rightarrow> string" where
  "canonical_bytes up [] = []"
| "canonical_bytes up (c # cs) =
     (if up \<and> is_lower c then char_of (of_char c - (32::int))
      else if \<not> up \<and> is_upper c then char_of (of_char c + (32::int))
      else c) # canonical_bytes (c = CHR ''-'') cs"

definition canonical_key :: "string \<Rightarrow> string" where
  "canonical_key k = (if list_all token_byte k then canonical_bytes True k else k)"

lemma canonical_key_used [http_simps, simp]:
  "canonical_key ''Range'' = ''Range''"
  "canonical_key ''Content-Range'' = ''Content-Range''"
  "canonical_key ''Content-Length'' = ''Content-Length''"
  "canonical_key ''Authorization'' = ''Authorization''"
  "canonical_key ''User-Agent'' = ''User-Agent''"
  "canonical_key ''Retry-After'' = ''Retry-After''"
  by code_simp+

text \<open>A header map with the first value of every key: the program sets and reads only that one.\<close>

type_synonym header = "string \<rightharpoonup> string"

definition header_get :: "header \<Rightarrow> string \<Rightarrow> string" where
  "header_get h k = (case h (canonical_key k) of None \<Rightarrow> '''' | Some v \<Rightarrow> v)"

definition header_set :: "header \<Rightarrow> string \<Rightarrow> string \<Rightarrow> header" where
  "header_set h k v = h(canonical_key k \<mapsto> v)"

lemma header_get_set [http_simps, simp]:
  "header_get (header_set h k v) k' = (if canonical_key k' = canonical_key k then v else header_get h k')"
  by (simp add: header_get_def header_set_def)

section \<open>Requests\<close>

text \<open>
  The context of a request: its error once it is done, and the value stored under
  \<open>config.ConsistentHashingStrategyKey\<close>, if any.
\<close>

record go_ctx =
  ctx_Err :: "go_error option"
  ctx_ConsistentHashing :: "bool option"

definition background :: go_ctx where
  "background = \<lparr>ctx_Err = None, ctx_ConsistentHashing = None\<rparr>"

record http_request =
  req_URL :: URL
  req_Host :: string
  req_Header :: header
  req_Ctx :: go_ctx

text \<open>
  \<open>http.NewRequestWithContext(ctx, "GET", rawURL, nil)\<close>: the URL is parsed, an empty port is
  dropped from its host, and the Host of the request is the host of the URL.
\<close>

definition last_index :: "string \<Rightarrow> char \<Rightarrow> int" where
  "last_index s c = int (length (dropWhile (\<lambda>x. x \<noteq> c) (rev s))) - 1"

definition removeEmptyPort :: "string \<Rightarrow> string" where
  "removeEmptyPort host =
     (if last_index host (CHR '':'') > last_index host (CHR '']'') then trim_suffix host '':''
      else host)"

definition new_request ::
  "(string \<Rightarrow> go_error + URL) \<Rightarrow> go_ctx \<Rightarrow> string \<Rightarrow> go_error + http_request" where
  "new_request url_parse ctx rawURL =
     (case url_parse rawURL of
        Inl e \<Rightarrow> Inl e
      | Inr u \<Rightarrow>
          let u' = u\<lparr>url_Host := removeEmptyPort (url_Host u)\<rparr>
          in Inr \<lparr>req_URL = u', req_Host = url_Host u', req_Header = Map.empty, req_Ctx = ctx\<rparr>)"

text \<open>The value of a Range header, \<open>fmt.Sprintf("bytes=%d-%d", start, end)\<close>.\<close>

definition range_header :: "int64 \<Rightarrow> int64 \<Rightarrow> string" where
  "range_header start fin = ''bytes='' @ int_dec start @ ''-'' @ int_dec fin"

section \<open>Responses and their bodies\<close>

text \<open>
  A body is the bytes that can still be read from it and the error a read returns once they
  are used up: \<open>io.EOF\<close> for a complete body, \<open>io.ErrUnexpectedEOF\<close> when the connection ends
  before the announced length, or any other error.
\<close>

datatype body = Body (body_data: "byte list") (body_end: go_error)

record http_response =
  StatusCode :: int
  Status :: string
  resp_Header :: header
  ContentLength :: int64
  resp_Body :: body
  resp_Request :: http_request

text \<open>
  \<open>io.ReadFull\<close> on a body, for a buffer of \<open>k\<close> bytes: the bytes read and the error. A short
  read that ends in EOF is reported as \<open>io.ErrUnexpectedEOF\<close>, unless nothing was read.
\<close>

definition read_full :: "body \<Rightarrow> nat \<Rightarrow> byte list \<times> go_error option" where
  "read_full b k =
     (let d = body_data b
      in if k \<le> length d then (take k d, None)
         else (d, Some (if d \<noteq> [] \<and> body_end b = Sentinel EOF then Sentinel ErrUnexpectedEOF
                        else body_end b)))"

lemma read_full_length: "read_full b k = (d, e) \<Longrightarrow> length d \<le> k"
  by (auto simp: read_full_def Let_def split: if_splits)

lemma read_full_None_iff: "read_full b k = (d, e) \<Longrightarrow> e = None \<longleftrightarrow> length d = k"
  by (auto simp: read_full_def Let_def split: if_splits)

text \<open>A client: from the state of the world and a request to an error or a response.\<close>

type_synonym 'w http_client = "'w \<Rightarrow> http_request \<Rightarrow> (go_error + http_response) \<times> 'w"

text \<open>\<open>resp.StatusCode == 0 || resp.StatusCode < 200 || resp.StatusCode >= 300\<close>\<close>

definition bad_status :: "http_response \<Rightarrow> bool" where
  "bad_status resp \<longleftrightarrow> StatusCode resp = 0 \<or> StatusCode resp < 200 \<or> StatusCode resp \<ge> 300"

section \<open>Servers that honour range requests\<close>

text \<open>
  What the program expects of a server that holds \<open>content\<close>, as RFC 9110 describes range
  requests: a request for the bytes \<open>a\<close> to \<open>b\<close> that starts inside the content is answered with
  status 206, a Content-Range that names the total size, the length of the part, and a body
  that is that part, possibly cut off by an interrupted connection after at least one byte.
  The request recorded in the response (the last one after redirects) still has the Range.
\<close>

definition part_len :: "byte list \<Rightarrow> int64 \<Rightarrow> int64 \<Rightarrow> nat" where
  "part_len content a b = nat (min (b + 1) (int (length content)) - a)"

definition served :: "byte list \<Rightarrow> int64 \<Rightarrow> int64 \<Rightarrow> http_response \<Rightarrow> bool" where
  "served content a b resp \<longleftrightarrow>
     StatusCode resp = 206 \<and>
     header_get (resp_Header resp) ''Content-Range'' =
       ''bytes '' @ (int_dec a @ ''-'' @ int_dec (a + int (part_len content a b) - 1)) @ ''/'' @
       nat_dec (int (length content)) \<and>
     ContentLength resp = int (part_len content a b) \<and>
     header_get (req_Header (resp_Request resp)) ''Range'' = range_header a b \<and>
     (let d = body_data (resp_Body resp); n = part_len content a b
      in d = piece content (nat a) (length d) \<and>
         (length d = n \<or>
          0 < length d \<and> length d < n \<and>
          body_end (resp_Body resp) \<in> {Sentinel EOF, Sentinel ErrUnexpectedEOF}))"

text \<open>
  The client answers every request whose context satisfies \<open>C\<close> like that; the redirected
  request in the response has such a context again.
\<close>

definition range_client :: "(go_ctx \<Rightarrow> bool) \<Rightarrow> 'w http_client \<Rightarrow> byte list \<Rightarrow> bool" where
  "range_client C client content \<longleftrightarrow>
     (\<forall>w req a b. C (req_Ctx req) \<and> header_get (req_Header req) ''Range'' = range_header a b \<and>
        0 \<le> a \<and> a \<le> b \<and> a < int (length content) \<and> in64 b \<longrightarrow>
        (\<exists>resp w'. client w req = (Inr resp, w') \<and> served content a b resp \<and>
           C (req_Ctx (resp_Request resp))))"

lemma range_clientE:
  assumes "range_client C client content" and "C (req_Ctx req)"
    and "header_get (req_Header req) ''Range'' = range_header a b"
    and "0 \<le> a" "a \<le> b" "a < int (length content)" "in64 b"
  obtains resp w' where "client w req = (Inr resp, w')" and "served content a b resp"
    and "C (req_Ctx (resp_Request resp))"
  using assms unfolding range_client_def by metis

lemma served_not_bad: "served content a b resp \<Longrightarrow> \<not> bad_status resp"
  by (simp add: served_def bad_status_def)

text \<open>Reading a served body into a buffer of the announced length.\<close>

lemma served_read_full:
  assumes s: "served content a b resp"
    and rf: "read_full (resp_Body resp) (part_len content a b) = (d, e)"
  shows "d = piece content (nat a) (length d) \<and> length d \<le> part_len content a b \<and>
     (if length d = part_len content a b then e = None
      else 0 < length d \<and> e = Some (Sentinel ErrUnexpectedEOF))"
  using assms
  by (auto simp: served_def read_full_def Let_def split: if_splits)

end
