(* ===== verification/Retry_Client.thy ===== *)
theory Retry_Client
  imports Go_Http "HOL-Library.Multiset"
begin

text \<open>
  Model of pkg/client/client.go: the settings of the HTTP client, the headers it adds to every
  request, the policy that decides about retries and fallbacks, the waiting time before a
  retry, and the dialer with its address overrides. The HTTP client and transport of the
  standard library, and the default policy and back-off of go-retryablehttp, are parameters.
  Durations are 64-bit numbers of nanoseconds.
\<close>

section \<open>Settings\<close>

record TransportOptions =
  ForceHTTP2 :: bool
  ResolveOverrides :: "string \<rightharpoonup> string"
  MaxConnPerHost :: int64
  ConnectTimeout :: int64

record client_Options =
  MaxRetries :: int64
  Transport :: "string option"
  TransportOpts :: TransportOptions

text \<open>The fields of \<open>http.Transport\<close> that the program sets; the dialer is set by its overrides.\<close>

record http_Transport =
  dial_overrides :: "string \<rightharpoonup> string"
  dial_Timeout :: int64
  dial_KeepAlive :: int64
  ForceAttemptHTTP2 :: bool
  MaxIdleConns :: int64
  IdleConnTimeout :: int64
  TLSHandshakeTimeout :: int64
  ExpectContinueTimeout :: int64
  DisableKeepAlives :: bool
  MaxConnsPerHost :: int64
  MaxIdleConnsPerHost :: int64

definition Second :: int64 where
  "Second = 1000000000"

definition Millisecond :: int64 where
  "Millisecond = 1000000"

definition retryMinWait :: int64 where
  "retryMinWait = 850 * Millisecond"

definition retryMaxWait :: int64 where
  "retryMaxWait = 1250 * Millisecond"

text \<open>The client: a transport given in the options, or a new one, and the retry settings.\<close>

record RPGetHTTPClient =
  hc_transport :: "string + http_Transport"
  RetryWaitMin :: int64
  RetryWaitMax :: int64
  RetryMax :: int64
  hc_headers :: "(string \<times> string) list"

definition NewHTTPClient :: "(string \<times> string) list \<Rightarrow> client_Options \<Rightarrow> RPGetHTTPClient" where
  "NewHTTPClient configuredHeaders opts =
     (let topts = TransportOpts opts;
          transport = (case Transport opts of
              Some t \<Rightarrow> Inl t
            | None \<Rightarrow> Inr \<lparr>dial_overrides = ResolveOverrides topts, dial_Timeout = ConnectTimeout topts,
                dial_KeepAlive = 30 * Second, ForceAttemptHTTP2 = ForceHTTP2 topts, MaxIdleConns = 100,
                IdleConnTimeout = 90 * Second, TLSHandshakeTimeout = 5 * Second,
                ExpectContinueTimeout = 1 * Second, DisableKeepAlives = ForceHTTP2 topts,
                MaxConnsPerHost = MaxConnPerHost topts, MaxIdleConnsPerHost = MaxConnPerHost topts\<rparr>)
      in \<lparr>hc_transport = transport, RetryWaitMin = retryMinWait, RetryWaitMax = retryMaxWait,
          RetryMax = MaxRetries opts, hc_headers = configuredHeaders\<rparr>)"

section \<open>Headers of a request\<close>

text \<open>
  \<open>Do\<close> sets the User-Agent and then the configured headers, in the order in which the map is
  iterated, and hands the request to the client.
\<close>

definition set_headers :: "string \<Rightarrow> (string \<times> string) list \<Rightarrow> http_request \<Rightarrow> http_request" where
  "set_headers version headers req =
     (let req1 = req\<lparr>req_Header := header_set (req_Header req) ''User-Agent'' (''rpget/'' @ version)\<rparr>
      in fold (\<lambda>(k, v) r. r\<lparr>req_Header := header_set (req_Header r) k v\<rparr>) headers req1)"

definition client_call ::
  "'w http_client \<Rightarrow> string \<Rightarrow> (string \<times> string) list \<Rightarrow> 'w \<Rightarrow> http_request \<Rightarrow> (go_error + http_response) \<times> 'w" where
  "client_call http_Do version headers w req = http_Do w (set_headers version headers req)"

lemma fold_header_set:
  "fold (\<lambda>(k, v) r. r\<lparr>req_Header := header_set (req_Header r) k v\<rparr>) hs req =
     req\<lparr>req_Header := req_Header req ++ map_of (rev (map (\<lambda>(k, v). (canonical_key k, v)) hs))\<rparr>"
  by (induction hs arbitrary: req) (auto simp: header_set_def map_add_def fun_eq_iff split: option.splits)

lemma set_headers_eq:
  "set_headers version headers req =
     req\<lparr>req_Header := (req_Header req)(''User-Agent'' \<mapsto> ''rpget/'' @ version) ++
        map_of (rev (map (\<lambda>(k, v). (canonical_key k, v)) headers))\<rparr>"
  unfolding set_headers_def Let_def fold_header_set by (simp add: header_set_def)

section \<open>Errors that lead to the fallback strategy\<close>

text \<open>The chain of errors that \<open>errors.As\<close> walks.\<close>

fun error_chain :: "go_error \<Rightarrow> go_error list" where
  "error_chain (Wrapf m e) = Wrapf m e # error_chain e"
| "error_chain (OpError op (Some e)) = OpError op (Some e) # error_chain e"
| "error_chain (UrlError e) = UrlError e # error_chain e"
| "error_chain e = [e]"

text \<open>
  The answer of the method \<open>Timeout\<close> for the errors that are a \<open>net.Error\<close>. An \<open>OpError\<close> and a
  \<open>url.Error\<close> ask the error they hold directly.
\<close>

fun error_Timeout :: "go_error \<Rightarrow> bool option" where
  "error_Timeout (Sentinel DeadlineExceeded) = Some True"
| "error_Timeout (Sentinel ErrNetClosed) = Some False"
| "error_Timeout (OpError op e) =
     Some (case e of None \<Rightarrow> False | Some e' \<Rightarrow> error_Timeout e' = Some True)"
| "error_Timeout (DNSError isTimeout isTemporary isNotFound) = Some isTimeout"
| "error_Timeout (UrlError e) = Some (error_Timeout e = Some True)"
| "error_Timeout (Foreign msg t) = t"
| "error_Timeout _ = None"

fun is_OpError :: "go_error \<Rightarrow> bool" where
  "is_OpError (OpError _ _) = True"
| "is_OpError _ = False"

fun OpError_Op :: "go_error \<Rightarrow> string" where
  "OpError_Op (OpError op _) = op"
| "OpError_Op _ = ''''"

fun is_DNSError :: "go_error \<Rightarrow> bool" where
  "is_DNSError (DNSError _ _ _) = True"
| "is_DNSError _ = False"

fun dns_timeout_or_not_found :: "go_error \<Rightarrow> bool" where
  "dns_timeout_or_not_found (DNSError isTimeout isTemporary isNotFound) = (isTimeout \<or> isNotFound)"
| "dns_timeout_or_not_found _ = False"

definition fallbackError :: "go_error option \<Rightarrow> bool" where
  "fallbackError err =
     (case err of
        None \<Rightarrow> False
      | Some e \<Rightarrow>
          let chain = error_chain e
          in if (case find (\<lambda>x. error_Timeout x \<noteq> None) chain of
                   Some netErr \<Rightarrow> error_Timeout netErr = Some True | None \<Rightarrow> False) then True
             else if (case find is_OpError chain of
                   Some opErr \<Rightarrow> OpError_Op opErr = ''dial'' \<or> OpError_Op opErr = ''read'' | None \<Rightarrow> False) then True
             else (case find is_DNSError chain of
                   Some dnsErr \<Rightarrow> dns_timeout_or_not_found dnsErr
                 | None \<Rightarrow> errors_is e ErrNetClosed))"

section \<open>The retry policy\<close>

type_synonym retry_policy =
  "go_ctx \<Rightarrow> http_response option \<Rightarrow> go_error option \<Rightarrow> bool \<times> go_error option"

text \<open>
  \<open>RetryPolicy\<close> with the default policy as a parameter. A nil response without an error would
  be dereferenced; the client never passes that.
\<close>

definition RetryPolicy ::
  "retry_policy \<Rightarrow> go_ctx \<Rightarrow> http_response option \<Rightarrow> go_error option \<Rightarrow> (bool \<times> go_error option) outcome" where
  "RetryPolicy defaultPolicy ctx resp err =
     (if ctx_Err ctx \<noteq> None then Ret (False, ctx_Err ctx)
      else if ctx_ConsistentHashing ctx = Some True
      then if fallbackError err then Ret (False, Some (Sentinel ErrStrategyFallback))
           else (case (err, resp) of
              (Some _, _) \<Rightarrow> Ret (defaultPolicy ctx resp err)
            | (None, None) \<Rightarrow> Panic ''nil pointer dereference''
            | (None, Some r) \<Rightarrow>
                if StatusCode r = 502 \<or> StatusCode r = 503 then Ret (False, Some (Sentinel ErrStrategyFallback))
                else Ret (defaultPolicy ctx resp err))
      else Ret (defaultPolicy ctx resp err))"

section \<open>The waiting time before a retry\<close>

type_synonym jitter_backoff = "int64 \<Rightarrow> int64 \<Rightarrow> int64 \<Rightarrow> http_response option \<Rightarrow> int64"

definition shouldApplyRetryAfter :: "http_response option \<Rightarrow> bool" where
  "shouldApplyRetryAfter resp = (case resp of None \<Rightarrow> False | Some r \<Rightarrow> StatusCode r = 429)"

definition evaluateRetryAfter :: "http_response \<Rightarrow> int64" where
  "evaluateRetryAfter resp =
     (let retryAfter = header_get (resp_Header resp) ''Retry-After''
      in if retryAfter \<noteq> '''' then 0
         else case parse_int retryAfter of
                Inl _ \<Rightarrow> 0
              | Inr duration \<Rightarrow> wrap64 (Second * duration))"

definition linearJitterRetryAfterBackoff ::
  "jitter_backoff \<Rightarrow> int64 \<Rightarrow> int64 \<Rightarrow> int64 \<Rightarrow> http_response option \<Rightarrow> int64" where
  "linearJitterRetryAfterBackoff jitterBackoff minWait maxWait attemptNum resp =
     (let retryAfter = (case resp of
            Some r \<Rightarrow> if shouldApplyRetryAfter resp then evaluateRetryAfter r else 0
          | None \<Rightarrow> 0)
      in if retryAfter > 0
         then let jitter = wrap64 (maxWait - minWait)
              in jitterBackoff retryAfter (wrap64 (retryAfter + jitter)) 0 resp
         else wrap64 (retryAfter + jitterBackoff minWait maxWait attemptNum resp))"

section \<open>Dialing\<close>

definition DialContext ::
  "(go_ctx \<Rightarrow> string \<Rightarrow> string \<Rightarrow> 'c) \<Rightarrow> (string \<rightharpoonup> string) \<Rightarrow> go_ctx \<Rightarrow> string \<Rightarrow> string \<Rightarrow> 'c" where
  "DialContext dial overrides ctx network addr =
     (let addrOverride = (case overrides addr of None \<Rightarrow> '''' | Some o' \<Rightarrow> o')
      in dial ctx network (if addrOverride \<noteq> '''' then addrOverride else addr))"

section \<open>What leads to the fallback\<close>

text \<open>
  The failures of a request by their cause, as the comment of \<open>fallbackError\<close> describes them: a
  failure of the network that holds no other error inside, or an operation on a connection that failed
  for such a cause (or for none that is known).
\<close>

fun is_cause :: "go_error \<Rightarrow> bool" where
  "is_cause (Wrapf _ _) = False"
| "is_cause (OpError _ _) = False"
| "is_cause (UrlError _) = False"
| "is_cause _ = True"

fun transport_error :: "go_error \<Rightarrow> bool" where
  "transport_error (OpError op cause) = (case cause of None \<Rightarrow> True | Some e \<Rightarrow> is_cause e)"
| "transport_error e = is_cause e"

text \<open>A cause for which the node counts as unreachable: a timeout, a closed connection, or a name that
  cannot be looked up in time or does not exist.\<close>

fun cause_unreachable :: "go_error \<Rightarrow> bool" where
  "cause_unreachable (Sentinel s) = (s = ErrNetClosed \<or> s = DeadlineExceeded)"
| "cause_unreachable (DNSError isTimeout isTemporary isNotFound) = (isTimeout \<or> isNotFound)"
| "cause_unreachable (Foreign msg timeout) = (timeout = Some True)"
| "cause_unreachable _ = False"

fun unreachable :: "go_error \<Rightarrow> bool" where
  "unreachable (OpError op cause) =
     (op = ''dial'' \<or> op = ''read'' \<or> (case cause of None \<Rightarrow> False | Some e \<Rightarrow> cause_unreachable e))"
| "unreachable e = cause_unreachable e"

text \<open>The classification of errors looks through wrapping: adding a message to an error with
  \<open>%w\<close> never changes whether it leads to the fallback strategy.\<close>

lemma fallback_error_wrapped: "fallbackError (Some (Wrapf msg e)) = fallbackError (Some e)"
  by (simp add: fallbackError_def Let_def split: option.split)

lemma fallback_error_messages: "fallbackError (Some (foldr Wrapf msgs e)) = fallbackError (Some e)"
  by (induction msgs) (simp_all add: fallback_error_wrapped)

lemma error_Timeout_Sentinel:
  "error_Timeout (Sentinel s) = (if s = DeadlineExceeded then Some True else if s = ErrNetClosed then Some False else None)"
  by (cases s) simp_all

lemma fallback_error_cause:
  "is_cause e \<Longrightarrow> fallbackError (Some e) = cause_unreachable e"
  by (cases e; simp add: fallbackError_def error_Timeout_Sentinel disj_imp)

lemma fallback_error_url_cause:
  "is_cause e \<Longrightarrow> fallbackError (Some (UrlError e)) = cause_unreachable e"
  by (cases e; simp add: fallbackError_def error_Timeout_Sentinel disj_imp)

lemma fallback_error_op_cause:
  "is_cause e \<Longrightarrow> fallbackError (Some (OpError op (Some e))) = unreachable (OpError op (Some e))"
  by (cases e; simp add: fallbackError_def error_Timeout_Sentinel disj_imp)

lemma fallback_error_url_op_cause:
  "is_cause e \<Longrightarrow> fallbackError (Some (UrlError (OpError op (Some e)))) = unreachable (OpError op (Some e))"
  by (cases e; simp add: fallbackError_def error_Timeout_Sentinel disj_imp)

lemma fallback_error_op:
  "fallbackError (Some (OpError op None)) = unreachable (OpError op None)"
  "fallbackError (Some (UrlError (OpError op None))) = unreachable (OpError op None)"
  by (simp_all add: fallbackError_def)

lemma fallback_error_transport:
  assumes "transport_error e"
  shows "fallbackError (Some e) = unreachable e \<and> fallbackError (Some (UrlError e)) = unreachable e"
proof (cases "is_cause e")
  case True
  then have "unreachable e = cause_unreachable e" by (cases e) auto
  then show ?thesis using True fallback_error_cause fallback_error_url_cause by simp
next
  case False
  then obtain op cause where "e = OpError op cause" using assms by (cases e) auto
  then show ?thesis using assms fallback_error_op_cause fallback_error_url_op_cause fallback_error_op by (cases cause) auto
qed

section \<open>Properties\<close>

text \<open>C29. Which requests are given up for the fallback strategy, by the cause of their failure, however many
  messages were wrapped around it and whether or not the HTTP library reports it with the URL. In
  consistent-hashing mode, with a context that is not done: a connection that cannot be dialled, a
  failed read, a timeout, a closed connection, and a name that cannot be looked up in time or does
  not exist, and the answers 502 and 503. Every other failure and every other answer, among them a
  failed write that is no timeout, the end of a connection and 404, is left to the default policy, and
  so is everything outside of consistent-hashing mode. A context that is done stops the retries with
  its own error.\<close>

theorem retry_policy_classifies:
  assumes "transport_error e" "err \<in> {foldr Wrapf msgs e, foldr Wrapf msgs (UrlError e)}"
  shows "RetryPolicy defaultPolicy ctx resp (Some err) =
       Ret (if ctx_Err ctx \<noteq> None then (False, ctx_Err ctx)
            else if ctx_ConsistentHashing ctx = Some True \<and> unreachable e then (False, Some (Sentinel ErrStrategyFallback))
            else defaultPolicy ctx resp (Some err)) \<and>
     RetryPolicy defaultPolicy ctx (Some r) None =
       Ret (if ctx_Err ctx \<noteq> None then (False, ctx_Err ctx)
            else if ctx_ConsistentHashing ctx = Some True \<and> StatusCode r \<in> {502, 503}
            then (False, Some (Sentinel ErrStrategyFallback))
            else defaultPolicy ctx (Some r) None)"
proof -
  have "fallbackError (Some err) = unreachable e"
    using assms(2) fallback_error_transport [OF assms(1)] fallback_error_messages by auto
  moreover have "\<not> fallbackError None" by (simp add: fallbackError_def)
  ultimately show ?thesis by (simp add: RetryPolicy_def)
qed

theorem retry_policy_classifies_witness:
  "RetryPolicy (\<lambda>_ _ _. (True, None)) (background\<lparr>ctx_ConsistentHashing := Some True\<rparr>) None
     (Some (Wrapf ''GET'' (UrlError (OpError ''read'' (Some (Foreign ''connection reset by peer'' (Some False))))))) =
     Ret (False, Some (Sentinel ErrStrategyFallback)) \<and>
   RetryPolicy (\<lambda>_ _ _. (True, None)) (background\<lparr>ctx_ConsistentHashing := Some True\<rparr>) None
     (Some (UrlError (OpError ''write'' (Some (Foreign ''broken pipe'' (Some False)))))) = Ret (True, None)"
  using retry_policy_classifies [where msgs = "[''GET'']" and e = "OpError ''read'' (Some (Foreign ''connection reset by peer'' (Some False)))"
      and ctx = "background\<lparr>ctx_ConsistentHashing := Some True\<rparr>" and resp = None and defaultPolicy = "\<lambda>_ _ _. (True, None)"]
    retry_policy_classifies [where msgs = "[]" and e = "OpError ''write'' (Some (Foreign ''broken pipe'' (Some False)))"
      and ctx = "background\<lparr>ctx_ConsistentHashing := Some True\<rparr>" and resp = None and defaultPolicy = "\<lambda>_ _ _. (True, None)"]
  by (simp add: background_def)

text \<open>C38. The Retry-After header is never honoured: whatever the response says, the waiting time is
  the one of the plain linear back-off.\<close>

theorem retry_after_ignored:
  assumes "in64 (jitterBackoff minWait maxWait attemptNum resp)"
  shows "linearJitterRetryAfterBackoff jitterBackoff minWait maxWait attemptNum resp =
     jitterBackoff minWait maxWait attemptNum resp"
proof -
  have "evaluateRetryAfter r = 0" for r
    by (auto simp: evaluateRetryAfter_def parse_int_def Let_def)
  then show ?thesis
    using wrap64_in64 [OF assms] by (auto simp: linearJitterRetryAfterBackoff_def split: option.splits)
qed

theorem retry_after_ignored_witness:
  "linearJitterRetryAfterBackoff (\<lambda>mn mx n _. mn) retryMinWait retryMaxWait 2
     (Some \<lparr>StatusCode = 429, Status = ''429'', resp_Header = header_set Map.empty ''Retry-After'' ''30'',
        ContentLength = 0, resp_Body = Body [] (Sentinel EOF),
        resp_Request = \<lparr>req_URL = undefined, req_Host = '''', req_Header = Map.empty, req_Ctx = background\<rparr>\<rparr>)
   = retryMinWait"
  by (rule retry_after_ignored) (simp add: retryMinWait_def Millisecond_def in64_def)

text \<open>The request that goes out does not depend on the order in which Go iterates over the
  configured headers, if no two of them are spellings of the same header; a configured header
  replaces one of the program, and every other header is kept.\<close>

theorem headers_order_irrelevant:
  assumes "distinct (map (canonical_key \<circ> fst) headers)" "mset headers' = mset headers"
  shows "set_headers version headers' req = set_headers version headers req"
proof -
  let ?f = "map (\<lambda>(k, v). (canonical_key k, v))"
  have keys: "map fst (?f hs) = map (canonical_key \<circ> fst) hs" for hs :: "(string \<times> string) list"
    by (induction hs) auto
  have "mset (map (canonical_key \<circ> fst) headers') = mset (map (canonical_key \<circ> fst) headers)"
    using assms(2) by (metis mset_map)
  then have d: "distinct (map (canonical_key \<circ> fst) headers')"
    using assms(1) by (metis mset_eq_imp_distinct_iff)
  have "set (?f headers') = set (?f headers)" using mset_eq_setD [OF assms(2)] by simp
  moreover have "distinct (map fst (rev (?f headers')))" "distinct (map fst (rev (?f headers)))"
    using d assms(1) by (simp_all add: keys rev_map [symmetric] del: map_map)
  ultimately have "map_of (rev (?f headers')) = map_of (rev (?f headers))"
    by (metis map_of_inject_set set_rev)
  then show ?thesis by (simp add: set_headers_eq)
qed

theorem headers_order_irrelevant_witness:
  "set_headers ''1.0'' [(''x-b'', ''2''), (''x-a'', ''1'')]
     \<lparr>req_URL = undefined, req_Host = ''h'', req_Header = Map.empty, req_Ctx = background\<rparr> =
   set_headers ''1.0'' [(''x-a'', ''1''), (''x-b'', ''2'')]
     \<lparr>req_URL = undefined, req_Host = ''h'', req_Header = Map.empty, req_Ctx = background\<rparr>"
proof (rule headers_order_irrelevant)
  show "distinct (map (canonical_key \<circ> fst) [(''x-a'', ''1''), (''x-b'', ''2'')])" by code_simp
qed simp

end
