(* ===== verification/Config_Opts.thy ===== *)
theory Config_Opts
  imports Retry_Client
begin

text \<open>
  Model of pkg/config/config.go and pkg/config/optnames.go: the names of the options, the log
  level, the address overrides, the choice of a consumer, and the options on caching. The
  values of the options come from the configuration library, so they are arguments; parsing of
  URLs, IP addresses and address ranges is a parameter too.
\<close>

section \<open>Option names\<close>

datatype opt =
    OptCacheNodesSRVNameByHostCIDR | OptCacheNodesSRVName | OptCacheServiceHostname
  | OptCacheURIPrefixes | OptCacheUsePathProxy | OptForceCachePrefixRewrite | OptHostIP
  | OptMetricsEndpoint | OptHeaders | OptProxyAuthHeader
  | OptConcurrency | OptConnTimeout | OptChunkSize | OptExtract | OptForce | OptForceHTTP2
  | OptLoggingLevel | OptMaxChunks | OptMaxConnPerHost | OptMaxConcurrentFiles
  | OptMinimumChunkSize | OptOutputConsumer | OptPIDFile | OptResolve | OptRetries | OptVerbose

fun opt_name :: "opt \<Rightarrow> string" where
  "opt_name OptCacheNodesSRVNameByHostCIDR = ''cache-nodes-srv-name-by-host-cidr''"
| "opt_name OptCacheNodesSRVName = ''cache-nodes-srv-name''"
| "opt_name OptCacheServiceHostname = ''cache-service-hostname''"
| "opt_name OptCacheURIPrefixes = ''cache-uri-prefixes''"
| "opt_name OptCacheUsePathProxy = ''cache-use-path-proxy''"
| "opt_name OptForceCachePrefixRewrite = ''force-cache-prefix-rewrite''"
| "opt_name OptHostIP = ''host-ip''"
| "opt_name OptMetricsEndpoint = ''metrics-endpoint''"
| "opt_name OptHeaders = ''headers''"
| "opt_name OptProxyAuthHeader = ''proxy-auth-header''"
| "opt_name OptConcurrency = ''concurrency''"
| "opt_name OptConnTimeout = ''connect-timeout''"
| "opt_name OptChunkSize = ''chunk-size''"
| "opt_name OptExtract = ''extract''"
| "opt_name OptForce = ''force''"
| "opt_name OptForceHTTP2 = ''force-http2''"
| "opt_name OptLoggingLevel = ''log-level''"
| "opt_name OptMaxChunks = ''max-chunks''"
| "opt_name OptMaxConnPerHost = ''max-conn-per-host''"
| "opt_name OptMaxConcurrentFiles = ''max-concurrent-files''"
| "opt_name OptMinimumChunkSize = ''minimum-chunk-size''"
| "opt_name OptOutputConsumer = ''output''"
| "opt_name OptPIDFile = ''pid-file''"
| "opt_name OptResolve = ''resolve''"
| "opt_name OptRetries = ''retries''"
| "opt_name OptVerbose = ''verbose''"

text \<open>The configuration: what the library returns for an option, by the type asked for.\<close>

record settings =
  GetString :: "opt \<Rightarrow> string"
  GetBool :: "opt \<Rightarrow> bool"
  GetInt :: "opt \<Rightarrow> int64"
  GetDuration :: "opt \<Rightarrow> int64"
  GetStringSlice :: "opt \<Rightarrow> string list"
  GetStringMapString :: "opt \<Rightarrow> (string \<times> string) list"

section \<open>Log level\<close>

datatype log_level = DebugLevel | InfoLevel | WarnLevel | ErrorLevel

definition setLogLevel :: "string \<Rightarrow> log_level" where
  "setLogLevel logLevel =
     (if logLevel = ''debug'' then DebugLevel
      else if logLevel = ''info'' then InfoLevel
      else if logLevel = ''warn'' then WarnLevel
      else if logLevel = ''error'' then ErrorLevel
      else InfoLevel)"

text \<open>The option of the log level is overwritten when the output is to be verbose.\<close>

definition PersistentStartupProcessFlags :: "settings \<Rightarrow> settings \<times> log_level" where
  "PersistentStartupProcessFlags cfg =
     (let cfg' = (if GetBool cfg OptVerbose
                  then cfg\<lparr>GetString := (GetString cfg)(OptLoggingLevel := ''debug'')\<rparr> else cfg)
      in (cfg', setLogLevel (GetString cfg' OptLoggingLevel)))"

section \<open>Address overrides\<close>

text \<open>\<open>net.JoinHostPort\<close>: a host with a colon is an IPv6 address and put in brackets.\<close>

definition JoinHostPort :: "string \<Rightarrow> string \<Rightarrow> string" where
  "JoinHostPort host port =
     (if CHR '':'' \<in> set host then ''['' @ host @ '']:'' @ port else host @ '':'' @ port)"

text \<open>The loop of \<open>ResolveOverridesToMap\<close>; \<open>isIP s\<close> tells whether \<open>net.ParseIP(s)\<close> is not nil.\<close>

fun resolve_loop ::
  "(string \<Rightarrow> bool) \<Rightarrow> string list \<Rightarrow> (string \<rightharpoonup> string) \<Rightarrow> go_error + (string \<rightharpoonup> string)" where
  "resolve_loop isIP [] m = Inr m"
| "resolve_loop isIP (resolveHost # rest) m =
     (case split_n (CHR '':'') 3 resolveHost of
        [host, port, addr] \<Rightarrow>
          if isIP host
          then Inl (Errorf (''invalid hostname specified, looks like an IP address: '' @ host))
          else let hostPort = JoinHostPort host port
          in (case m hostPort of
                Some override \<Rightarrow>
                  if override = JoinHostPort addr port then resolve_loop isIP rest m
                  else Inl (Errorf (''duplicate host:port specified: '' @ host))
              | None \<Rightarrow>
                  if \<not> isIP addr then Inl (Errorf (''invalid IP address: '' @ addr))
                  else resolve_loop isIP rest (m(hostPort \<mapsto> JoinHostPort addr port)))
      | _ \<Rightarrow> Inl (Errorf (''invalid resolve host format, expected <hostname>:port:<ip>, got: '' @ resolveHost)))"

text \<open>A nil map without an error when there are no overrides.\<close>

definition ResolveOverridesToMap ::
  "(string \<Rightarrow> bool) \<Rightarrow> string list \<Rightarrow> go_error + (string \<rightharpoonup> string) option" where
  "ResolveOverridesToMap isIP resolveOverrides =
     (if resolveOverrides = [] then Inr None
      else map_sum id Some (resolve_loop isIP resolveOverrides Map.empty))"

section \<open>Consumers\<close>

text \<open>The three implementations of the interface \<open>consumer.Consumer\<close>.\<close>

datatype consumer = FileWriter (Overwrite: bool) | TarExtractor (Overwrite: bool) | NullWriter

definition GetConsumer :: "settings \<Rightarrow> go_error + consumer" where
  "GetConsumer cfg =
     (let consumerName = GetString cfg OptOutputConsumer; enableOverwrite = GetBool cfg OptForce
      in if consumerName = ''file'' then Inr (FileWriter enableOverwrite)
         else if consumerName = ''tar-extractor'' then Inr (TarExtractor enableOverwrite)
         else if consumerName = ''null'' then Inr NullWriter
         else Inl (Errorf (''invalid consumer specified: '' @ consumerName)))"

section \<open>Caching\<close>

text \<open>
  The SRV name of the cache: the configured one, or that of an address range that contains the
  host's address, in the order in which the map is iterated. \<open>parseIP\<close> and \<open>cidr_contains\<close>
  (\<open>None\<close> for a range that cannot be parsed) stand for the functions of package net.
\<close>

fun srv_by_cidr :: "(string \<Rightarrow> 'ip \<Rightarrow> bool option) \<Rightarrow> 'ip \<Rightarrow> (string \<times> string) list \<Rightarrow> string" where
  "srv_by_cidr cidr_contains hostIP [] = ''''"
| "srv_by_cidr cidr_contains hostIP ((cidr, cidrSRV) # rest) =
     (case cidr_contains cidr hostIP of
        None \<Rightarrow> srv_by_cidr cidr_contains hostIP rest
      | Some True \<Rightarrow> cidrSRV
      | Some False \<Rightarrow> srv_by_cidr cidr_contains hostIP rest)"

definition GetCacheSRV ::
  "(string \<Rightarrow> 'ip option) \<Rightarrow> (string \<Rightarrow> 'ip \<Rightarrow> bool option) \<Rightarrow> settings \<Rightarrow> string" where
  "GetCacheSRV parseIP cidr_contains cfg =
     (let srv = GetString cfg OptCacheNodesSRVName
      in if srv \<noteq> '''' then srv
         else case parseIP (GetString cfg OptHostIP) of
                None \<Rightarrow> ''''
              | Some hostIP \<Rightarrow>
                  srv_by_cidr cidr_contains hostIP (GetStringMapString cfg OptCacheNodesSRVNameByHostCIDR))"

definition DefaultCacheURIPrefixes :: "string list" where
  "DefaultCacheURIPrefixes = [''https://weights.replicate.delivery'']"

fun prefixes_loop ::
  "(string \<Rightarrow> go_error + URL) \<Rightarrow> string list \<Rightarrow> (string \<rightharpoonup> URL list) \<Rightarrow> (string \<rightharpoonup> URL list)" where
  "prefixes_loop url_parse [] result = result"
| "prefixes_loop url_parse (uri # rest) result =
     prefixes_loop url_parse rest
       (case url_parse uri of
          Inl _ \<Rightarrow> result
        | Inr parsed \<Rightarrow>
            if url_Host parsed = '''' \<or> url_Scheme parsed = '''' then result
            else result(url_Host parsed \<mapsto>
              (case result (url_Host parsed) of None \<Rightarrow> [] | Some us \<Rightarrow> us) @ [parsed]))"

definition CacheableURIPrefixes_opt :: "(string \<Rightarrow> go_error + URL) \<Rightarrow> settings \<Rightarrow> (string \<rightharpoonup> URL list)" where
  "CacheableURIPrefixes_opt url_parse cfg =
     (let uris = GetStringSlice cfg OptCacheURIPrefixes
      in prefixes_loop url_parse (if uris = [] then DefaultCacheURIPrefixes else uris) Map.empty)"

definition CacheServiceHostname :: "(string \<Rightarrow> go_error + URL) \<Rightarrow> settings \<Rightarrow> string" where
  "CacheServiceHostname url_parse cfg =
     (let target = GetString cfg OptCacheServiceHostname
      in case url_parse target of Inl _ \<Rightarrow> '''' | Inr parsed \<Rightarrow> target)"

section \<open>What the overrides mean\<close>

text \<open>One override, taken apart: the address to replace and its replacement.\<close>

definition override_of :: "(string \<Rightarrow> bool) \<Rightarrow> string \<Rightarrow> (string \<times> string) option" where
  "override_of isIP s =
     (case split_n (CHR '':'') 3 s of
        [host, port, addr] \<Rightarrow>
          if isIP host then None else Some (JoinHostPort host port, JoinHostPort addr port)
      | _ \<Rightarrow> None)"

lemma map_le_SomeD: "m \<subseteq>\<^sub>m r \<Longrightarrow> m a = Some t \<Longrightarrow> r a = Some t"
  by (metis domI map_le_def)

lemma resolve_loop_ok:
  "resolve_loop isIP specs m = Inr r \<Longrightarrow>
     m \<subseteq>\<^sub>m r \<and>
     (\<forall>s \<in> set specs. \<exists>a t. override_of isIP s = Some (a, t) \<and> r a = Some t) \<and>
     (\<forall>a t. r a = Some t \<longrightarrow> m a = Some t \<or> (\<exists>s \<in> set specs. override_of isIP s = Some (a, t)))"
proof (induction specs arbitrary: m)
  case Nil
  then show ?case by simp
next
  case (Cons s specs)
  obtain host port addr where sp: "split_n (CHR '':'') 3 s = [host, port, addr]" and ip: "\<not> isIP host"
    using Cons.prems by (auto split: list.splits if_splits)
  let ?a = "JoinHostPort host port" and ?t = "JoinHostPort addr port"
  have ov: "override_of isIP s = Some (?a, ?t)" using sp ip by (simp add: override_of_def)
  show ?case
  proof (cases "m ?a")
    case None
    then have "resolve_loop isIP specs (m(?a \<mapsto> ?t)) = Inr r"
      using Cons.prems sp ip by (auto simp: Let_def split: if_splits)
    note ih = Cons.IH [OF this]
    have "m \<subseteq>\<^sub>m m(?a \<mapsto> ?t)" using None by (auto simp: map_le_def)
    with ih have le: "m \<subseteq>\<^sub>m r" using map_le_trans by blast
    moreover have "r ?a = Some ?t" using map_le_SomeD [of "m(?a \<mapsto> ?t)" r ?a ?t] ih by simp
    moreover have "m b = Some t \<or> (\<exists>x \<in> set (s # specs). override_of isIP x = Some (b, t))"
      if "r b = Some t" for b t
    proof -
      from ih that have "(m(?a \<mapsto> ?t)) b = Some t \<or> (\<exists>x \<in> set specs. override_of isIP x = Some (b, t))"
        by blast
      then show ?thesis using ov by (auto split: if_splits)
    qed
    ultimately show ?thesis using ih ov by auto
  next
    case (Some t')
    then have t': "t' = ?t" and "resolve_loop isIP specs m = Inr r"
      using Cons.prems sp ip by (auto simp: Let_def split: if_splits)
    note ih = Cons.IH [OF this(2)]
    have "r ?a = Some ?t" using map_le_SomeD [of m r ?a ?t] ih Some t' by simp
    with ih ov show ?thesis by auto
  qed
qed

section \<open>Properties\<close>

text \<open>C30. If the overrides are accepted, dialing the address of any of them connects to exactly its
  replacement, and every address that no override names is dialed unchanged.\<close>

theorem overrides_redirect_dialing:
  assumes "ResolveOverridesToMap isIP specs = Inr (Some m)"
  shows "(\<forall>s \<in> set specs. \<exists>a t. override_of isIP s = Some (a, t) \<and> DialContext dial m ctx network a = dial ctx network t) \<and>
     (\<forall>a. (\<forall>s \<in> set specs. \<forall>t. override_of isIP s \<noteq> Some (a, t)) \<longrightarrow>
        DialContext dial m ctx network a = dial ctx network a)"
proof -
  have "resolve_loop isIP specs Map.empty = Inr m"
    using assms by (cases "resolve_loop isIP specs Map.empty")
      (auto simp: ResolveOverridesToMap_def split: if_splits)
  note ok = resolve_loop_ok [OF this]
  have ne: "t \<noteq> []" if "override_of isIP s = Some (a, t)" for s a t
    using that by (auto simp: override_of_def JoinHostPort_def split: list.splits if_splits)
  show ?thesis
  proof (intro conjI ballI allI impI)
    fix s
    assume "s \<in> set specs"
    then obtain a t where at: "override_of isIP s = Some (a, t)" "m a = Some t" using ok by blast
    then have "DialContext dial m ctx network a = dial ctx network t"
      using ne [OF at(1)] by (simp add: DialContext_def)
    with at show "\<exists>a t. override_of isIP s = Some (a, t) \<and> DialContext dial m ctx network a = dial ctx network t"
      by (intro exI [of _ a] exI [of _ t]) simp
  next
    fix a
    assume none: "\<forall>s \<in> set specs. \<forall>t. override_of isIP s \<noteq> Some (a, t)"
    have "m a = None"
    proof (cases "m a")
      case (Some t)
      from conjunct2 [OF conjunct2 [OF ok], THEN spec, THEN spec, THEN mp, OF this] none show ?thesis by auto
    qed simp
    then show "DialContext dial m ctx network a = dial ctx network a" by (simp add: DialContext_def)
  qed
qed

theorem overrides_redirect_dialing_witness:
  "DialContext (\<lambda>ctx network addr. addr) [''example.com:80'' \<mapsto> ''127.0.0.1:80''] background ''tcp'' ''example.org:80'' =
     ''example.org:80''"
proof -
  let ?isIP = "\<lambda>s. s = ''127.0.0.1''" and ?specs = "[''example.com:80:127.0.0.1'']"
  let ?m = "[''example.com:80'' \<mapsto> ''127.0.0.1:80'']"
  have o: "override_of ?isIP ''example.com:80:127.0.0.1'' = Some (''example.com:80'', ''127.0.0.1:80'')"
    by (simp add: override_of_def numeral_3_eq_3 JoinHostPort_def)
  have "ResolveOverridesToMap ?isIP ?specs = Inr (Some ?m)"
    by (simp add: ResolveOverridesToMap_def numeral_3_eq_3 JoinHostPort_def)
  from overrides_redirect_dialing [OF this, where dial = "\<lambda>ctx network addr. addr"] o show ?thesis
    by auto
qed

text \<open>The cacheable URL of a host that a configured URI stands for, if any.\<close>

definition prefix_urls :: "(string \<Rightarrow> go_error + URL) \<Rightarrow> string \<Rightarrow> string list \<Rightarrow> URL list" where
  "prefix_urls url_parse h uris =
     filter (\<lambda>u. url_Host u = h \<and> url_Host u \<noteq> [] \<and> url_Scheme u \<noteq> [])
       (concat (map (\<lambda>uri. case url_parse uri of Inl _ \<Rightarrow> [] | Inr u \<Rightarrow> [u]) uris))"

lemma prefixes_loop_eq:
  "prefixes_loop url_parse uris result h =
     (case result h of
        None \<Rightarrow> if prefix_urls url_parse h uris = [] then None else Some (prefix_urls url_parse h uris)
      | Some vs \<Rightarrow> Some (vs @ prefix_urls url_parse h uris))"
proof (induction uris arbitrary: result)
  case Nil
  then show ?case by (simp add: prefix_urls_def split: option.split)
next
  case (Cons uri uris)
  show ?case
  proof (cases "url_parse uri")
    case (Inl e)
    then show ?thesis by (simp add: Cons prefix_urls_def split: option.split)
  next
    case (Inr u)
    then show ?thesis
      by (cases "url_Host u = h") (auto simp: Cons prefix_urls_def split: option.split)
  qed
qed

text \<open>The cacheable prefixes of a host are exactly the configured URIs (or the default one) that
  parse to a URL with this host and a scheme, in their order; a host without any has no entry.\<close>

theorem cacheable_prefixes_exact:
  "CacheableURIPrefixes_opt url_parse cfg h =
     (let uris = (if GetStringSlice cfg OptCacheURIPrefixes = [] then DefaultCacheURIPrefixes
                  else GetStringSlice cfg OptCacheURIPrefixes);
          us = prefix_urls url_parse h uris
      in if us = [] then None else Some us)"
  by (simp add: CacheableURIPrefixes_opt_def prefixes_loop_eq Let_def)

text \<open>No two options share a name, so none of them can shadow another in the configuration.\<close>

lemma option_names_distinct: "opt_name a = opt_name b \<longleftrightarrow> a = b"
  by (cases a; cases b) simp_all

end
