(* ===== verification/Go_Filepath.thy ===== *)
theory Go_Filepath
  imports Go_Strings
begin

text \<open>
  The parts of Go's package path/filepath that rpget uses, on Unix: \<open>Clean\<close>, \<open>Join\<close>, \<open>Dir\<close> and
  \<open>Abs\<close>. A path is cut at its slashes; \<open>Clean\<close> is described by its effect on the components.
\<close>

named_theorems path_simps \<open>facts on the components of paths\<close>

definition slash :: char where
  "slash = CHR ''/''"

definition rooted :: "string \<Rightarrow> bool" where
  "rooted s \<longleftrightarrow> s \<noteq> [] \<and> hd s = slash"

definition comps :: "string \<Rightarrow> string list" where
  "comps s = split_on slash s"

text \<open>
  One component after the others: empty ones and dots vanish, two dots remove the component
  before them, and at the root they vanish too.
\<close>

definition push_comp :: "bool \<Rightarrow> string list \<Rightarrow> string \<Rightarrow> string list" where
  "push_comp r st c =
     (if c = '''' \<or> c = ''.'' then st
      else if c = ''..''
      then (if st \<noteq> [] \<and> last st \<noteq> ''..'' then butlast st else if r then st else st @ [c])
      else st @ [c])"

definition norm_comps :: "bool \<Rightarrow> string list \<Rightarrow> string list" where
  "norm_comps r cs = foldl (push_comp r) [] cs"

fun join_slash :: "string list \<Rightarrow> string" where
  "join_slash [] = []"
| "join_slash [c] = c"
| "join_slash (c # cs) = c @ slash # join_slash cs"

definition render :: "bool \<Rightarrow> string list \<Rightarrow> string" where
  "render r cs = (if r then slash # join_slash cs else if cs = [] then ''.'' else join_slash cs)"

definition filepath_Clean :: "string \<Rightarrow> string" where
  "filepath_Clean s = render (rooted s) (norm_comps (rooted s) (comps s))"

text \<open>\<open>Join\<close> of two elements: leading empty elements are ignored.\<close>

definition filepath_Join :: "string \<Rightarrow> string \<Rightarrow> string" where
  "filepath_Join a b =
     (if a \<noteq> '''' then filepath_Clean (a @ slash # b) else if b \<noteq> '''' then filepath_Clean b else '''')"

text \<open>\<open>Dir\<close>: everything up to the last slash, cleaned.\<close>

definition filepath_Dir :: "string \<Rightarrow> string" where
  "filepath_Dir s = filepath_Clean (rev (dropWhile (\<lambda>c. c \<noteq> slash) (rev s)))"

text \<open>\<open>Abs\<close>, with the result of \<open>os.Getwd\<close>, which is only asked for a relative path.\<close>

definition filepath_Abs :: "go_error + string \<Rightarrow> string \<Rightarrow> go_error + string" where
  "filepath_Abs getwd s =
     (if rooted s then Inr (filepath_Clean s) else map_sum id (\<lambda>wd. filepath_Join wd s) getwd)"

section \<open>Components\<close>

lemma split_on_sep [go_string]: "split_on c (a @ c # b) = split_on c a @ split_on c b"
  by (induction a) (auto split: list.splits)

lemma comps_join [path_simps]: "comps (a @ slash # b) = comps a @ comps b"
  by (simp add: comps_def split_on_sep)

lemma comps_Nil [path_simps]: "comps [] = [[]]"
  by (simp add: comps_def)

lemma comps_slash [path_simps]: "comps (slash # s) = [] # comps s"
  by (simp add: comps_def)

text \<open>Components of a cleaned path below the root: no dots, no slashes, not empty.\<close>

definition plain_comp :: "string \<Rightarrow> bool" where
  "plain_comp c \<longleftrightarrow> c \<noteq> '''' \<and> c \<noteq> ''.'' \<and> c \<noteq> ''..'' \<and> slash \<notin> set c"

lemma comps_single [path_simps]: "slash \<notin> set c \<Longrightarrow> comps c = [c]"
  by (simp add: comps_def split_on_notin)

lemma comps_join_slash [path_simps]:
  "cs \<noteq> [] \<Longrightarrow> \<forall>c \<in> set cs. slash \<notin> set c \<Longrightarrow> comps (join_slash cs) = cs"
  by (induction cs rule: join_slash.induct) (auto simp: path_simps)

lemma push_plain [path_simps]: "plain_comp c \<Longrightarrow> push_comp r st c = st @ [c]"
  by (simp add: push_comp_def plain_comp_def)

lemma push_dotdot [path_simps]: "plain_comp c \<Longrightarrow> push_comp r (st @ [c]) ''..'' = st"
  by (simp add: push_comp_def plain_comp_def)

lemma push_empty [path_simps]: "push_comp r st [] = st"
  by (simp add: push_comp_def)

lemma foldl_push_plain [path_simps]: "list_all plain_comp cs \<Longrightarrow> foldl (push_comp r) st cs = st @ cs"
  by (induction cs arbitrary: st) (simp_all add: push_plain)

lemma plain_no_slash: "list_all plain_comp cs \<Longrightarrow> \<forall>c \<in> set cs. slash \<notin> set c"
  by (simp add: list_all_iff plain_comp_def)

lemma split_on_elems: "p \<in> set (split_on c s) \<Longrightarrow> c \<notin> set p"
  by (induction s arbitrary: p) (fastforce split: list.splits if_splits)+

lemma push_comp_plain:
  "list_all plain_comp st \<Longrightarrow> slash \<notin> set c \<Longrightarrow> list_all plain_comp (push_comp True st c)"
  by (auto simp: push_comp_def plain_comp_def list_all_iff dest: in_set_butlastD)

lemma foldl_push_is_plain:
  "list_all plain_comp st \<Longrightarrow> \<forall>c \<in> set cs. slash \<notin> set c \<Longrightarrow> list_all plain_comp (foldl (push_comp True) st cs)"
  by (induction cs arbitrary: st) (simp_all add: push_comp_plain)

lemma norm_comps_plain: "list_all plain_comp (norm_comps True (comps s))"
  unfolding norm_comps_def comps_def by (rule foldl_push_is_plain) (auto dest: split_on_elems)

section \<open>Absolute paths\<close>

text \<open>A clean absolute path and its components.\<close>

lemma rooted_render [simp]: "rooted (render True cs)"
  by (simp add: rooted_def render_def)

lemma norm_render:
  assumes "list_all plain_comp cs"
  shows "foldl (push_comp True) st (comps (render True cs)) = st @ cs"
proof (cases "cs = []")
  case True
  then show ?thesis by (simp add: render_def path_simps)
next
  case False
  then show ?thesis
    using assms plain_no_slash [OF assms]
    by (simp add: render_def path_simps)
qed

lemma clean_render: "list_all plain_comp cs \<Longrightarrow> filepath_Clean (render True cs) = render True cs"
  using norm_render [of cs "[]"] by (simp add: filepath_Clean_def norm_comps_def)

text \<open>Joining a clean absolute directory with any name continues with the components of the name.\<close>

lemma join_render:
  assumes "list_all plain_comp ds"
  shows "filepath_Join (render True ds) name = render True (foldl (push_comp True) ds (comps name))"
proof -
  have "rooted (render True ds @ slash # name)" by (simp add: rooted_def render_def)
  moreover have "norm_comps True (comps (render True ds @ slash # name)) =
      foldl (push_comp True) ds (comps name)"
    using norm_render [OF assms, of "[]"] by (simp add: norm_comps_def comps_join)
  moreover have "render True ds \<noteq> []" by (simp add: render_def)
  ultimately show ?thesis by (simp add: filepath_Join_def filepath_Clean_def)
qed

lemma rooted_cases:
  assumes "rooted s"
  obtains ds where "filepath_Clean s = render True ds" "list_all plain_comp ds"
    "ds = norm_comps True (comps s)"
  using assms norm_comps_plain that by (simp add: filepath_Clean_def)

lemma abs_rooted: "rooted s \<Longrightarrow> filepath_Abs wd s = Inr (filepath_Clean s)"
  by (simp add: filepath_Abs_def)

text \<open>Joining does not depend on whether an absolute directory was cleaned before.\<close>

lemma join_rooted:
  assumes "rooted d"
  shows "filepath_Join d name =
     render True (foldl (push_comp True) (norm_comps True (comps d)) (comps name))"
proof -
  have "rooted (d @ slash # name)" "d \<noteq> []" using assms by (auto simp: rooted_def)
  then show ?thesis by (simp add: filepath_Join_def filepath_Clean_def norm_comps_def comps_join)
qed

text \<open>\<open>Clean\<close> is idempotent on absolute paths.\<close>

lemma clean_idem: "rooted s \<Longrightarrow> filepath_Clean (filepath_Clean s) = filepath_Clean s"
  by (metis rooted_cases clean_render)

text \<open>String prefixes of clean absolute paths.\<close>

lemma join_slash_append:
  "xs \<noteq> [] \<Longrightarrow> ys \<noteq> [] \<Longrightarrow> join_slash (xs @ ys) = join_slash xs @ slash # join_slash ys"
  by (induction xs rule: join_slash.induct) (auto simp: neq_Nil_conv)

end
