(* ===== verification/Go_Files.thy ===== *)
theory Go_Files
  imports Go_Filepath
begin

text \<open>
  The operations of package os that rpget uses, on a Unix file system: a tree of directories,
  regular files (inodes, so that hard links share their content) and symbolic links, with the
  resolution of paths by the kernel. Permissions and hardware errors are not modelled: every
  call fails exactly when the shape of the tree demands it.
\<close>

section \<open>The tree\<close>

datatype node = Dir | File nat | Symlink string

type_synonym loc = "string list"

record file_system =
  fs_tree :: "loc \<rightharpoonup> node"
  fs_data :: "nat \<Rightarrow> byte list"
  fs_next :: nat
  fs_cwd :: loc

definition node_at :: "file_system \<Rightarrow> loc \<Rightarrow> node option" where
  "node_at fs p = (if p = [] then Some Dir else fs_tree fs p)"

definition not_exist :: "string \<Rightarrow> go_error" where
  "not_exist op = Wrapf op (Sentinel ErrNotExist)"

definition errno :: "string \<Rightarrow> go_error" where
  "errno msg = Foreign msg None"

text \<open>
  The kernel's walk along the components of a path, from a directory. A symbolic link is
  followed, except as the last component when \<open>follow\<close> is false; the number of links is
  limited. The result is the place the path names, which need not exist.
\<close>

definition link_base :: "string \<Rightarrow> loc \<Rightarrow> loc" where
  "link_base t cur = (if rooted t then [] else cur)"

function walk :: "file_system \<Rightarrow> bool \<Rightarrow> nat \<Rightarrow> loc \<Rightarrow> string list \<Rightarrow> go_error + loc" where
  "walk fs follow n cur [] = Inr cur"
| "walk fs follow n cur (c # cs) =
     (if c = '''' \<or> c = ''.'' then walk fs follow n cur cs
      else if c = ''..'' then walk fs follow n (butlast cur) cs
      else case node_at fs (cur @ [c]) of
             None \<Rightarrow> if cs = [] then Inr (cur @ [c]) else Inl (not_exist ''open'')
           | Some Dir \<Rightarrow> walk fs follow n (cur @ [c]) cs
           | Some (File i) \<Rightarrow> if cs = [] then Inr (cur @ [c]) else Inl (errno ''not a directory'')
           | Some (Symlink t) \<Rightarrow>
               if cs = [] \<and> \<not> follow then Inr (cur @ [c])
               else (case n of
                       0 \<Rightarrow> Inl (errno ''too many levels of symbolic links'')
                     | Suc k \<Rightarrow> walk fs follow k (link_base t cur) (comps t @ cs)))"
  by pat_completeness auto
termination
  by (relation "inv_image (less_than <*lex*> less_than) (\<lambda>(fs, follow, n, cur, cs). (n, length cs))") auto

declare walk.simps(2) [simp del]

text \<open>A relative path starts at the working directory, which may have been removed in the meantime.\<close>

definition resolve :: "file_system \<Rightarrow> bool \<Rightarrow> string \<Rightarrow> go_error + loc" where
  "resolve fs follow path =
     (if path = '''' \<or> \<not> rooted path \<and> node_at fs (fs_cwd fs) \<noteq> Some Dir then Inl (not_exist ''open'')
      else walk fs follow 40 (if rooted path then [] else fs_cwd fs) (comps path))"

section \<open>System calls\<close>

definition os_Getwd :: "file_system \<Rightarrow> go_error + string" where
  "os_Getwd fs = Inr (render True (fs_cwd fs))"

text \<open>\<open>os.Stat\<close> and \<open>os.Lstat\<close>: an error or what is there.\<close>

definition stat_node :: "file_system \<Rightarrow> bool \<Rightarrow> string \<Rightarrow> go_error + node" where
  "stat_node fs follow path =
     (case resolve fs follow path of
        Inl e \<Rightarrow> Inl e
      | Inr p \<Rightarrow> (case node_at fs p of None \<Rightarrow> Inl (not_exist ''stat'') | Some x \<Rightarrow> Inr x))"

definition os_Stat :: "file_system \<Rightarrow> string \<Rightarrow> go_error option" where
  "os_Stat fs path = (case stat_node fs True path of Inl e \<Rightarrow> Some e | Inr _ \<Rightarrow> None)"

definition put_node :: "file_system \<Rightarrow> loc \<Rightarrow> node \<Rightarrow> file_system" where
  "put_node fs p x = fs\<lparr>fs_tree := (fs_tree fs)(p \<mapsto> x)\<rparr>"

text \<open>A new name must not exist; its directory exists when the walk succeeds.\<close>

definition add_name :: "file_system \<Rightarrow> string \<Rightarrow> node \<Rightarrow> go_error option \<times> file_system" where
  "add_name fs path x =
     (case resolve fs False path of
        Inl e \<Rightarrow> (Some e, fs)
      | Inr p \<Rightarrow> if node_at fs p = None then (None, put_node fs p x) else (Some (errno ''file exists''), fs))"

definition os_Mkdir :: "file_system \<Rightarrow> string \<Rightarrow> go_error option \<times> file_system" where
  "os_Mkdir fs path = add_name fs path Dir"

definition os_Symlink :: "file_system \<Rightarrow> string \<Rightarrow> string \<Rightarrow> go_error option \<times> file_system" where
  "os_Symlink fs oldname newname = add_name fs newname (Symlink oldname)"

definition os_Link :: "file_system \<Rightarrow> string \<Rightarrow> string \<Rightarrow> go_error option \<times> file_system" where
  "os_Link fs oldname newname =
     (case stat_node fs False oldname of
        Inl e \<Rightarrow> (Some e, fs)
      | Inr Dir \<Rightarrow> (Some (errno ''operation not permitted''), fs)
      | Inr x \<Rightarrow> add_name fs newname x)"

text \<open>\<open>os.Remove\<close> removes a file, a link or an empty directory.\<close>

definition os_Remove :: "(loc \<Rightarrow> bool) \<Rightarrow> file_system \<Rightarrow> string \<Rightarrow> go_error option \<times> file_system" where
  "os_Remove is_empty fs path =
     (case resolve fs False path of
        Inl e \<Rightarrow> (Some e, fs)
      | Inr p \<Rightarrow>
          (case node_at fs p of
             None \<Rightarrow> (Some (not_exist ''remove''), fs)
           | Some Dir \<Rightarrow>
               if p \<noteq> [] \<and> is_empty p then (None, fs\<lparr>fs_tree := (fs_tree fs)(p := None)\<rparr>)
               else (Some (errno ''directory not empty''), fs)
           | Some _ \<Rightarrow> (None, fs\<lparr>fs_tree := (fs_tree fs)(p := None)\<rparr>)))"

text \<open>
  \<open>os.MkdirAll\<close>, by recursion over the components from the last one: the path exists and is a
  directory, or its parent is made first and then the directory itself.
\<close>

fun mkdir_all :: "file_system \<Rightarrow> bool \<Rightarrow> string list \<Rightarrow> go_error option \<times> file_system" where
  "mkdir_all fs r [] = (None, fs)"
| "mkdir_all fs r (c # rparents) =
     (let path = (if r then slash # join_slash (rev (c # rparents)) else join_slash (rev (c # rparents)))
      in case stat_node fs True path of
           Inr Dir \<Rightarrow> (None, fs)
         | Inr _ \<Rightarrow> (Some (errno ''not a directory''), fs)
         | Inl _ \<Rightarrow>
             (case mkdir_all fs r rparents of
                (Some e, fs1) \<Rightarrow> (Some e, fs1)
              | (None, fs1) \<Rightarrow>
                  (case os_Mkdir fs1 path of
                     (None, fs2) \<Rightarrow> (None, fs2)
                   | (Some e, fs2) \<Rightarrow>
                       if stat_node fs2 False path = Inr Dir then (None, fs2) else (Some e, fs2))))"

text \<open>The paths that rpget passes are clean, so their components are those between slashes.\<close>

definition os_MkdirAll :: "file_system \<Rightarrow> string \<Rightarrow> go_error option \<times> file_system" where
  "os_MkdirAll fs path =
     mkdir_all fs (rooted path) (rev (if rooted path then filter (\<lambda>c. c \<noteq> '''') (comps path) else comps path))"

text \<open>
  \<open>os.OpenFile\<close> for writing, with \<open>O_CREATE\<close> and possibly \<open>O_TRUNC\<close>: the inode or an error.
\<close>

definition os_OpenFile :: "file_system \<Rightarrow> string \<Rightarrow> bool \<Rightarrow> (go_error + nat) \<times> file_system" where
  "os_OpenFile fs path trunc =
     (case resolve fs True path of
        Inl e \<Rightarrow> (Inl e, fs)
      | Inr p \<Rightarrow>
          (case node_at fs p of
             Some (File i) \<Rightarrow> (Inr i, if trunc then fs\<lparr>fs_data := (fs_data fs)(i := [])\<rparr> else fs)
           | Some _ \<Rightarrow> (Inl (errno ''is a directory''), fs)
           | None \<Rightarrow>
               (Inr (fs_next fs),
                (put_node fs p (File (fs_next fs)))\<lparr>fs_data := (fs_data fs)(fs_next fs := []),
                   fs_next := Suc (fs_next fs)\<rparr>)))"

text \<open>Writing from the start of a file leaves what lies behind the written bytes.\<close>

definition write_file :: "file_system \<Rightarrow> nat \<Rightarrow> byte list \<Rightarrow> file_system" where
  "write_file fs i d = fs\<lparr>fs_data := (fs_data fs)(i := d @ drop (length d) (fs_data fs i))\<rparr>"

definition read_file :: "file_system \<Rightarrow> string \<Rightarrow> byte list option" where
  "read_file fs path =
     (case stat_node fs True path of Inr (File i) \<Rightarrow> Some (fs_data fs i) | _ \<Rightarrow> None)"

section \<open>Facts\<close>

lemma node_at_data [simp]: "node_at (fs\<lparr>fs_data := d\<rparr>) = node_at fs"
  by (simp add: node_at_def fun_eq_iff)

lemma node_at_next [simp]: "node_at (fs\<lparr>fs_next := n\<rparr>) = node_at fs"
  by (simp add: node_at_def fun_eq_iff)

lemma node_at_put: "p \<noteq> [] \<Longrightarrow> node_at (put_node fs p x) q = (if q = p then Some x else node_at fs q)"
  by (simp add: node_at_def put_node_def)

text \<open>The walk only looks at the tree.\<close>

lemma walk_cong: "node_at fs = node_at fs' \<Longrightarrow> walk fs follow n cur cs = walk fs' follow n cur cs"
  by (induction fs follow n cur cs rule: walk.induct)
     (auto simp: walk.simps(2) split: option.splits node.splits nat.splits)

lemma resolve_cong: "node_at fs = node_at fs' \<Longrightarrow> fs_cwd fs = fs_cwd fs' \<Longrightarrow> resolve fs follow path = resolve fs' follow path"
  using walk_cong [of fs fs'] by (simp add: resolve_def)

text \<open>
  Adding a node at the free place a walk ends at does not change the walk, if the node is not
  a link that would be followed.
\<close>

lemma walk_add:
  assumes "walk fs follow n cur cs = Inr p" "node_at fs p = None" "p \<noteq> []" "\<And>t. x \<noteq> Symlink t"
  shows "walk (put_node fs p x) follow n cur cs = Inr p"
  using assms(1,2)
proof (induction fs follow n cur cs rule: walk.induct)
  case (1 fs follow n cur)
  then show ?case by simp
next
  case (2 fs follow n cur c cs)
  note IH = "2.IH" and prems = "2.prems"
  consider "c = '''' \<or> c = ''.''" | "c = ''..''" | "c \<noteq> ''''" "c \<noteq> ''.''" "c \<noteq> ''..''" by blast
  then show ?case
  proof cases
    case 3
    have put: "node_at (put_node fs p x) (cur @ [c]) = (if cur @ [c] = p then Some x else node_at fs (cur @ [c]))"
      by (rule node_at_put [OF assms(3)])
    show ?thesis
    proof (cases "node_at fs (cur @ [c])")
      case None
      then have "cs = []" "p = cur @ [c]" using prems 3 by (auto simp: walk.simps(2) split: if_splits)
      then show ?thesis using 3 put assms(4) by (cases x) (auto simp: walk.simps(2))
    next
      case (Some y)
      then have ne: "cur @ [c] \<noteq> p" using prems by auto
      show ?thesis
        using Some ne put prems 3 IH
        by (cases y) (auto simp: walk.simps(2) split: if_splits nat.splits)
    qed
  qed (use IH prems in \<open>auto simp: walk.simps(2)\<close>)
qed

lemma put_node_cwd [simp]: "fs_cwd (put_node fs p x) = fs_cwd fs"
  by (simp add: put_node_def)

lemma resolve_add:
  assumes "resolve fs follow path = Inr p" "node_at fs p = None" "\<And>t. x \<noteq> Symlink t"
  shows "resolve (put_node fs p x) follow path = Inr p"
proof -
  have p: "p \<noteq> []" using assms(2) by (auto simp: node_at_def)
  have "node_at (put_node fs p x) (fs_cwd fs) = Some Dir" if "node_at fs (fs_cwd fs) = Some Dir"
    using that assms(2) node_at_put [OF p] by (metis option.distinct(1))
  then show ?thesis
    using assms p walk_add [of fs follow 40 _ "comps path" p x] by (auto simp: resolve_def split: if_splits)
qed

text \<open>After a file was opened for writing, its path names the inode.\<close>

lemma open_stat:
  assumes "os_OpenFile fs path trunc = (Inr i, fs1)"
  shows "stat_node fs1 True path = Inr (File i)"
proof -
  obtain p where r: "resolve fs True path = Inr p"
    using assms by (cases "resolve fs True path") (auto simp: os_OpenFile_def)
  show ?thesis
  proof (cases "node_at fs p")
    case None
    let ?fs = "put_node fs p (File (fs_next fs))"
    have e: "i = fs_next fs" "node_at fs1 = node_at ?fs" "fs_cwd fs1 = fs_cwd ?fs"
      using assms r None by (auto simp: os_OpenFile_def)
    have "resolve ?fs True path = Inr p" by (rule resolve_add [OF r None]) simp
    then have "resolve fs1 True path = Inr p" using e resolve_cong [of fs1 ?fs] by simp
    moreover have "node_at fs1 p = Some (File i)"
      using e None node_at_put [of p fs "File (fs_next fs)" p] by (auto simp: node_at_def)
    ultimately show ?thesis by (simp add: stat_node_def)
  next
    case (Some x)
    then obtain j where x: "x = File j" using assms r by (cases x) (auto simp: os_OpenFile_def)
    then have e: "i = j" "node_at fs1 = node_at fs" "fs_cwd fs1 = fs_cwd fs"
      using assms r Some by (auto simp: os_OpenFile_def split: if_splits)
    then have "resolve fs1 True path = Inr p" using r resolve_cong [of fs1 fs] by simp
    then show ?thesis using e Some x by (simp add: stat_node_def)
  qed
qed

lemma stat_write [simp]: "stat_node (write_file fs i d) follow path = stat_node fs follow path"
proof -
  have "resolve (write_file fs i d) follow path = resolve fs follow path"
    by (rule resolve_cong) (simp_all add: write_file_def)
  then show ?thesis by (simp add: stat_node_def write_file_def split: sum.splits)
qed

lemma open_data:
  assumes "os_OpenFile fs path trunc = (Inr i, fs1)"
  shows "fs_data fs1 i = (if trunc then [] else case read_file fs path of None \<Rightarrow> [] | Some d \<Rightarrow> d)"
  using assms
  by (auto simp: os_OpenFile_def read_file_def stat_node_def split: sum.splits option.splits node.splits)

text \<open>Opening, writing and reading back.\<close>

lemma open_write_read:
  assumes "os_OpenFile fs path trunc = (Inr i, fs1)"
  shows "read_file (write_file fs1 i d) path =
     Some (d @ drop (length d) (if trunc then [] else case read_file fs path of None \<Rightarrow> [] | Some old \<Rightarrow> old))"
  unfolding read_file_def stat_write open_stat [OF assms]
  by (simp add: write_file_def open_data [OF assms] read_file_def)

text \<open>Calls that create no symbolic links.\<close>

definition no_new_links :: "file_system \<Rightarrow> file_system \<Rightarrow> bool" where
  "no_new_links fs fs' \<longleftrightarrow> (\<forall>p t. node_at fs' p = Some (Symlink t) \<longrightarrow> node_at fs p = Some (Symlink t))"

lemma no_new_links_refl [simp]: "no_new_links fs fs"
  by (simp add: no_new_links_def)

lemma no_new_links_trans: "no_new_links a b \<Longrightarrow> no_new_links b c \<Longrightarrow> no_new_links a c"
  unfolding no_new_links_def by blast

lemma no_new_links_put: "\<forall>t. x \<noteq> Symlink t \<Longrightarrow> no_new_links fs (put_node fs p x)"
  by (auto simp: no_new_links_def node_at_def put_node_def split: if_splits)

lemma no_new_links_node: "node_at fs = node_at fs' \<Longrightarrow> no_new_links fs fs'"
  by (simp add: no_new_links_def)

lemma mkdir_no_links: "no_new_links fs (snd (os_Mkdir fs path))"
  by (auto simp: os_Mkdir_def add_name_def intro: no_new_links_put split: sum.splits)

lemma mkdir_all_no_links: "no_new_links fs (snd (mkdir_all fs r rs))"
proof (induction rs)
  case Nil
  then show ?case by simp
next
  case (Cons c rs)
  let ?path = "if r then slash # join_slash (rev (c # rs)) else join_slash (rev (c # rs))"
  obtain e1 fs1 where 1: "mkdir_all fs r rs = (e1, fs1)" by fastforce
  obtain e2 fs2 where 2: "os_Mkdir fs1 ?path = (e2, fs2)" by fastforce
  have "no_new_links fs fs1" "no_new_links fs1 fs2"
    using Cons 1 mkdir_no_links [of fs1 ?path] 2 by simp_all
  then have "no_new_links fs fs1" "no_new_links fs fs2" using no_new_links_trans by blast+
  then show ?case
    using 1 2 by (auto simp: Let_def split: sum.splits node.splits option.splits)
qed

lemma MkdirAll_no_links: "no_new_links fs (snd (os_MkdirAll fs path))"
  by (simp add: os_MkdirAll_def mkdir_all_no_links)

lemma OpenFile_no_links: "no_new_links fs (snd (os_OpenFile fs path trunc))"
proof -
  have "no_new_links fs ((put_node fs p (File k))\<lparr>fs_data := d, fs_next := n\<rparr>)" for p k d n
    using no_new_links_put [of "File k" fs p] by (simp add: no_new_links_def)
  then show ?thesis
    by (auto simp: os_OpenFile_def intro: no_new_links_node split: sum.splits option.splits node.splits)
qed

lemma write_file_no_links: "no_new_links fs (write_file fs i d)"
  by (simp add: write_file_def no_new_links_node)

end
