(* ===== verification/Tar_Extract.thy ===== *)
theory Tar_Extract
  imports Go_Files
begin

unbundle bit_operations_syntax

text \<open>
  Model of pkg/extract/compression.go and pkg/extract/tar.go: the detection of compression
  formats, the guard against entries outside of the destination, and the extraction of an
  archive onto the file system. The tar reader and the decompressors are parameters: they turn
  the bytes of the download into a sequence of headers with their data.
\<close>

section \<open>Compression formats\<close>

datatype lzw_order = LSB | MSB

datatype decompressor =
    gzipDecompressor
  | bzip2Decompressor
  | xzDecompressor
  | lzwDecompressor (litWidth: int64) (order: lzw_order)
  | lz4Decompressor

definition peekSize :: nat where
  "peekSize = 8"

definition gzipMagic :: "byte list" where
  "gzipMagic = [0x1F, 0x8B]"

definition bzipMagic :: "byte list" where
  "bzipMagic = [0x42, 0x5A]"

definition xzMagic :: "byte list" where
  "xzMagic = [0xFD, 0x37, 0x7A, 0x58, 0x5A, 0x00]"

definition lzwMagic :: "byte list" where
  "lzwMagic = [0x1F, 0x9D]"

definition lz4Magic :: "byte list" where
  "lz4Magic = [0x18, 0x4D, 0x22, 0x04]"

definition bytes_HasPrefix :: "byte list \<Rightarrow> byte list \<Rightarrow> bool" where
  "bytes_HasPrefix s p \<longleftrightarrow> take (length p) s = p"

definition detectFormat :: "byte list \<Rightarrow> decompressor option" where
  "detectFormat inp =
     (if length inp < 2 then None
      else let inp' = (if length inp < 8 then inp @ replicate (peekSize - length inp) 0 else inp)
      in if bytes_HasPrefix inp' gzipMagic then Some gzipDecompressor
         else if bytes_HasPrefix inp' bzipMagic then Some bzip2Decompressor
         else if bytes_HasPrefix inp' lzwMagic
         then Some (lzwDecompressor (uint (drop_bit 5 (inp' ! 2)) + 9) MSB)
         else if bytes_HasPrefix inp' lz4Magic then Some lz4Decompressor
         else if bytes_HasPrefix inp' xzMagic then Some xzDecompressor
         else None)"

section \<open>Headers\<close>

record tar_header =
  h_Name :: string
  h_Typeflag :: char
  h_Mode :: int64
  h_Linkname :: string
  h_Data :: "byte list"
  h_DataErr :: "go_error option"

definition TypeReg :: char where "TypeReg = CHR ''0''"
definition TypeLink :: char where "TypeLink = CHR ''1''"
definition TypeSymlink :: char where "TypeSymlink = CHR ''2''"
definition TypeDir :: char where "TypeDir = CHR ''5''"
definition TypeXGlobalHeader :: char where "TypeXGlobalHeader = CHR ''g''"

text \<open>What the tar reader yields: headers, the error that ends them (none at the end of the
  archive), and the number of bytes of the download it has taken by then.\<close>

record tar_stream =
  ts_headers :: "tar_header list"
  ts_err :: "go_error option"
  ts_taken :: nat

type_synonym archive_reader =
  "decompressor option \<Rightarrow> byte list \<times> go_error option \<Rightarrow> go_error + tar_stream"

record link =
  linkType :: char
  oldName :: string
  newName :: string

text \<open>\<open>os.FileMode\<close> is a 32-bit word; three of its bits are cleared.\<close>

definition cleanFileMode :: "32 word \<Rightarrow> 32 word" where
  "cleanFileMode mode =
     (let mask = push_bit 20 1 OR push_bit 23 1 OR push_bit 22 1 in mode AND NOT mask)"

section \<open>The guard\<close>

definition guardAgainstZipSlip :: "go_error + string \<Rightarrow> string \<Rightarrow> string \<Rightarrow> go_error option" where
  "guardAgainstZipSlip getwd name destDir =
     (if name = '''' then Some (Sentinel ErrEmptyHeaderName)
      else case filepath_Abs getwd (filepath_Join destDir name) of
             Inl err \<Rightarrow> Some (Wrapf (''error getting absolute path of destDir '' @ name) err)
           | Inr target \<Rightarrow>
               (case filepath_Abs getwd destDir of
                  Inl err \<Rightarrow> Some (Wrapf (''error getting absolute path of '' @ destDir) err)
                | Inr destAbs \<Rightarrow>
                    if \<not> has_prefix target destAbs
                    then Some (Wrapf (target @ '' outside of '' @ destAbs) (Sentinel ErrZipSlip))
                    else None))"

section \<open>Extraction\<close>

text \<open>One header: an error, or the links to be created later.\<close>

definition tar_entry ::
  "file_system \<Rightarrow> string \<Rightarrow> bool \<Rightarrow> tar_header \<Rightarrow> link list \<Rightarrow> (go_error + link list) \<times> file_system" where
  "tar_entry fs destDir overwrite header links =
     (let target = filepath_Join destDir (h_Name header)
      in case os_MkdirAll fs (filepath_Dir target) of
           (Some err, fs1) \<Rightarrow> (Inl err, fs1)
         | (None, fs1) \<Rightarrow>
             (case guardAgainstZipSlip (os_Getwd fs1) (h_Name header) destDir of
                Some err \<Rightarrow> (Inl err, fs1)
              | None \<Rightarrow>
                  if h_Typeflag header = TypeXGlobalHeader then (Inr links, fs1)
                  else if h_Typeflag header = TypeDir
                  then (case os_MkdirAll fs1 target of
                          (Some err, fs2) \<Rightarrow> (Inl err, fs2)
                        | (None, fs2) \<Rightarrow> (Inr links, fs2))
                  else if h_Typeflag header = TypeReg
                  then (case os_OpenFile fs1 target overwrite of
                          (Inl err, fs2) \<Rightarrow> (Inl err, fs2)
                        | (Inr i, fs2) \<Rightarrow>
                            let fs3 = write_file fs2 i (h_Data header)
                            in (case h_DataErr header of
                                  Some err \<Rightarrow> (Inl err, fs3)
                                | None \<Rightarrow> (Inr links, fs3)))
                  else if h_Typeflag header = TypeSymlink \<or> h_Typeflag header = TypeLink
                  then (Inr (links @ [\<lparr>linkType = h_Typeflag header, oldName = h_Linkname header,
                               newName = target\<rparr>]), fs1)
                  else (Inl (Errorf (''unsupported file type for '' @ h_Name header @ '', typeflag '' @
                               [h_Typeflag header])), fs1)))"

fun tar_loop ::
  "string \<Rightarrow> bool \<Rightarrow> tar_header list \<Rightarrow> link list \<Rightarrow> file_system \<Rightarrow> (go_error + link list) \<times> file_system" where
  "tar_loop destDir overwrite [] links fs = (Inr links, fs)"
| "tar_loop destDir overwrite (header # rest) links fs =
     (case tar_entry fs destDir overwrite header links of
        (Inl err, fs1) \<Rightarrow> (Inl err, fs1)
      | (Inr links1, fs1) \<Rightarrow> tar_loop destDir overwrite rest links1 fs1)"

text \<open>A directory is empty when no place below it is in use; this is asked of the tree as it is.\<close>

definition is_empty_dir :: "file_system \<Rightarrow> loc \<Rightarrow> bool" where
  "is_empty_dir fs p \<longleftrightarrow> (\<forall>c. fs_tree fs (p @ [c]) = None)"

text \<open>Both kinds of links first remove what is in their way if they may.\<close>

definition remove_existing :: "bool \<Rightarrow> file_system \<Rightarrow> string \<Rightarrow> go_error option \<times> file_system" where
  "remove_existing overwrite fs newname =
     (if overwrite
      then (case os_Remove (is_empty_dir fs) fs newname of
              (Some err, fs1) \<Rightarrow>
                if errors_is err ErrNotExist then (None, fs1)
                else (Some (Wrapf ''error removing existing file'' err), fs1)
            | (None, fs1) \<Rightarrow> (None, fs1))
      else (None, fs))"

definition createHardLink :: "file_system \<Rightarrow> string \<Rightarrow> string \<Rightarrow> bool \<Rightarrow> go_error option \<times> file_system" where
  "createHardLink fs oldname newname overwrite =
     (case remove_existing overwrite fs newname of
        (Some err, fs1) \<Rightarrow> (Some err, fs1)
      | (None, fs1) \<Rightarrow> os_Link fs1 oldname newname)"

definition createSymlink :: "file_system \<Rightarrow> string \<Rightarrow> string \<Rightarrow> bool \<Rightarrow> go_error option \<times> file_system" where
  "createSymlink fs oldname newname overwrite =
     (case remove_existing overwrite fs newname of
        (Some err, fs1) \<Rightarrow> (Some err, fs1)
      | (None, fs1) \<Rightarrow> os_Symlink fs1 oldname newname)"

fun createLinks :: "link list \<Rightarrow> string \<Rightarrow> bool \<Rightarrow> file_system \<Rightarrow> go_error option \<times> file_system" where
  "createLinks [] destDir overwrite fs = (None, fs)"
| "createLinks (lk # rest) destDir overwrite fs =
     (case os_MkdirAll fs (filepath_Dir (newName lk)) of
        (Some err, fs1) \<Rightarrow> (Some err, fs1)
      | (None, fs1) \<Rightarrow>
          if linkType lk = TypeLink
          then let oldPath = filepath_Join destDir (oldName lk)
               in (case createHardLink fs1 oldPath (newName lk) overwrite of
                     (Some err, fs2) \<Rightarrow>
                       (Some (Wrapf (''error creating hard link from '' @ oldPath @ '' to '' @ newName lk) err), fs2)
                   | (None, fs2) \<Rightarrow> createLinks rest destDir overwrite fs2)
          else if linkType lk = TypeSymlink
          then (case createSymlink fs1 (oldName lk) (newName lk) overwrite of
                  (Some err, fs2) \<Rightarrow>
                    (Some (Wrapf (''error creating symlink from '' @ oldName lk @ '' to '' @ newName lk) err), fs2)
                | (None, fs2) \<Rightarrow> createLinks rest destDir overwrite fs2)
          else (Some (Errorf (''unsupported link type '' @ [linkType lk])), fs1))"

text \<open>
  \<open>TarFile\<close> over all bytes that can be read and the error after them: the first bytes decide the
  format, the headers are extracted, the links are created, and what is left must be zero.
\<close>

definition TarFile ::
  "archive_reader \<Rightarrow> file_system \<Rightarrow> byte list \<times> go_error option \<Rightarrow> string \<Rightarrow> bool \<Rightarrow>
     go_error option \<times> file_system" where
  "TarFile archive fs inp destDir overwrite =
     (case inp of (data, rerr) \<Rightarrow>
        if length data < peekSize
        then (Some (Wrapf ''error reading peek data'' (case rerr of None \<Rightarrow> Sentinel EOF | Some e \<Rightarrow> e)), fs)
        else case archive (detectFormat (take peekSize data)) inp of
          Inl err \<Rightarrow> (Some (Wrapf ''error creating decompressed stream'' err), fs)
        | Inr ts \<Rightarrow>
            (case tar_loop destDir overwrite (ts_headers ts) [] fs of
               (Inl err, fs1) \<Rightarrow> (Some err, fs1)
             | (Inr links, fs1) \<Rightarrow>
                 (case ts_err ts of
                    Some err \<Rightarrow> (Some err, fs1)
                  | None \<Rightarrow>
                      (case createLinks links destDir overwrite fs1 of
                         (Some err, fs2) \<Rightarrow> (Some (Wrapf ''error creating links'' err), fs2)
                       | (None, fs2) \<Rightarrow>
                           (case rerr of
                              Some err \<Rightarrow> (Some (Wrapf ''error reading padding bytes'' err), fs2)
                            | None \<Rightarrow>
                                if list_ex (\<lambda>b. b \<noteq> 0) (drop (ts_taken ts) data)
                                then (Some (Errorf ''unexpected non-null byte in padding''), fs2)
                                else (None, fs2))))))"

section \<open>What the guard accepts\<close>

lemma split_on_concat:
  "split_on c (p @ r) = butlast (split_on c p) @ (last (split_on c p) @ hd (split_on c r)) # tl (split_on c r)"
proof (induction p)
  case Nil
  then show ?case by (cases "split_on c r") auto
next
  case (Cons x p)
  then show ?case by (cases "split_on c p") (auto split: list.splits)
qed

text \<open>A string prefix of a clean path: the last component may go on.\<close>

lemma has_prefix_join_slash:
  assumes "list_all plain_comp ds" "list_all plain_comp ts" "ds \<noteq> []"
  shows "has_prefix (join_slash ts) (join_slash ds) \<longleftrightarrow>
     (\<exists>sfx us. ts = butlast ds @ (last ds @ sfx) # us)"
proof
  assume "has_prefix (join_slash ts) (join_slash ds)"
  then obtain r where r: "join_slash ts = join_slash ds @ r" by (auto simp: has_prefix_iff)
  have cd: "comps (join_slash ds) = ds" using assms plain_no_slash by (intro comps_join_slash) auto
  have "ts \<noteq> []"
  proof
    assume "ts = []"
    then have "comps (join_slash ds) = [[]]" using r by (simp add: path_simps)
    with cd assms(1) show False by (auto simp: plain_comp_def)
  qed
  then have "comps (join_slash ts) = ts" using assms plain_no_slash by (intro comps_join_slash) auto
  then have "ts = butlast ds @ (last ds @ hd (comps r)) # tl (comps r)"
    using split_on_concat [of slash "join_slash ds" r] r cd by (simp add: comps_def)
  then show "\<exists>sfx us. ts = butlast ds @ (last ds @ sfx) # us" by blast
next
  assume "\<exists>sfx us. ts = butlast ds @ (last ds @ sfx) # us"
  then obtain sfx us where t: "ts = butlast ds @ (last ds @ sfx) # us" by blast
  have pre: "\<exists>r. join_slash ((b @ sfx) # us) = b @ r" for b by (cases us) auto
  have "\<exists>r. join_slash (xs @ (b @ sfx) # us) = join_slash (xs @ [b]) @ r" for xs b
  proof (cases "xs = []")
    case True
    then show ?thesis using pre by simp
  next
    case False
    obtain r where "join_slash ((b @ sfx) # us) = b @ r" using pre by blast
    then show ?thesis
      using False join_slash_append [of xs "(b @ sfx) # us"] join_slash_append [of xs "[b]"] by simp
  qed
  from this [of "butlast ds" "last ds"] obtain r where "join_slash ts = join_slash ds @ r"
    using t assms(3) by auto
  then show "has_prefix (join_slash ts) (join_slash ds)" by (simp add: has_prefix_iff)
qed

text \<open>The components of the target of a name below an absolute directory.\<close>

definition dest_comps :: "string \<Rightarrow> loc" where
  "dest_comps destDir = norm_comps True (comps destDir)"

definition target_comps :: "string \<Rightarrow> string \<Rightarrow> loc" where
  "target_comps destDir name = foldl (push_comp True) (dest_comps destDir) (comps name)"

lemma comps_no_slash: "\<forall>c \<in> set (comps s). slash \<notin> set c"
  using split_on_elems by (auto simp: comps_def)

lemma dest_comps_plain: "list_all plain_comp (dest_comps d)"
  by (simp add: dest_comps_def norm_comps_plain)

lemma target_comps_plain: "list_all plain_comp (target_comps d name)"
  unfolding target_comps_def by (rule foldl_push_is_plain [OF dest_comps_plain comps_no_slash])

lemma join_target: "rooted d \<Longrightarrow> filepath_Join d name = render True (target_comps d name)"
  by (simp add: join_rooted target_comps_def dest_comps_def)

lemma guard_iff:
  assumes "rooted destDir"
  shows "guardAgainstZipSlip wd name destDir = None \<longleftrightarrow>
     name \<noteq> '''' \<and> (dest_comps destDir = [] \<or>
       (\<exists>sfx us. target_comps destDir name = butlast (dest_comps destDir) @ (last (dest_comps destDir) @ sfx) # us))"
proof -
  let ?ts = "target_comps destDir name" and ?ds = "dest_comps destDir"
  have "filepath_Abs wd (filepath_Join destDir name) = Inr (render True ?ts)"
    by (simp add: join_target [OF assms] abs_rooted clean_render [OF target_comps_plain])
  moreover have "filepath_Abs wd destDir = Inr (render True ?ds)"
    using assms by (simp add: abs_rooted filepath_Clean_def dest_comps_def)
  moreover have "has_prefix (render True ?ts) (render True ?ds) \<longleftrightarrow>
      ?ds = [] \<or> (\<exists>sfx us. ?ts = butlast ?ds @ (last ?ds @ sfx) # us)"
    using has_prefix_join_slash [OF dest_comps_plain target_comps_plain, of destDir destDir name]
    by (cases "?ds = []") (simp_all add: render_def)
  ultimately show ?thesis by (simp add: guardAgainstZipSlip_def)
qed

section \<open>No link exists while files are written\<close>

lemma tar_entry_no_links: "no_new_links fs (snd (tar_entry fs destDir overwrite header links))"
proof -
  let ?t = "filepath_Join destDir (h_Name header)"
  obtain e1 fs1 where 1: "os_MkdirAll fs (filepath_Dir ?t) = (e1, fs1)" by fastforce
  obtain e2 fs2 where 2: "os_MkdirAll fs1 ?t = (e2, fs2)" by fastforce
  obtain e3 fs3 where 3: "os_OpenFile fs1 ?t overwrite = (e3, fs3)" by fastforce
  have a: "no_new_links fs fs1" using MkdirAll_no_links [of fs "filepath_Dir ?t"] 1 by simp
  have b: "no_new_links fs fs2" using MkdirAll_no_links [of fs1 ?t] 2 a no_new_links_trans by simp
  have c: "no_new_links fs fs3" using OpenFile_no_links [of fs1 ?t overwrite] 3 a no_new_links_trans by simp
  have "no_new_links fs (write_file fs3 i d)" for i d
    using c write_file_no_links no_new_links_trans by blast
  with a b c show ?thesis
    using 1 2 3 by (auto simp: tar_entry_def Let_def split: option.splits sum.splits)
qed

lemma tar_loop_no_links: "no_new_links fs (snd (tar_loop destDir overwrite hs links fs))"
proof (induction hs arbitrary: links fs)
  case Nil
  then show ?case by simp
next
  case (Cons h hs)
  obtain r fs1 where e: "tar_entry fs destDir overwrite h links = (r, fs1)" by fastforce
  have "no_new_links fs fs1" using tar_entry_no_links [of fs destDir overwrite h links] e by simp
  then show ?case
    using e Cons [of fs1] no_new_links_trans by (auto split: sum.splits)
qed

section \<open>A successful extraction\<close>

text \<open>A successful extraction has read the whole download, and what follows the archive is zero.\<close>

lemma TarFile_ok:
  assumes "TarFile archive fs (data, rerr) destDir overwrite = (None, fs')"
  shows "rerr = None \<and> peekSize \<le> length data \<and>
     (\<exists>ts links fs1. archive (detectFormat (take peekSize data)) (data, rerr) = Inr ts \<and> ts_err ts = None \<and>
        tar_loop destDir overwrite (ts_headers ts) [] fs = (Inr links, fs1) \<and>
        createLinks links destDir overwrite fs1 = (None, fs') \<and>
        list_all (\<lambda>b. b = 0) (drop (ts_taken ts) data))"
  using assms
  by (auto simp: TarFile_def list_ex_iff list_all_iff split: if_splits sum.splits prod.splits option.splits)

section \<open>Properties\<close>

lemma push_no_dotdot:
  "''..'' \<notin> set cs \<Longrightarrow> \<exists>us. foldl (push_comp r) st cs = st @ us"
proof (induction cs arbitrary: st)
  case Nil
  then show ?case by simp
next
  case (Cons c cs)
  then obtain us where "foldl (push_comp r) (push_comp r st c) cs = push_comp r st c @ us" by auto
  moreover have "\<exists>vs. push_comp r st c = st @ vs" using Cons.prems by (auto simp: push_comp_def)
  ultimately show ?case by auto
qed

text \<open>For an absolute destination, the guard accepts a non-empty name exactly if the path it
  leads to is the destination or continues it as a string: it lies inside the destination, or
  inside a sibling whose name begins with the name of the destination. In particular every
  name without two dots is accepted and leads into the destination.\<close>

theorem zip_slip_guard_exact:
  assumes "rooted destDir"
  shows "(guardAgainstZipSlip wd name destDir = None \<longleftrightarrow>
       name \<noteq> '''' \<and> (dest_comps destDir = [] \<or>
         (\<exists>sfx us. target_comps destDir name = butlast (dest_comps destDir) @ (last (dest_comps destDir) @ sfx) # us))) \<and>
     filepath_Join destDir name = render True (target_comps destDir name) \<and>
     (name \<noteq> '''' \<and> ''..'' \<notin> set (comps name) \<longrightarrow>
       guardAgainstZipSlip wd name destDir = None \<and>
       (\<exists>us. target_comps destDir name = dest_comps destDir @ us))"
proof (intro conjI impI)
  show "guardAgainstZipSlip wd name destDir = None \<longleftrightarrow>
       name \<noteq> '''' \<and> (dest_comps destDir = [] \<or>
         (\<exists>sfx us. target_comps destDir name = butlast (dest_comps destDir) @ (last (dest_comps destDir) @ sfx) # us))"
    by (rule guard_iff [OF assms])
  show "filepath_Join destDir name = render True (target_comps destDir name)" by (rule join_target [OF assms])
  assume n: "name \<noteq> '''' \<and> ''..'' \<notin> set (comps name)"
  then obtain us where us: "target_comps destDir name = dest_comps destDir @ us"
    using push_no_dotdot [of "comps name" True "dest_comps destDir"] by (auto simp: target_comps_def)
  then show "\<exists>us. target_comps destDir name = dest_comps destDir @ us" by blast
  have "dest_comps destDir = [] \<or>
      (\<exists>sfx us. target_comps destDir name = butlast (dest_comps destDir) @ (last (dest_comps destDir) @ sfx) # us)"
  proof (cases "dest_comps destDir = []")
    case False
    then have "target_comps destDir name =
        butlast (dest_comps destDir) @ (last (dest_comps destDir) @ []) # us" using us by simp
    then show ?thesis by blast
  qed simp
  with n guard_iff [OF assms] show "guardAgainstZipSlip wd name destDir = None" by blast
qed

theorem zip_slip_guard_exact_witness:
  "guardAgainstZipSlip (Inr ''/'') ''a/b'' ''/data/out'' = None \<and>
     (\<exists>us. target_comps ''/data/out'' ''a/b'' = dest_comps ''/data/out'' @ us)"
proof -
  have "rooted ''/data/out''" "''..'' \<notin> set (comps ''a/b'')" by code_simp+
  with zip_slip_guard_exact [of "''/data/out''" "Inr ''/''" "''a/b''"] show ?thesis by blast
qed

text \<open>The guard compares strings, not components: an entry that climbs out of the destination
  into a sibling whose name only begins like the destination is accepted.\<close>

theorem zip_slip_sibling_accepted:
  assumes "list_all plain_comp ds" "plain_comp b" "plain_comp (b @ sfx)" "plain_comp f"
  shows "guardAgainstZipSlip wd (''..'' @ slash # (b @ sfx) @ slash # f) (render True (ds @ [b])) = None \<and>
     filepath_Join (render True (ds @ [b])) (''..'' @ slash # (b @ sfx) @ slash # f) =
       render True (ds @ [b @ sfx, f])"
proof -
  let ?d = "render True (ds @ [b])" and ?n = "''..'' @ slash # (b @ sfx) @ slash # f"
  have r: "rooted ?d" by simp
  have d: "dest_comps ?d = ds @ [b]"
    using norm_render [of "ds @ [b]" "[]"] assms by (simp add: dest_comps_def norm_comps_def)
  have c: "comps ?n = [''..'', b @ sfx, f]"
  proof -
    have "comps (''..'' @ slash # (b @ sfx) @ slash # f) = comps ''..'' @ comps (b @ sfx) @ comps f"
      by (simp only: comps_join)
    moreover have "comps ''..'' = [''..'']" by code_simp
    ultimately show ?thesis using assms by (simp add: plain_comp_def comps_single)
  qed
  have t: "target_comps ?d ?n = ds @ [b @ sfx, f]"
    unfolding target_comps_def d c using assms by (simp add: push_dotdot push_plain)
  moreover have "guardAgainstZipSlip wd ?n ?d = None"
    unfolding guard_iff [OF r] t d by auto
  ultimately show ?thesis using join_target [OF r, of ?n] by simp
qed

theorem zip_slip_sibling_accepted_witness:
  "guardAgainstZipSlip (Inr ''/'') (''..'' @ slash # (''foo'' @ ''bar'') @ slash # ''x'') (render True ([''tmp''] @ [''foo''])) = None \<and>
     filepath_Join (render True ([''tmp''] @ [''foo''])) (''..'' @ slash # (''foo'' @ ''bar'') @ slash # ''x'') =
       render True ([''tmp''] @ [''foo'' @ ''bar'', ''x''])"
  by (rule zip_slip_sibling_accepted) (simp_all add: plain_comp_def slash_def)

text \<open>No symbolic link of an archive exists while its files are written: extracting the headers
  creates no link, so a link cannot redirect a later file of the same archive.\<close>

theorem tar_files_before_links:
  "node_at (snd (tar_loop destDir overwrite hs [] fs)) p = Some (Symlink t) \<Longrightarrow> node_at fs p = Some (Symlink t)"
  using tar_loop_no_links [of fs destDir overwrite hs "[]"] by (simp add: no_new_links_def)

definition example_fs :: file_system where
  "example_fs = \<lparr>fs_tree = [[''l''] \<mapsto> Symlink ''/t''], fs_data = (\<lambda>_. []), fs_next = 0, fs_cwd = []\<rparr>"

theorem tar_files_before_links_witness: "node_at example_fs [''l''] = Some (Symlink ''/t'')"
  by (rule tar_files_before_links [of "''/d''" False "[]"]) (simp add: example_fs_def node_at_def)

definition example_header :: tar_header where
  "example_header = \<lparr>h_Name = ''f'', h_Typeflag = TypeReg, h_Mode = 420, h_Linkname = '''', h_Data = [1, 2],
     h_DataErr = None\<rparr>"

text \<open>Two formats are never decompressed: the magic number of an LZ4 frame, as it stands at the
  start of a file, is not recognised, and for a file of compress(1) the width that is passed to
  the LZW reader lies above the largest one it supports, which is 8.\<close>

theorem compressed_formats_missed:
  "detectFormat ([0x04, 0x22, 0x4D, 0x18] @ rest) = None \<and>
   (\<forall>inp w o'. detectFormat inp = Some (lzwDecompressor w o') \<longrightarrow> 9 \<le> w \<and> w \<le> 16)"
proof (intro conjI allI impI)
  show "detectFormat ([0x04, 0x22, 0x4D, 0x18] @ rest) = None"
    by (simp add: detectFormat_def Let_def bytes_HasPrefix_def gzipMagic_def bzipMagic_def xzMagic_def
        lzwMagic_def lz4Magic_def)
next
  fix inp w o'
  assume a: "detectFormat inp = Some (lzwDecompressor w o')"
  obtain x where "w = uint (drop_bit 5 (x :: byte)) + 9"
    using a by (auto simp: detectFormat_def Let_def split: if_splits)
  moreover have "0 \<le> uint (drop_bit 5 x) \<and> uint (drop_bit 5 x) \<le> 7"
  proof -
    have "uint x < 256" using uint_bounded [of x] by simp
    moreover have "uint (drop_bit 5 x) = uint x div 32" by (simp add: drop_bit_eq_div uint_div)
    moreover have "0 \<le> uint x" by simp
    ultimately show ?thesis by presburger
  qed
  ultimately show "9 \<le> w" "w \<le> 16" by linarith+
qed

theorem compressed_formats_missed_witness:
  "detectFormat ([0x04, 0x22, 0x4D, 0x18] @ [0, 0, 0, 0]) = None \<and>
   detectFormat [0x1F, 0x9D, 0x90] = Some (lzwDecompressor 13 MSB)"
proof -
  have "detectFormat [0x1F, 0x9D, 0x90] = Some (lzwDecompressor 13 MSB)" by code_simp
  with compressed_formats_missed [of "[0, 0, 0, 0]"] show ?thesis by blast
qed

end
