(* ===== verification/Consumers.thy ===== *)
theory Consumers
  imports Config_Opts Tar_Extract
begin

text \<open>
  Model of pkg/consumer: what happens to the bytes of a download. A consumer gets the reader,
  here the bytes that can be read from it and the error after them, if any, the destination and
  the number of bytes the server announced.
\<close>

section \<open>The three consumers\<close>

definition NullWriter_Consume ::
  "file_system \<Rightarrow> byte list \<times> go_error option \<Rightarrow> string \<Rightarrow> int64 \<Rightarrow> go_error option \<times> file_system" where
  "NullWriter_Consume fs reader destPath expectedBytes =
     (let bytesRead = int (length (fst reader))
      in if bytesRead \<noteq> expectedBytes
         then (Some (Errorf (''expected '' @ int_dec expectedBytes @ '' bytes, read '' @ int_dec bytesRead)), fs)
         else (None, fs))"

definition FileWriter_Consume ::
  "bool \<Rightarrow> file_system \<Rightarrow> byte list \<times> go_error option \<Rightarrow> string \<Rightarrow> int64 \<Rightarrow> go_error option \<times> file_system" where
  "FileWriter_Consume overwrite fs reader destPath expectedBytes =
     (case os_MkdirAll fs (filepath_Dir destPath) of
        (Some err, fs1) \<Rightarrow> (Some (Wrapf ''error creating directory'' err), fs1)
      | (None, fs1) \<Rightarrow>
          (case os_OpenFile fs1 destPath overwrite of
             (Inl err, fs2) \<Rightarrow> (Some (Wrapf ''error writing file'' err), fs2)
           | (Inr out, fs2) \<Rightarrow>
               let fs3 = write_file fs2 out (fst reader); written = int (length (fst reader))
               in (case snd reader of
                     Some err \<Rightarrow> (Some (Wrapf ''error writing file'' err), fs3)
                   | None \<Rightarrow>
                       if written \<noteq> expectedBytes
                       then (Some (Errorf (''expected '' @ int_dec expectedBytes @ '' bytes, wrote '' @
                               int_dec written)), fs3)
                       else (None, fs3))))"

text \<open>
  The bytes that \<open>byteTrackingReader\<close> has counted after a successful \<open>TarFile\<close>: those that the archive
  reader has taken, and the padding behind them, which \<open>TarFile\<close> reads to its end.
\<close>

definition tar_bytesRead :: "archive_reader \<Rightarrow> byte list \<times> go_error option \<Rightarrow> int64" where
  "tar_bytesRead archive reader =
     (case archive (detectFormat (take peekSize (fst reader))) reader of
        Inl _ \<Rightarrow> 0
      | Inr ts \<Rightarrow>
          let taken = take (ts_taken ts) (fst reader); padding = drop (ts_taken ts) (fst reader)
          in int (length taken) + int (length padding))"

definition TarExtractor_Consume ::
  "archive_reader \<Rightarrow> bool \<Rightarrow> file_system \<Rightarrow> byte list \<times> go_error option \<Rightarrow> string \<Rightarrow> int64 \<Rightarrow>
     go_error option \<times> file_system" where
  "TarExtractor_Consume archive overwrite fs reader destPath expectedBytes =
     (case TarFile archive fs reader destPath overwrite of
        (Some err, fs1) \<Rightarrow> (Some (Wrapf ''error extracting file'' err), fs1)
      | (None, fs1) \<Rightarrow>
          let bytesRead = tar_bytesRead archive reader
          in if bytesRead \<noteq> expectedBytes
             then (Some (Errorf (''expected '' @ int_dec expectedBytes @ '' bytes, read '' @ int_dec bytesRead @
                     '' from archive'')), fs1)
             else (None, fs1))"

text \<open>The call through the interface \<open>consumer.Consumer\<close>.\<close>

fun Consume ::
  "archive_reader \<Rightarrow> consumer \<Rightarrow> file_system \<Rightarrow> byte list \<times> go_error option \<Rightarrow> string \<Rightarrow> int64 \<Rightarrow>
     go_error option \<times> file_system" where
  "Consume archive NullWriter fs reader destPath expectedBytes =
     NullWriter_Consume fs reader destPath expectedBytes"
| "Consume archive (FileWriter ow) fs reader destPath expectedBytes =
     FileWriter_Consume ow fs reader destPath expectedBytes"
| "Consume archive (TarExtractor ow) fs reader destPath expectedBytes =
     TarExtractor_Consume archive ow fs reader destPath expectedBytes"

section \<open>The contract of a consumer\<close>

text \<open>
  What the getter relies on: a consumer that returns no error has received exactly the number
  of bytes the server announced. The clients' facts are proved once here.
\<close>

locale byte_consumer =
  fixes consume :: "'f \<Rightarrow> byte list \<times> go_error option \<Rightarrow> string \<Rightarrow> int64 \<Rightarrow> go_error option \<times> 'f"
  assumes counts: "consume fs reader dest n = (None, fs') \<Longrightarrow> int (length (fst reader)) = n"
begin

text \<open>A download that ends early or brings too much is reported, whatever the consumer does with it.\<close>

lemma short_read_reported:
  "int (length (fst reader)) \<noteq> n \<Longrightarrow> fst (consume fs reader dest n) \<noteq> None"
  using counts by (metis prod.collapse)

end

interpretation null_consumer: byte_consumer NullWriter_Consume
  by unfold_locales (auto simp: NullWriter_Consume_def Let_def split: if_splits)

interpretation file_consumer: byte_consumer "FileWriter_Consume overwrite" for overwrite
  by unfold_locales
     (auto simp: FileWriter_Consume_def Let_def split: prod.splits option.splits sum.splits if_splits)

text \<open>A successful extraction has counted the whole download.\<close>

lemma tar_bytesRead_all:
  assumes "TarFile archive fs reader destDir overwrite = (None, fs')"
  shows "tar_bytesRead archive reader = int (length (fst reader))"
proof -
  obtain data rerr where r: "reader = (data, rerr)" by fastforce
  obtain ts where "archive (detectFormat (take peekSize data)) (data, rerr) = Inr ts"
    using TarFile_ok [OF assms [unfolded r]] by blast
  then show ?thesis by (simp add: tar_bytesRead_def r Let_def)
qed

interpretation tar_consumer: byte_consumer "TarExtractor_Consume archive overwrite" for archive overwrite
  by unfold_locales
     (auto simp: TarExtractor_Consume_def Let_def tar_bytesRead_all split: prod.splits option.splits if_splits)

interpretation any_consumer: byte_consumer "Consume archive c" for archive c
  by unfold_locales
     (cases c; auto dest: null_consumer.counts file_consumer.counts tar_consumer.counts)

section \<open>Files\<close>

text \<open>What a file holds after it was written without an error.\<close>

lemma FileWriter_content:
  assumes "FileWriter_Consume overwrite fs reader dest n = (None, fs')"
  shows "snd reader = None \<and> int (length (fst reader)) = n \<and>
     (\<exists>fs1. os_MkdirAll fs (filepath_Dir dest) = (None, fs1) \<and>
        read_file fs' dest = Some (fst reader @ drop (length (fst reader))
          (if overwrite then [] else case read_file fs1 dest of None \<Rightarrow> [] | Some old \<Rightarrow> old)))"
proof -
  obtain e1 fs1 where 1: "os_MkdirAll fs (filepath_Dir dest) = (e1, fs1)" by fastforce
  then have n: "e1 = None" using assms by (auto simp: FileWriter_Consume_def split: option.splits)
  obtain r fs2 where 2: "os_OpenFile fs1 dest overwrite = (r, fs2)" by fastforce
  obtain i where i: "r = Inr i" using assms 1 2 n by (cases r) (auto simp: FileWriter_Consume_def)
  have "snd reader = None" "fs' = write_file fs2 i (fst reader)"
    using assms 1 2 n i by (auto simp: FileWriter_Consume_def Let_def split: option.splits if_splits)
  then show ?thesis
    using 1 n open_write_read [OF 2 [unfolded i], of "fst reader"] file_consumer.counts [OF assms] by simp
qed

section \<open>Properties\<close>

text \<open>C26. A consumer never reports success for a download of the wrong length: if the number of bytes
  read is not the announced one, or extraction fails, an error is returned.\<close>

theorem consumers_check_length:
  "fst (Consume archive c fs reader dest n) = None \<Longrightarrow> int (length (fst reader)) = n"
  using any_consumer.short_read_reported by blast

theorem consumers_check_length_witness:
  "fst (Consume (\<lambda>_ _. Inl (Errorf '''')) NullWriter example_fs ([1, 2, 3], None) ''x'' 3) = None \<and>
   int (length (fst ([1, 2, 3] :: byte list, None :: go_error option))) = 3"
  using consumers_check_length [of "\<lambda>_ _. Inl (Errorf '''')" NullWriter example_fs "([1, 2, 3], None)" "''x''" 3]
  by (simp add: NullWriter_Consume_def)

text \<open>If writing a file reports no error, the reader had none and the file at the destination
  holds exactly the bytes of the download, provided existing files are truncated or there was
  none; without truncation the end of a longer old file stays behind them.\<close>

theorem file_writer_content:
  assumes "FileWriter_Consume overwrite fs reader dest n = (None, fs')"
    and "overwrite \<or> read_file (snd (os_MkdirAll fs (filepath_Dir dest))) dest = None"
  shows "snd reader = None \<and> int (length (fst reader)) = n \<and> read_file fs' dest = Some (fst reader)"
  using FileWriter_content [OF assms(1)] assms(2) by auto

theorem file_writer_content_witness:
  "\<exists>fs'. FileWriter_Consume True example_fs ([7, 8], None) ''/f'' 2 = (None, fs') \<and>
     read_file fs' ''/f'' = Some [7, 8]"
proof -
  have d: "filepath_Dir ''/f'' = ''/''" by code_simp
  have m: "os_MkdirAll example_fs ''/'' = (None, example_fs)"
    by (simp add: os_MkdirAll_def rooted_def slash_def comps_def)
  have "resolve example_fs True ''/f'' = Inr [''f'']"
    by (simp add: resolve_def rooted_def slash_def comps_def walk.simps(2) node_at_def example_fs_def)
  then obtain fs2 where "os_OpenFile example_fs ''/f'' True = (Inr 0, fs2)"
    by (simp add: os_OpenFile_def node_at_def example_fs_def)
  with d m have "FileWriter_Consume True example_fs ([7, 8], None) ''/f'' 2 = (None, write_file fs2 0 [7, 8])"
    by (simp add: FileWriter_Consume_def)
  with file_writer_content [OF this] show ?thesis by auto
qed

end
