(* ===== verification/Range_Resume.thy ===== *)
theory Range_Resume
  imports Go_Http
begin

text \<open>
  Model of pkg/download/common.go: the rewriting of the Range header of an interrupted
  request (\<open>updateRangeRequestHeader\<close>) and the loop that asks for the rest of a chunk until
  its buffer is full (\<open>resumeDownload\<close>).
\<close>

section \<open>updateRangeRequestHeader\<close>

definition updateRangeRequestHeader :: "http_request \<Rightarrow> int64 \<Rightarrow> go_error + http_request" where
  "updateRangeRequestHeader req receivedBytes =
     (let rangeHeader = header_get (req_Header req) ''Range'';
          malformed = Inl (Wrapf rangeHeader (Sentinel ErrMalformedRangeHeader))
      in if rangeHeader = '''' then Inl (Sentinel ErrMissingRangeHeader)
         else if \<not> has_prefix rangeHeader ''bytes='' then malformed
         else let rangeValues = trim_prefix rangeHeader ''bytes=''
         in case split_on (CHR ''-'') rangeValues of
              [part0, part1] \<Rightarrow>
                (case parse_int part0 of
                   Inl _ \<Rightarrow> malformed
                 | Inr start0 \<Rightarrow>
                     (case parse_int part1 of
                        Inl _ \<Rightarrow> malformed
                      | Inr fin \<Rightarrow>
                          let start = wrap64 (start0 + receivedBytes);
                              newRangeHeader = range_header start fin
                          in if start > fin
                             then Inl (Wrapf newRangeHeader (Sentinel ErrInvalidContentRange))
                             else Inr (req\<lparr>req_Header :=
                                    header_set (req_Header req) ''Range'' newRangeHeader\<rparr>)))
            | _ \<Rightarrow> malformed)"

section \<open>resumeDownload\<close>

text \<open>
  The loop of \<open>resumeDownload\<close>, with the state of the world, the request whose header the loop
  rewrites, the buffer and the loop variables as arguments. \<open>None\<close> means that the loop never
  returns; the result is the pair Go returns, the buffer and the world. The counter
  \<open>resumeCount\<close> is only logged.
\<close>

partial_function (option) resumeLoop ::
  "'w http_client \<Rightarrow> 'w \<Rightarrow> http_request \<Rightarrow> byte list \<Rightarrow> nat \<Rightarrow> int64 \<Rightarrow> int64 \<Rightarrow>
     (int64 \<times> go_error option \<times> byte list \<times> 'w) option" where
  "resumeLoop client w req buffer startByte bytesReceived totalBytesReceived =
     (case updateRangeRequestHeader req bytesReceived of
        Inl err \<Rightarrow> Some (totalBytesReceived, Some err, buffer, w)
      | Inr req' \<Rightarrow>
          (case client w req' of
             (Inl err, w') \<Rightarrow> Some (totalBytesReceived, Some err, buffer, w')
           | (Inr resp, w') \<Rightarrow>
               if StatusCode resp \<noteq> 206
               then Some (totalBytesReceived,
                      Some (Errorf (''expected status code 206, got '' @ int_dec (StatusCode resp))),
                      buffer, w')
               else
                 (case read_full (resp_Body resp) (length buffer - startByte) of
                    (d, err) \<Rightarrow>
                      let n = length d;
                          buffer' = overwrite_at buffer startByte d;
                          total' = wrap64 (totalBytesReceived + int n)
                      in if err = Some (Sentinel ErrUnexpectedEOF)
                         then resumeLoop client w' req' buffer' (startByte + n) (int n) total'
                         else Some (total', err, buffer', w'))))"

definition resumeDownload ::
  "'w http_client \<Rightarrow> 'w \<Rightarrow> http_request \<Rightarrow> byte list \<Rightarrow> int64 \<Rightarrow>
     (int64 \<times> go_error option \<times> byte list \<times> 'w) option" where
  "resumeDownload client w req buffer bytesReceived =
     resumeLoop client w req buffer 0 bytesReceived bytesReceived"

section \<open>The header after a rewrite\<close>

lemma split_range_header:
  "0 \<le> a \<Longrightarrow> 0 \<le> b \<Longrightarrow>
     split_on (CHR ''-'') (trim_prefix (range_header a b) ''bytes='') = [nat_dec a, nat_dec b]"
  using trim_prefix_append [of "''bytes=''" "nat_dec a @ CHR ''-'' # nat_dec b"]
  by (simp add: range_header_def split_on_append split_on_notin)

text \<open>
  On a Range header the program itself writes, the rewritten request asks for the same end
  and a start moved by the bytes received, unless that start lies behind the end.
\<close>

lemma updateRange_on_range_header:
  assumes "header_get (req_Header req) ''Range'' = range_header a b"
    and "0 \<le> a" "in64 a" "0 \<le> b" "in64 b"
  shows "updateRangeRequestHeader req k =
     (let s = wrap64 (a + k)
      in if s > b then Inl (Wrapf (range_header s b) (Sentinel ErrInvalidContentRange))
         else Inr (req\<lparr>req_Header := header_set (req_Header req) ''Range'' (range_header s b)\<rparr>))"
proof -
  have p: "has_prefix (range_header a b) ''bytes=''" "range_header a b \<noteq> ''''"
    by (simp_all add: range_header_def has_prefix_def)
  have i: "parse_int (nat_dec a) = Inr a" "parse_int (nat_dec b) = Inr b"
    using parse_int_dec [OF assms(3)] parse_int_dec [OF assms(5)] assms(2,4) by simp_all
  show ?thesis
    using p i by (simp add: updateRangeRequestHeader_def assms(1) split_range_header assms(2,4) Let_def)
qed

lemma updateRange_moves:
  assumes "header_get (req_Header req) ''Range'' = range_header a b"
    and "0 \<le> a" "0 \<le> k" "a + k \<le> b" "in64 b"
  obtains req' where "updateRangeRequestHeader req k = Inr req'"
    and "header_get (req_Header req') ''Range'' = range_header (a + k) b" and "req_Ctx req' = req_Ctx req"
proof -
  have r: "in64 a" "0 \<le> b" "in64 (a + k)" using assms by (auto simp: in64_def)
  show thesis
    using updateRange_on_range_header [OF assms(1,2) r(1,2) assms(5), of k] assms(4) that
    by (simp add: wrap64_in64 [OF r(3)])
qed

section \<open>The resume loop fills its buffer\<close>

lemma part_len_step:
  "k < part_len content a b \<Longrightarrow> part_len content (a + int k) b = part_len content a b - k"
  by (auto simp: part_len_def)

lemma part_len_pos: "a \<le> b \<Longrightarrow> a < int (length content) \<Longrightarrow> 0 < part_len content a b"
  by (auto simp: part_len_def)

lemma part_len_le: "0 \<le> a \<Longrightarrow> part_len content a b \<le> length content"
  by (auto simp: part_len_def)

lemma part_len_in: "k < part_len content a b \<Longrightarrow> a + int k \<le> b \<and> a + int k < int (length content)"
  by (auto simp: part_len_def)

lemma overwrite_at_fill:
  "i + length d = length buffer \<Longrightarrow> overwrite_at buffer i d = take i buffer @ d"
  by (simp add: overwrite_at_def)

text \<open>What was received fits between what the buffer held and what the rest of the loop brings.\<close>

lemma resume_glue:
  assumes "d = piece content (nat x) (length d)" "length d < n" "length buffer - i = n" "i \<le> length buffer" "0 \<le> x"
  shows "take (i + length d) (overwrite_at buffer i d) @
       piece content (nat (x + int (length d))) (length (overwrite_at buffer i d) - (i + length d)) =
     take i buffer @ piece content (nat x) n"
proof -
  have "length (overwrite_at buffer i d) - (i + length d) = n - length d"
    using assms(3) unfolding length_overwrite_at by linarith
  moreover have "take (i + length d) (overwrite_at buffer i d) = take i buffer @ d"
    using assms by (intro take_overwrite_at) simp
  moreover have "d @ piece content (nat (x + int (length d))) (n - length d) = piece content (nat x) n"
    using piece_append [of content "nat x" "length d" "n - length d"] assms by (simp add: nat_add_distrib)
  ultimately show ?thesis by simp
qed

lemma resumeLoop_fills:
  assumes rc: "range_client C client content"
    and hdr: "C (req_Ctx req)" "header_get (req_Header req) ''Range'' = range_header a b"
    and a: "0 \<le> a" "0 \<le> k" "a + k \<le> b" "a + k < int (length content)" "in64 b"
    and len: "i \<le> length buffer" "length buffer - i = part_len content (a + k) b"
    and tot: "0 \<le> t" "t + int (length buffer - i) < 2 ^ 63"
  shows "\<exists>w'. resumeLoop client w req buffer i k t =
     Some (t + int (length buffer - i), None,
           take i buffer @ piece content (nat (a + k)) (length buffer - i), w')"
  using hdr a len tot
proof (induction "length buffer - i" arbitrary: w req a k i buffer t rule: less_induct)
  case less
  let ?n = "part_len content (a + k) b"
  obtain req' where u: "updateRangeRequestHeader req k = Inr req'"
    and h: "header_get (req_Header req') ''Range'' = range_header (a + k) b" and "req_Ctx req' = req_Ctx req"
    using updateRange_moves less.prems by metis
  with less.prems(1) have C: "C (req_Ctx req')" by simp
  have ak: "0 \<le> a + k" using less.prems by simp
  obtain resp w1 where c: "client w req' = (Inr resp, w1)" and s: "served content (a + k) b resp"
    using range_clientE [OF rc C h ak less.prems(5,6,7)] by metis
  obtain d e where rf: "read_full (resp_Body resp) ?n = (d, e)" by fastforce
  note facts = served_read_full [OF s rf]
  have st: "StatusCode resp = 206" using s by (simp add: served_def)
  have w: "wrap64 (t + int (length d)) = t + int (length d)"
    using facts less.prems by (intro wrap64_nonneg) auto
  show ?case
  proof (cases "length d = ?n")
    case True
    with facts have "e = None" and d: "d = piece content (nat (a + k)) ?n" by simp_all
    moreover have "overwrite_at buffer i d = take i buffer @ d"
      using True less.prems by (intro overwrite_at_fill) simp
    ultimately show ?thesis
      using u c st rf w True less.prems by (subst resumeLoop.simps) (simp add: Let_def)
  next
    case False
    with facts have e: "e = Some (Sentinel ErrUnexpectedEOF)" and pos: "0 < length d" "length d < ?n"
      and d: "d = piece content (nat (a + k)) (length d)" by auto
    let ?buf = "overwrite_at buffer i d" and ?j = "i + length d"
    have lt: "length ?buf - ?j < length buffer - i"
      using pos less.prems(8,9) unfolding length_overwrite_at by linarith
    have "\<exists>w'. resumeLoop client w1 req' ?buf ?j (int (length d)) (t + int (length d)) =
       Some (t + int (length d) + int (length ?buf - ?j), None,
             take ?j ?buf @ piece content (nat (a + k + int (length d))) (length ?buf - ?j), w')"
      using C h pos ak less.prems part_len_in [OF pos(2)] part_len_step [OF pos(2)]
      by (intro less.hyps [OF lt]) auto
    then obtain w' where ih: "resumeLoop client w1 req' ?buf ?j (int (length d)) (t + int (length d)) =
       Some (t + int (length d) + int (length ?buf - ?j), None,
             take ?j ?buf @ piece content (nat (a + k + int (length d))) (length ?buf - ?j), w')"
      by blast
    have rest: "length ?buf - ?j = ?n - length d"
      using less.prems(9) unfolding length_overwrite_at by linarith
    note glue = resume_glue [OF d pos(2) less.prems(9,8) ak]
    have "resumeLoop client w req buffer i k t =
        resumeLoop client w1 req' ?buf ?j (int (length d)) (t + int (length d))"
      using u c st rf e w less.prems by (subst resumeLoop.simps) (simp add: Let_def)
    moreover have "t + int (length d) + int (length ?buf - ?j) = t + int (length buffer - i)"
      using pos less.prems(9) rest by simp
    ultimately show ?thesis using ih glue less.prems(9) by simp
  qed
qed

text \<open>
  A chunk whose first body ended after \<open>k\<close> bytes is completed: the rest of the buffer holds
  the rest of the part, the count is the length of the part, and no error is returned.
\<close>

lemma resumeDownload_completes:
  assumes rc: "range_client C client content" "C (req_Ctx req)"
    and "header_get (req_Header req) ''Range'' = range_header a b"
    and "0 \<le> a" "in64 b" "int (length content) < 2 ^ 63"
    and "k < part_len content a b" "length buffer = part_len content a b - k"
  shows "\<exists>w'. resumeDownload client w req buffer (int k) =
     Some (int (part_len content a b), None,
           piece content (nat a + k) (part_len content a b - k), w')"
proof -
  have i: "a + int k \<le> b" "a + int k < int (length content)" using part_len_in [OF assms(7)] by auto
  have t: "int k + int (part_len content a b - k) < 2 ^ 63"
    using assms(6,7) part_len_le [OF assms(4), of content b] by simp
  show ?thesis
    using resumeLoop_fills [OF assms(1,2,3,4) _ i assms(5), of 0 buffer "int k" w] t assms(4,7,8)
    by (auto simp: resumeDownload_def part_len_step [OF assms(7)] nat_add_distrib)
qed

section \<open>A server that never sends a byte\<close>

text \<open>
  The loop has no bound on the number of resumed requests: if every answer is a 206 whose
  connection breaks before the first byte of the body, it never returns.
\<close>

definition stalled_client :: "'w http_client \<Rightarrow> bool" where
  "stalled_client client \<longleftrightarrow>
     (\<forall>w req. \<exists>resp w'. client w req = (Inr resp, w') \<and> StatusCode resp = 206 \<and>
        resp_Body resp = Body [] (Sentinel ErrUnexpectedEOF))"

definition may_resume :: "http_request \<Rightarrow> int64 \<Rightarrow> int64 \<Rightarrow> bool" where
  "may_resume req k b \<longleftrightarrow>
     (\<exists>a. header_get (req_Header req) ''Range'' = range_header a b \<and> 0 \<le> a \<and> 0 \<le> k \<and> a + k \<le> b \<and> in64 b)"

lemma resumeLoop_stalls:
  assumes sc: "stalled_client client" and m: "may_resume req k b" and i: "i < length buffer"
  shows "resumeLoop client w req buffer i k t = None"
proof (rule ccontr)
  assume "resumeLoop client w req buffer i k t \<noteq> None"
  then obtain r where ret: "resumeLoop client w req buffer i k t = Some r" by blast
  have "\<not> (stalled_client client \<and> i < length buffer \<and> may_resume req k b)"
  proof (rule resumeLoop.raw_induct [where P = "\<lambda>client w req buffer i k t r.
      \<not> (stalled_client client \<and> i < length buffer \<and> may_resume req k b)", OF _ ret],
      rule notI, elim conjE)
    fix f and client :: "'a http_client" and w req buffer i k t r
    assume IH: "\<And>client w req buffer i k t r. f client w req buffer i k t = Some r \<Longrightarrow>
        \<not> (stalled_client client \<and> i < length buffer \<and> may_resume req k b)"
      and sc: "stalled_client client" and i: "i < length buffer" and m: "may_resume req k b"
      and eq: "(case updateRangeRequestHeader req k of
        Inl err \<Rightarrow> Some (t, Some err, buffer, w)
      | Inr req' \<Rightarrow>
          (case client w req' of
             (Inl err, w') \<Rightarrow> Some (t, Some err, buffer, w')
           | (Inr resp, w') \<Rightarrow>
               if StatusCode resp \<noteq> 206
               then Some (t, Some (Errorf (''expected status code 206, got '' @
                      int_dec (StatusCode resp))), buffer, w')
               else (case read_full (resp_Body resp) (length buffer - i) of
                    (d, err) \<Rightarrow>
                      let n = length d; buffer' = overwrite_at buffer i d;
                          total' = wrap64 (t + int n)
                      in if err = Some (Sentinel ErrUnexpectedEOF)
                         then f client w' req' buffer' (i + n) (int n) total'
                         else Some (total', err, buffer', w')))) = Some r"
    obtain req' where u: "updateRangeRequestHeader req k = Inr req'" and m': "may_resume req' 0 b"
      using m updateRange_moves unfolding may_resume_def
      by (metis add.right_neutral add_nonneg_nonneg order_refl)
    obtain resp w1 where c: "client w req' = (Inr resp, w1)" "StatusCode resp = 206"
      "resp_Body resp = Body [] (Sentinel ErrUnexpectedEOF)"
      using sc unfolding stalled_client_def by metis
    have "f client w1 req' (overwrite_at buffer i []) i 0 (wrap64 t) = Some r"
      using eq u c i by (simp add: read_full_def Let_def)
    from IH [OF this] sc i m' show False by auto
  qed
  with assms show False by blast
qed

section \<open>Properties\<close>

text \<open>Advancing a range by \<open>k\<close> and then by \<open>l\<close> bytes.\<close>

lemma updateRange_value:
  assumes "header_get (req_Header req) ''Range'' = range_header a b"
    and "0 \<le> a" "0 \<le> k" "a + k \<le> b" "in64 b"
  shows "updateRangeRequestHeader req k =
     Inr (req\<lparr>req_Header := header_set (req_Header req) ''Range'' (range_header (a + k) b)\<rparr>)"
proof -
  have r: "in64 a" "0 \<le> b" "in64 (a + k)" using assms by (auto simp: in64_def)
  show ?thesis
    using updateRange_on_range_header [OF assms(1,2) r(1,2) assms(5), of k] assms(4)
    by (simp add: wrap64_in64 [OF r(3)])
qed

text \<open>Resuming a range request moves its start by the bytes received and keeps its end, and
  two resumptions in a row ask for the same bytes as one for their sum; once all bytes were
  received the request is refused as an invalid range.\<close>

theorem range_resumption_composes:
  assumes "header_get (req_Header req) ''Range'' = range_header a b"
    and "0 \<le> a" "0 \<le> k" "0 \<le> l" "a + k + l \<le> b" "b + 1 < 2 ^ 63"
  shows "\<exists>req'. updateRangeRequestHeader req k = Inr req' \<and>
     header_get (req_Header req') ''Range'' = range_header (a + k) b \<and>
     updateRangeRequestHeader req' l = updateRangeRequestHeader req (k + l) \<and>
     updateRangeRequestHeader req (b + 1 - a) =
       Inl (Wrapf (range_header (b + 1) b) (Sentinel ErrInvalidContentRange))"
proof -
  let ?r = "req\<lparr>req_Header := header_set (req_Header req) ''Range'' (range_header (a + k) b)\<rparr>"
  have b: "in64 b" using assms by (simp add: in64_def)
  have 1: "updateRangeRequestHeader req k = Inr ?r"
    using assms b by (intro updateRange_value) auto
  have h: "header_get (req_Header ?r) ''Range'' = range_header (a + k) b" by simp
  have 2: "updateRangeRequestHeader ?r l =
      Inr (?r\<lparr>req_Header := header_set (req_Header ?r) ''Range'' (range_header (a + k + l) b)\<rparr>)"
    using assms b by (intro updateRange_value [OF h]) auto
  have 3: "updateRangeRequestHeader req (k + l) =
      Inr (req\<lparr>req_Header := header_set (req_Header req) ''Range'' (range_header (a + (k + l)) b)\<rparr>)"
    using assms b by (intro updateRange_value [OF assms(1)]) auto
  have "updateRangeRequestHeader ?r l = updateRangeRequestHeader req (k + l)"
    unfolding 2 3 by (simp add: header_set_def add.assoc)
  moreover have "updateRangeRequestHeader req (b + 1 - a) =
      Inl (Wrapf (range_header (b + 1) b) (Sentinel ErrInvalidContentRange))"
    using updateRange_on_range_header [OF assms(1,2), of "b + 1 - a"] assms
    by (simp add: in64_def wrap64_nonneg)
  ultimately show ?thesis using 1 h by blast
qed

definition example_request :: "int64 \<Rightarrow> int64 \<Rightarrow> http_request" where
  "example_request a b =
     \<lparr>req_URL = \<lparr>url_Scheme = ''https'', url_Opaque = '''', url_User = '''', url_Host = ''host'',
        url_Path = ''/f'', url_RawPath = '''', url_RawQuery = '''', url_Fragment = ''''\<rparr>,
      req_Host = ''host'', req_Header = header_set Map.empty ''Range'' (range_header a b),
      req_Ctx = background\<rparr>"

theorem range_resumption_composes_witness:
  "\<exists>req'. updateRangeRequestHeader (example_request 10 19) 3 = Inr req' \<and>
     header_get (req_Header req') ''Range'' = range_header (10 + 3) 19 \<and>
     updateRangeRequestHeader req' 4 = updateRangeRequestHeader (example_request 10 19) (3 + 4) \<and>
     updateRangeRequestHeader (example_request 10 19) (19 + 1 - 10) =
       Inl (Wrapf (range_header (19 + 1) 19) (Sentinel ErrInvalidContentRange))"
  by (rule range_resumption_composes) (simp_all add: example_request_def)

text \<open>C36. The number of resumptions is not bounded: against a server that accepts every resumed
  request but breaks the connection before the first byte, \<open>resumeDownload\<close> never returns.\<close>

theorem resume_never_gives_up:
  assumes "stalled_client client" "may_resume req (int k) b" "buffer \<noteq> []"
  shows "resumeDownload client w req buffer (int k) = None"
  unfolding resumeDownload_def
  using resumeLoop_stalls [OF assms(1,2), of 0 buffer] assms(3) by simp

definition stalled_server :: "unit http_client" where
  "stalled_server w req =
     (Inr \<lparr>StatusCode = 206, Status = ''206 Partial Content'', resp_Header = Map.empty, ContentLength = 4,
        resp_Body = Body [] (Sentinel ErrUnexpectedEOF), resp_Request = req\<rparr>, w)"

theorem resume_never_gives_up_witness:
  "resumeDownload stalled_server () (example_request 0 9) [0, 0, 0, 0] (int 6) = None"
proof (rule resume_never_gives_up)
  show "may_resume (example_request 0 9) (int 6) 9"
    unfolding may_resume_def by (rule exI [of _ 0]) (simp add: example_request_def in64_def)
qed (simp_all add: stalled_client_def stalled_server_def)

end
