(* ===== verification/Chunk_Plan.thy ===== *)
theory Chunk_Plan
  imports Range_Resume
begin

text \<open>
  What the two download strategies of pkg/download share: reading one response into the
  buffer of a worker, with resumption (\<open>read_chunk\<close>), reading the chunks of a file one after
  the other (\<open>multi_read\<close>, for \<open>io.MultiReader\<close>), and the interface of a plan that cuts a file
  into range requests. The interface is interpreted in the theories of the strategies.
\<close>

section \<open>One chunk\<close>

text \<open>
  What a worker delivers to a promise: data and an error; a panic, which ends the process;
  or nothing at all (\<open>None\<close>) because the download of the chunk never ends.
\<close>

type_synonym delivery = "(byte list \<times> go_error option) outcome option"

text \<open>
  The body of a response is read into \<open>buf[0:contentLength]\<close>, a slice expression that panics
  when the length is negative (unknown) or exceeds the buffer. An interrupted body is
  resumed into the rest of the slice.
\<close>

definition read_chunk ::
  "'w http_client \<Rightarrow> http_response \<Rightarrow> byte list \<Rightarrow> 'w \<Rightarrow> ((byte list \<times> go_error option) outcome \<times> 'w) option" where
  "read_chunk client resp buf w =
     (let contentLength = ContentLength resp
      in if contentLength < 0 \<or> contentLength > int (length buf)
         then Some (Panic ''slice bounds out of range'', w)
         else
           let len = nat contentLength;
               (d, err) = read_full (resp_Body resp) len;
               buf1 = overwrite_at buf 0 d;
               n = length d
           in if err = Some (Sentinel ErrUnexpectedEOF)
              then (case resumeDownload client w (resp_Request resp) (piece buf1 n (len - n)) (int n) of
                      None \<Rightarrow> None
                    | Some (n', err', rest, w') \<Rightarrow>
                        Some (Ret (take (nat n') (overwrite_at buf1 n rest), err'), w'))
              else Some (Ret (take n buf1, err), w))"

lemma read_chunk_panics:
  "ContentLength resp < 0 \<or> ContentLength resp > int (length buf) \<Longrightarrow>
     read_chunk client resp buf w = Some (Panic ''slice bounds out of range'', w)"
  by (auto simp: read_chunk_def)

lemma take_overwrite_0: "length d \<le> length buf \<Longrightarrow> take (length d) (overwrite_at buf 0 d) = d"
  using take_overwrite_at [of 0 d buf] by simp

text \<open>A body that is complete and fits into the buffer needs no further request.\<close>

lemma read_chunk_complete:
  assumes "ContentLength resp = int (length d)" "body_data (resp_Body resp) = d" "length d \<le> length buf"
  shows "read_chunk client resp buf w = Some (Ret (d, None), w)"
  using assms by (simp add: read_chunk_def read_full_def Let_def take_overwrite_0)

text \<open>A served part that fits into the buffer is delivered completely, interrupted or not.\<close>

lemma read_chunk_served:
  assumes rc: "range_client C client content" "C (req_Ctx (resp_Request resp))"
    and s: "served content a b resp"
    and a: "0 \<le> a" "a \<le> b" "a < int (length content)" "in64 b" "int (length content) < 2 ^ 63"
    and fit: "part_len content a b \<le> length buf"
  shows "\<exists>w'. read_chunk client resp buf w =
     Some (Ret (piece content (nat a) (part_len content a b), None), w')"
proof -
  let ?n = "part_len content a b"
  have cl: "ContentLength resp = int ?n" using s by (simp add: served_def)
  obtain d e where rf: "read_full (resp_Body resp) ?n = (d, e)" by fastforce
  note facts = served_read_full [OF s rf]
  show ?thesis
  proof (cases "length d = ?n")
    case True
    with facts have e: "e = None" and d: "d = piece content (nat a) ?n" by simp_all
    moreover have "take (length d) (overwrite_at buf 0 d) = d"
      using True fit by (intro take_overwrite_0) simp
    ultimately show ?thesis
      using cl rf fit True by (simp add: read_chunk_def Let_def)
  next
    case False
    with facts have e: "e = Some (Sentinel ErrUnexpectedEOF)" and lt: "length d < ?n"
      and d: "d = piece content (nat a) (length d)" by auto
    let ?buf = "overwrite_at buf 0 d" and ?k = "length d"
    have h: "header_get (req_Header (resp_Request resp)) ''Range'' = range_header a b"
      using s by (simp add: served_def)
    have "length (piece ?buf ?k (?n - ?k)) = ?n - ?k" using fit lt by simp
    then obtain w' where r: "resumeDownload client w (resp_Request resp) (piece ?buf ?k (?n - ?k)) (int ?k) =
        Some (int ?n, None, piece content (nat a + ?k) (?n - ?k), w')"
      using resumeDownload_completes [OF rc h a(1,4,5) lt] by metis
    have l: "length (piece content (nat a + ?k) (?n - ?k)) = ?n - ?k"
      using a lt by (auto simp: part_len_def)
    have "take ?n (overwrite_at ?buf ?k (piece content (nat a + ?k) (?n - ?k))) =
        take ?k ?buf @ piece content (nat a + ?k) (?n - ?k)"
      using take_overwrite_at [of ?k "piece content (nat a + ?k) (?n - ?k)" ?buf] l lt fit by simp
    also have "\<dots> = d @ piece content (nat a + ?k) (?n - ?k)"
      using lt fit by (simp add: take_overwrite_0)
    also have "\<dots> = piece content (nat a) ?n"
      using piece_append [of content "nat a" ?k "?n - ?k"] d lt by simp
    finally show ?thesis
      using cl rf e r fit by (simp add: read_chunk_def Let_def)
  qed
qed

section \<open>Reading the chunks in order\<close>

text \<open>
  \<open>io.MultiReader\<close> over promises, read to the end: each chunk is read until EOF. A promise that
  was given an error returns it and none of its data; an \<open>io.EOF\<close> given that way ends the chunk.
\<close>

fun multi_read :: "delivery list \<Rightarrow> delivery" where
  "multi_read [] = Some (Ret ([], None))"
| "multi_read (None # ds) = None"
| "multi_read (Some (Panic m) # ds) = Some (Panic m)"
| "multi_read (Some (Ret (d, None)) # ds) =
     (case multi_read ds of
        Some (Ret (rest, e)) \<Rightarrow> Some (Ret (d @ rest, e))
      | r \<Rightarrow> r)"
| "multi_read (Some (Ret (d, Some err)) # ds) =
     (if err = Sentinel EOF then multi_read ds else Some (Ret ([], Some err)))"

lemma multi_read_data:
  "multi_read (map (\<lambda>x. Some (Ret (f x, None))) xs) = Some (Ret (concat (map f xs), None))"
  by (induction xs) auto

text \<open>What is read before an error is the data of the chunks before it.\<close>

lemma multi_read_error:
  "err \<noteq> Sentinel EOF \<Longrightarrow>
     multi_read (map (\<lambda>x. Some (Ret (f x, None))) xs @ Some (Ret (d, Some err)) # ds) =
       Some (Ret (concat (map f xs), Some err))"
  by (induction xs) auto

section \<open>Plans that tile a file\<close>

text \<open>
  Ranges tile a file of the given size from a position on: each starts inside the file where
  the previous one ended, and together they reach its end.
\<close>

fun tiles :: "int64 \<Rightarrow> (int64 \<times> int64) list \<Rightarrow> int64 \<Rightarrow> bool" where
  "tiles pos [] sz \<longleftrightarrow> sz \<le> pos"
| "tiles pos ((a, b) # rs) sz \<longleftrightarrow> a = pos \<and> a \<le> b \<and> a < sz \<and> tiles (b + 1) rs sz"

lemma tiles_mem: "tiles pos rs sz \<Longrightarrow> (a, b) \<in> set rs \<Longrightarrow> pos \<le> a \<and> a \<le> b \<and> a < sz"
  by (induction pos rs sz rule: tiles.induct) force+

lemma tiles_concat:
  assumes "tiles pos rs (int (length content))" "0 \<le> pos"
  shows "concat (map (\<lambda>(a, b). piece content (nat a) (part_len content a b)) rs) = drop (nat pos) content"
  using assms
proof (induction pos rs "int (length content)" rule: tiles.induct)
  case (1 pos)
  then show ?case by simp
next
  case (2 pos a b rs)
  then have ih: "concat (map (\<lambda>(a, b). piece content (nat a) (part_len content a b)) rs) =
      drop (nat (b + 1)) content" and t: "a = pos" "a \<le> b" "a < int (length content)" by auto
  have "piece content (nat a) (part_len content a b) @ drop (nat (b + 1)) content = drop (nat a) content"
  proof (cases "b + 1 \<le> int (length content)")
    case True
    then have p: "part_len content a b = nat (b + 1) - nat a"
      using t "2.prems"(2) by (simp add: part_len_def nat_diff_distrib')
    have "drop (nat (b + 1)) content = drop (nat (b + 1) - nat a) (drop (nat a) content)"
      using t by simp
    then show ?thesis unfolding piece_def p by (simp only: append_take_drop_id)
  next
    case False
    then have "part_len content a b = length content - nat a"
      using t "2.prems"(2) by (simp add: part_len_def nat_diff_distrib')
    then show ?thesis using False by (simp add: piece_def)
  qed
  with ih t show ?case by simp
qed

text \<open>
  What a complete download delivers: data only, of at most the given length per chunk, and in order
  the content of the file.
\<close>

definition complete_readers :: "byte list \<Rightarrow> int64 \<Rightarrow> delivery list \<Rightarrow> bool" where
  "complete_readers content bsize readers \<longleftrightarrow>
     (\<exists>ds. readers = map (\<lambda>d. Some (Ret (d, None))) ds \<and> concat ds = content \<and> ds \<noteq> [] \<and>
       (\<forall>d \<in> set ds. int (length d) \<le> bsize))"

lemma complete_readers_read:
  "complete_readers content bsize readers \<Longrightarrow> multi_read readers = Some (Ret (content, None))"
  using multi_read_data [where f = id] by (auto simp: complete_readers_def)

text \<open>Ranges that follow each other without a gap from one position to another.\<close>

fun chain :: "int64 \<Rightarrow> (int64 \<times> int64) list \<Rightarrow> int64 \<Rightarrow> bool" where
  "chain pos [] fin \<longleftrightarrow> pos = fin"
| "chain pos ((a, b) # rs) fin \<longleftrightarrow> a = pos \<and> a \<le> b \<and> chain (b + 1) rs fin"

lemma tiles_append:
  "chain pos rs fin \<Longrightarrow> \<forall>(a, b) \<in> set rs. a < sz \<Longrightarrow> tiles fin rest sz \<Longrightarrow> tiles pos (rs @ rest) sz"
  by (induction pos rs fin rule: chain.induct) auto

text \<open>Every byte of the file lies in exactly one of the ranges.\<close>

lemma tiles_unique:
  assumes "tiles pos rs sz" "pos \<le> x" "x < sz"
  shows "length (filter (\<lambda>(a, b). a \<le> x \<and> x \<le> b) rs) = 1"
  using assms
proof (induction pos rs sz rule: tiles.induct)
  case (1 pos sz)
  then show ?case by simp
next
  case (2 pos a b rs sz)
  show ?case
  proof (cases "x \<le> b")
    case True
    have "filter (\<lambda>(a, b). a \<le> x \<and> x \<le> b) rs = []"
      using tiles_mem [of "b + 1" rs sz] "2.prems" True by (fastforce simp: filter_empty_conv)
    with True "2.prems" show ?thesis by simp
  next
    case False
    with "2.prems" "2.IH" show ?thesis by simp
  qed
qed

text \<open>
  The interface of a strategy's chunking: \<open>plan opts size\<close> lists the ranges it asks for, in the
  order in which it reads them, and no part is longer than \<open>limit opts\<close>, the size of the
  workers' buffers.
\<close>

locale chunk_plan =
  fixes plan :: "'o \<Rightarrow> int64 \<Rightarrow> (int64 \<times> int64) list"
    and limit :: "'o \<Rightarrow> int64"
    and valid :: "'o \<Rightarrow> int64 \<Rightarrow> bool"
  assumes plan_tiles: "valid opts sz \<Longrightarrow> tiles 0 (plan opts sz) sz"
    and plan_limit: "valid opts sz \<Longrightarrow> (a, b) \<in> set (plan opts sz) \<Longrightarrow> min (b + 1) sz - a \<le> limit opts"
    and plan_in64: "valid opts sz \<Longrightarrow> (a, b) \<in> set (plan opts sz) \<Longrightarrow> in64 b"
begin

lemma plan_range:
  "valid opts sz \<Longrightarrow> (a, b) \<in> set (plan opts sz) \<Longrightarrow> 0 \<le> a \<and> a \<le> b \<and> a < sz \<and> in64 b"
  using tiles_mem [OF plan_tiles] plan_in64 by blast

lemma plan_fits:
  "valid opts (int (length content)) \<Longrightarrow> (a, b) \<in> set (plan opts (int (length content))) \<Longrightarrow>
     part_len content a b \<le> nat (limit opts)"
  using plan_limit [of opts "int (length content)" a b] by (simp add: part_len_def nat_mono)

text \<open>If every range is downloaded to the part it names, the chunks read in order are the file.\<close>

lemma plan_assembles:
  assumes "valid opts (int (length content))" "content \<noteq> []" "0 \<le> limit opts"
    and "\<And>a b i. i < length (plan opts (int (length content))) \<Longrightarrow>
       plan opts (int (length content)) ! i = (a, b) \<Longrightarrow>
       job i = Some (Ret (piece content (nat a) (part_len content a b), None))"
  shows "complete_readers content (limit opts) (map job [0..<length (plan opts (int (length content)))])"
proof -
  let ?p = "plan opts (int (length content))"
  let ?ds = "map (\<lambda>(a, b). piece content (nat a) (part_len content a b)) ?p"
  have "map job [0..<length ?p] = map (\<lambda>d. Some (Ret (d, None))) ?ds"
    using assms(4) by (intro nth_equalityI) (auto split: prod.splits)
  moreover have "concat ?ds = content" using tiles_concat [OF plan_tiles [OF assms(1)]] by simp
  moreover have "?ds \<noteq> []" using calculation(2) assms(2) by force
  moreover have "int (length d) \<le> limit opts" if "d \<in> set ?ds" for d
    using that plan_fits [OF assms(1)] assms(3) by fastforce
  ultimately show ?thesis unfolding complete_readers_def by blast
qed

lemma plan_each_byte_once:
  assumes "valid opts sz" "0 \<le> x" "x < sz"
  shows "length (filter (\<lambda>(a, b). a \<le> x \<and> x \<le> b) (plan opts sz)) = 1"
  using tiles_unique [OF plan_tiles [OF assms(1)] assms(2,3)] .

end

end
