(* ===== verification/Work_Queue.thy ===== *)
theory Work_Queue
  imports Rpget_Prelude "HOL-Library.Multiset"
begin

text \<open>
  Model of pkg/download/work_queue.go: a fixed number of workers that take work items from
  two unbuffered channels, looking at the high-priority one first. A sender blocked on an
  unbuffered channel is represented by the item it wants to send; the channel hands them out
  in the order in which they arrived.
\<close>

section \<open>The queue and its workers\<close>

record 'a priorityWorkQueue =
  concurrency :: int64
  lowPriority :: "'a list"
  highPriority :: "'a list"
  bufSize :: int64

definition newWorkQueue :: "int64 \<Rightarrow> int64 \<Rightarrow> 'a priorityWorkQueue" where
  "newWorkQueue conc bsize =
     \<lparr>concurrency = conc, lowPriority = [], highPriority = [], bufSize = bsize\<rparr>"

definition submitLow :: "'a \<Rightarrow> 'a priorityWorkQueue \<Rightarrow> 'a priorityWorkQueue" where
  "submitLow w q = q\<lparr>lowPriority := lowPriority q @ [w]\<rparr>"

definition submitHigh :: "'a \<Rightarrow> 'a priorityWorkQueue \<Rightarrow> 'a priorityWorkQueue" where
  "submitHigh w q = q\<lparr>highPriority := highPriority q @ [w]\<rparr>"

text \<open>
  Where a goroutine that executes \<open>run\<close> is: before the outer select, in the inner select, or
  in the call of an item.
\<close>

datatype 'a worker = AtSelect | AtInnerSelect | Running 'a

record 'a wq_sys =
  queue :: "'a priorityWorkQueue"
  workers :: "'a worker list"
  submitted :: "'a list"
  completed :: "'a list"

text \<open>
  \<open>start\<close>: one goroutine per unit of concurrency, none if it is not positive. Each of them gets
  a buffer of its own, and \<open>make\<close> panics for a negative size; memory for the buffers is taken to be
  available.
\<close>

definition wq_start :: "'a priorityWorkQueue \<Rightarrow> 'a worker list outcome" where
  "wq_start q =
     (if 0 < concurrency q \<and> bufSize q < 0 then Panic ''makeslice: len out of range''
      else Ret (replicate (nat (concurrency q)) AtSelect))"

text \<open>
  One turn of the loop of \<open>run\<close>, as far as it goes without blocking. The outer select takes a
  waiting high-priority item or falls through to its default; the inner select takes an item
  from either channel (\<open>pick_high\<close> is the choice of the runtime when both are ready) and blocks
  when there is none.
\<close>

fun run_turn :: "bool \<Rightarrow> 'a priorityWorkQueue \<Rightarrow> 'a worker \<Rightarrow> ('a priorityWorkQueue \<times> 'a worker) option" where
  "run_turn pick_high q AtSelect =
     (case highPriority q of
        item # rest \<Rightarrow> Some (q\<lparr>highPriority := rest\<rparr>, Running item)
      | [] \<Rightarrow> Some (q, AtInnerSelect))"
| "run_turn pick_high q AtInnerSelect =
     (case (highPriority q, lowPriority q) of
        ([], []) \<Rightarrow> None
      | (item # rest, []) \<Rightarrow> Some (q\<lparr>highPriority := rest\<rparr>, Running item)
      | ([], item # rest) \<Rightarrow> Some (q\<lparr>lowPriority := rest\<rparr>, Running item)
      | (h # hs, l # ls) \<Rightarrow>
          if pick_high then Some (q\<lparr>highPriority := hs\<rparr>, Running h)
          else Some (q\<lparr>lowPriority := ls\<rparr>, Running l))"
| "run_turn pick_high q (Running item) = None"

text \<open>
  The steps of the whole system. \<open>returns\<close> tells which items come back from their call: an item
  that blocks for ever keeps its worker.
\<close>

inductive wq_step :: "('a \<Rightarrow> bool) \<Rightarrow> 'a wq_sys \<Rightarrow> 'a wq_sys \<Rightarrow> bool" for returns where
  wq_high: "wq_step returns s (s\<lparr>queue := submitHigh w (queue s), submitted := w # submitted s\<rparr>)"
| wq_low: "wq_step returns s (s\<lparr>queue := submitLow w (queue s), submitted := w # submitted s\<rparr>)"
| wq_turn: "i < length (workers s) \<Longrightarrow> run_turn pick (queue s) (workers s ! i) = Some (q', wk) \<Longrightarrow>
     wq_step returns s (s\<lparr>queue := q', workers := (workers s)[i := wk]\<rparr>)"
| wq_done: "i < length (workers s) \<Longrightarrow> workers s ! i = Running item \<Longrightarrow> returns item \<Longrightarrow>
     wq_step returns s (s\<lparr>workers := (workers s)[i := AtSelect], completed := item # completed s\<rparr>)"

definition wq_init :: "int64 \<Rightarrow> int64 \<Rightarrow> 'a wq_sys \<Rightarrow> bool" where
  "wq_init conc bsize s \<longleftrightarrow>
     queue s = newWorkQueue conc bsize \<and> wq_start (queue s) = Ret (workers s) \<and> submitted s = [] \<and> completed s = []"

section \<open>The abstract pool of work\<close>

text \<open>
  What the queue promises its clients, without workers and channels: every submitted item is
  waiting, running or done.
\<close>

record 'a pool =
  waiting :: "'a multiset"
  running :: "'a multiset"
  done_items :: "'a multiset"

inductive pool_step :: "'a pool \<Rightarrow> 'a pool \<Rightarrow> bool" where
  pool_submit: "pool_step p (p\<lparr>waiting := add_mset w (waiting p)\<rparr>)"
| pool_start: "w \<in># waiting p \<Longrightarrow>
     pool_step p (p\<lparr>waiting := waiting p - {#w#}, running := add_mset w (running p)\<rparr>)"
| pool_finish: "w \<in># running p \<Longrightarrow>
     pool_step p (p\<lparr>running := running p - {#w#}, done_items := add_mset w (done_items p)\<rparr>)"

fun worker_items :: "'a worker \<Rightarrow> 'a multiset" where
  "worker_items (Running item) = {#item#}"
| "worker_items _ = {#}"

definition running_items :: "'a worker list \<Rightarrow> 'a multiset" where
  "running_items ws = (\<Sum>w\<leftarrow>ws. worker_items w)"

definition waiting_items :: "'a priorityWorkQueue \<Rightarrow> 'a multiset" where
  "waiting_items q = mset (highPriority q) + mset (lowPriority q)"

definition abs_pool :: "'a wq_sys \<Rightarrow> 'a pool" where
  "abs_pool s = \<lparr>waiting = waiting_items (queue s), running = running_items (workers s),
     done_items = mset (completed s)\<rparr>"

lemma running_items_start: "wq_start q = Ret ws \<Longrightarrow> running_items ws = {#}"
proof -
  have "(\<Sum>w\<leftarrow>replicate n (AtSelect :: 'a worker). worker_items w) = {#}" for n by (induction n) auto
  then show "wq_start q = Ret ws \<Longrightarrow> running_items ws = {#}"
    by (auto simp: running_items_def wq_start_def split: if_splits)
qed

lemma running_items_upd:
  "i < length ws \<Longrightarrow> running_items (ws[i := w]) = running_items ws - worker_items (ws ! i) + worker_items w"
proof -
  assume i: "i < length ws"
  have "running_items (ws[i := w]) = running_items (take i ws) + worker_items w + running_items (drop (Suc i) ws)"
    using i by (simp add: running_items_def upd_conv_take_nth_drop add.assoc)
  moreover have "running_items ws = running_items (take i ws) + worker_items (ws ! i) + running_items (drop (Suc i) ws)"
    using id_take_nth_drop [OF i] by (metis (no_types) running_items_def add.assoc map_append
        sum_list_append list.simps(9) sum_list.Cons)
  ultimately show ?thesis by (simp add: ac_simps)
qed

lemma running_items_ge: "i < length ws \<Longrightarrow> worker_items (ws ! i) \<subseteq># running_items ws"
  unfolding running_items_def by (induction ws arbitrary: i) (auto simp: nth_Cons' less_Suc_eq_0_disj
      intro: subset_mset.add_increasing subset_mset.add_increasing2)

lemma run_turn_items:
  "run_turn pick q wk = Some (q', wk') \<Longrightarrow>
     worker_items wk = {#} \<and>
     (case wk' of Running item \<Rightarrow> item \<in># waiting_items q \<and> waiting_items q' = waiting_items q - {#item#}
      | _ \<Rightarrow> q' = q)"
  by (cases wk) (auto simp: waiting_items_def split: list.splits if_splits)

text \<open>Every step of the system is a step of the pool or leaves the pool as it is.\<close>

lemma wq_refines_pool:
  assumes "wq_step returns s t"
  shows "abs_pool t = abs_pool s \<or> pool_step (abs_pool s) (abs_pool t)"
  using assms
proof cases
  case (wq_high w)
  then have "abs_pool t = (abs_pool s)\<lparr>waiting := add_mset w (waiting (abs_pool s))\<rparr>"
    by (simp add: abs_pool_def waiting_items_def submitHigh_def)
  then show ?thesis by (metis pool_step.pool_submit)
next
  case (wq_low w)
  then have "abs_pool t = (abs_pool s)\<lparr>waiting := add_mset w (waiting (abs_pool s))\<rparr>"
    by (simp add: abs_pool_def waiting_items_def submitLow_def)
  then show ?thesis by (metis pool_step.pool_submit)
next
  case (wq_turn i pick q' wk)
  note r = run_turn_items [OF wq_turn(3)]
  show ?thesis
  proof (cases wk)
    case (Running item)
    have "abs_pool t = (abs_pool s)\<lparr>waiting := waiting (abs_pool s) - {#item#},
        running := add_mset item (running (abs_pool s))\<rparr>"
      using wq_turn r Running by (simp add: abs_pool_def running_items_upd)
    moreover have "item \<in># waiting (abs_pool s)" using r Running by (simp add: abs_pool_def)
    ultimately show ?thesis by (metis pool_step.pool_start)
  qed (use wq_turn r in \<open>auto simp: abs_pool_def running_items_upd\<close>)
next
  case (wq_done i item)
  have "abs_pool t = (abs_pool s)\<lparr>running := running (abs_pool s) - {#item#},
      done_items := add_mset item (done_items (abs_pool s))\<rparr>"
    using wq_done by (simp add: abs_pool_def running_items_upd)
  moreover have "item \<in># running (abs_pool s)"
    using running_items_ge [OF wq_done(2)] wq_done(3) by (simp add: abs_pool_def)
  ultimately show ?thesis by (metis pool_step.pool_finish)
qed

section \<open>Invariant: nothing is lost, nothing runs twice, the concurrency is kept\<close>

definition wq_inv :: "int64 \<Rightarrow> 'a wq_sys \<Rightarrow> bool" where
  "wq_inv conc s \<longleftrightarrow>
     mset (submitted s) = waiting (abs_pool s) + running (abs_pool s) + done_items (abs_pool s) \<and>
     length (workers s) = nat conc"

lemma wq_step_workers: "wq_step returns s t \<Longrightarrow> length (workers t) = length (workers s)"
  by (erule wq_step.cases) auto

lemma wq_inv_step:
  assumes "wq_inv conc s" "wq_step returns s t"
  shows "wq_inv conc t"
  using assms(2)
proof cases
  case (wq_turn i pick q' wk)
  note r = run_turn_items [OF wq_turn(3)]
  show ?thesis
  proof (cases wk)
    case (Running item)
    then obtain rest where "waiting_items (queue s) = add_mset item rest"
      using r by (auto dest: multi_member_split)
    then show ?thesis
      using assms(1) wq_turn r Running by (simp add: wq_inv_def abs_pool_def running_items_upd)
  qed (use assms(1) wq_turn r in \<open>auto simp: wq_inv_def abs_pool_def running_items_upd\<close>)
next
  case (wq_done i item)
  have "item \<in># running_items (workers s)" using running_items_ge [OF wq_done(2)] wq_done(3) by simp
  then obtain rest where "running_items (workers s) = add_mset item rest"
    by (auto dest: multi_member_split)
  then show ?thesis
    using assms(1) wq_done by (simp add: wq_inv_def abs_pool_def running_items_upd)
qed (use assms(1) in \<open>auto simp: wq_inv_def abs_pool_def waiting_items_def submitHigh_def submitLow_def\<close>)

interpretation wq: invariant_system "wq_init conc bsize" "wq_step returns" "wq_inv conc"
  for conc bsize returns
proof unfold_locales
  show "wq_init conc bsize s \<Longrightarrow> wq_inv conc s" for s :: "'a wq_sys"
    by (auto simp: wq_init_def wq_inv_def abs_pool_def waiting_items_def running_items_start)
       (auto simp: newWorkQueue_def wq_start_def dest: arg_cong [where f = length] split: if_splits)
  show "wq_inv conc s \<Longrightarrow> wq_step returns s t \<Longrightarrow> wq_inv conc t" for s t :: "'a wq_sys"
    by (rule wq_inv_step)
qed

lemma size_running_items: "size (running_items ws) \<le> length ws"
proof (induction ws)
  case (Cons w ws)
  then show ?case by (cases w) (auto simp: running_items_def)
qed (simp add: running_items_def)

section \<open>Priority\<close>

text \<open>
  A worker that begins its loop while a high-priority item waits takes the first such item,
  whatever the low-priority channel holds.
\<close>

lemma run_turn_prefers_high:
  "highPriority q = item # rest \<Longrightarrow>
     run_turn pick q AtSelect = Some (q\<lparr>highPriority := rest\<rparr>, Running item)"
  by simp

text \<open>A worker takes a low-priority item only in the inner select.\<close>

lemma run_turn_low:
  "run_turn pick q wk = Some (q', wk') \<Longrightarrow> lowPriority q' \<noteq> lowPriority q \<Longrightarrow>
     wk = AtInnerSelect \<and> (highPriority q = [] \<or> \<not> pick)"
  by (cases wk) (auto split: list.splits if_splits)

text \<open>A worker that runs no item is never stuck while an item waits.\<close>

lemma run_turn_progress:
  "wk \<in> {AtSelect, AtInnerSelect} \<Longrightarrow> waiting_items q \<noteq> {#} \<Longrightarrow>
     \<exists>q' wk'. run_turn pick q wk = Some (q', wk')"
  by (auto simp: waiting_items_def split: list.splits)

section \<open>Starvation by items that never return\<close>

text \<open>
  Once every worker is in the call of an item that does not return, no waiting item is ever
  started: the workers stay as they are, and what waits keeps waiting.
\<close>

definition all_stuck :: "('a \<Rightarrow> bool) \<Rightarrow> 'a wq_sys \<Rightarrow> bool" where
  "all_stuck returns s \<longleftrightarrow> (\<forall>w \<in> set (workers s). \<exists>item. w = Running item \<and> \<not> returns item)"

lemma all_stuck_step:
  assumes "all_stuck returns s" "wq_step returns s t"
  shows "workers t = workers s \<and> completed t = completed s \<and>
     waiting_items (queue s) \<subseteq># waiting_items (queue t)"
  using assms(2)
proof cases
  case (wq_turn i pick q' wk)
  obtain item where "workers s ! i = Running item"
    using assms(1) nth_mem [OF wq_turn(2)] unfolding all_stuck_def by blast
  then show ?thesis using wq_turn by simp
next
  case (wq_done i item)
  then have False using assms(1) nth_mem [OF wq_done(2)] unfolding all_stuck_def by auto
  then show ?thesis ..
qed (auto simp: waiting_items_def submitHigh_def submitLow_def)

lemma all_stuck_forever:
  assumes "(wq_step returns)\<^sup>*\<^sup>* s t" "all_stuck returns s"
  shows "workers t = workers s \<and> completed t = completed s \<and>
     waiting_items (queue s) \<subseteq># waiting_items (queue t)"
  using assms
proof (induction rule: rtranclp_induct)
  case base
  then show ?case by simp
next
  case (step t u)
  then have "all_stuck returns t" by (simp add: all_stuck_def)
  from all_stuck_step [OF this step(2)] step show ?case by (auto intro: subset_mset.trans)
qed

section \<open>Properties\<close>

text \<open>C14. The work queue with its two channels and its workers implements the abstract pool:
  every step submits, starts or finishes one item of the pool, or changes nothing in it.\<close>

theorem queue_refines_pool:
  assumes "wq_step returns s t"
  shows "abs_pool t = abs_pool s \<or> pool_step (abs_pool s) (abs_pool t)"
  using assms by (rule wq_refines_pool)

theorem queue_refines_pool_witness:
  "abs_pool \<lparr>queue = submitHigh (7::nat) (newWorkQueue 2 10), workers = [AtSelect, AtInnerSelect],
      submitted = [7], completed = []\<rparr> =
     abs_pool \<lparr>queue = newWorkQueue 2 10, workers = [AtSelect, AtInnerSelect], submitted = [], completed = []\<rparr> \<or>
   pool_step
     (abs_pool \<lparr>queue = newWorkQueue 2 10, workers = [AtSelect, AtInnerSelect], submitted = [], completed = []\<rparr>)
     (abs_pool \<lparr>queue = submitHigh (7::nat) (newWorkQueue 2 10), workers = [AtSelect, AtInnerSelect],
      submitted = [7], completed = []\<rparr>)"
  by (rule queue_refines_pool [of "\<lambda>_. True"])
     (use wq_step.wq_high [of "\<lambda>_. True" "\<lparr>queue = newWorkQueue 2 10, workers = [AtSelect, AtInnerSelect],
        submitted = [], completed = []\<rparr>" "7::nat"] in simp)

text \<open>C13. In every reachable state each submitted item is waiting, running or completed exactly
  once, and no more items run at the same time than the configured concurrency.\<close>

theorem queue_conserves_work:
  assumes "reachable (wq_init conc bsize) (wq_step returns) s"
  shows "mset (submitted s) = waiting_items (queue s) + running_items (workers s) + mset (completed s) \<and>
     size (running_items (workers s)) \<le> nat conc"
proof -
  have "wq_inv conc s" using assms by (rule wq.inv_reachable)
  then show ?thesis using size_running_items [of "workers s"] by (simp add: wq_inv_def abs_pool_def)
qed

theorem queue_conserves_work_witness:
  "mset [7::nat] = waiting_items (submitLow 7 (newWorkQueue 1 10)) + running_items [AtSelect] + mset [] \<and>
     size (running_items [AtSelect :: nat worker]) \<le> nat 1"
proof -
  let ?s = "\<lparr>queue = newWorkQueue 1 10, workers = [AtSelect], submitted = [], completed = []\<rparr> :: nat wq_sys"
  have "wq_init 1 10 ?s" by (simp add: wq_init_def newWorkQueue_def wq_start_def)
  then have "reachable (wq_init 1 10) (wq_step (\<lambda>_. True))
      (?s\<lparr>queue := submitLow 7 (queue ?s), submitted := 7 # submitted ?s\<rparr>)"
    by (blast intro: reach_init reach_step wq_step.wq_low)
  from queue_conserves_work [OF this] show ?thesis by simp
qed

text \<open>Work that finishes a download is preferred over work that begins one: a worker takes
  a low-priority item only after it found no high-priority item at the start of its turn and
  then, if one has arrived meanwhile, only by the choice of the runtime.\<close>

theorem queue_prefers_high:
  assumes "run_turn pick q wk = Some (q', wk')" "lowPriority q' \<noteq> lowPriority q"
  shows "wk = AtInnerSelect \<and> (highPriority q = [] \<or> \<not> pick)"
  using assms by (rule run_turn_low)

theorem queue_prefers_high_witness:
  "AtInnerSelect = (AtInnerSelect :: nat worker) \<and>
     highPriority \<lparr>concurrency = 1, lowPriority = [3::nat], highPriority = [], bufSize = 4\<rparr> = []"
  using queue_prefers_high [of True "\<lparr>concurrency = 1, lowPriority = [3::nat], highPriority = [], bufSize = 4\<rparr>"
      AtInnerSelect "\<lparr>concurrency = 1, lowPriority = [], highPriority = [], bufSize = 4\<rparr>" "Running 3"] by simp

text \<open>A worker that runs no item never blocks while any item waits.\<close>

theorem queue_worker_progress:
  assumes "wk \<in> {AtSelect, AtInnerSelect}" "waiting_items q \<noteq> {#}"
  shows "\<exists>q' wk'. run_turn pick q wk = Some (q', wk')"
  using assms by (rule run_turn_progress)

theorem queue_worker_progress_witness:
  "\<exists>q' wk'. run_turn False (submitLow (1::nat) (newWorkQueue 1 4)) AtInnerSelect = Some (q', wk')"
  by (rule queue_worker_progress) (simp_all add: waiting_items_def submitLow_def newWorkQueue_def)

text \<open>If every worker is inside an item that never returns, as after the delivery of an
  error, no other item is ever started or completed, whatever is submitted.\<close>

theorem queue_starves:
  assumes "(wq_step returns)\<^sup>*\<^sup>* s t" "all_stuck returns s"
  shows "workers t = workers s \<and> completed t = completed s \<and>
     waiting_items (queue s) \<subseteq># waiting_items (queue t)"
  using assms by (rule all_stuck_forever)

theorem queue_starves_witness:
  "workers (\<lparr>queue = submitHigh 5 (newWorkQueue 1 4), workers = [Running (0::nat)], submitted = [5, 0],
       completed = []\<rparr>) = [Running 0] \<and> completed (\<lparr>queue = submitHigh 5 (newWorkQueue 1 4),
       workers = [Running (0::nat)], submitted = [5, 0], completed = []\<rparr>) = [] \<and>
     waiting_items (newWorkQueue 1 4 :: nat priorityWorkQueue) \<subseteq># waiting_items (submitHigh 5 (newWorkQueue 1 4))"
proof -
  let ?s = "\<lparr>queue = newWorkQueue 1 4, workers = [Running 0], submitted = [0], completed = []\<rparr> :: nat wq_sys"
  have "wq_step (\<lambda>i. i \<noteq> 0) ?s (?s\<lparr>queue := submitHigh 5 (queue ?s), submitted := 5 # submitted ?s\<rparr>)"
    by (rule wq_step.wq_high)
  from queue_starves [OF r_into_rtranclp, OF this] show ?thesis by (simp add: all_stuck_def)
qed

end
