(* ===== verification/Buffer_Mode.thy ===== *)
theory Buffer_Mode
  imports Chunk_Plan Work_Queue Retry_Client
begin

text \<open>
  Model of pkg/download/options.go and pkg/download/buffer.go: the default strategy. A first
  request learns the size of the file and where redirects lead; the rest of the file is cut
  into chunks that workers download in parallel and that the caller reads in order.

  What the strategies call outside the repository (the URL parser and printer, the joining of
  URL paths, lower case by the Unicode tables, the HTTP client) and the configured proxy
  credentials form the record \<open>net_env\<close>.
  The goroutines run concurrently; each job sees its own sequence of answers of the outside
  world, so every job has its own world argument, and the results do not depend on the order
  in which the jobs run.
\<close>

section \<open>Options\<close>

record download_options =
  MaxConcurrency :: int64
  SliceSize :: int64
  ChunkSize :: int64
  Client :: client_Options
  CacheableURIPrefixes :: "string \<rightharpoonup> URL list"
  CacheUsePathProxy :: bool
  CacheHosts :: "string list option"
  ForceCachePrefixRewrite :: bool

definition maxConcurrency :: "int64 \<Rightarrow> download_options \<Rightarrow> int64" where
  "maxConcurrency numCPU opts =
     (let maxChunks = MaxConcurrency opts in if maxChunks = 0 then wrap64 (numCPU * 4) else maxChunks)"

definition defaultChunkSize :: int64 where
  "defaultChunkSize = 125 * 2 ^ 20"

record 'w net_env =
  url_parse :: "string \<Rightarrow> go_error + URL"
  url_String :: "URL \<Rightarrow> string"
  url_JoinPath :: "string \<Rightarrow> string \<Rightarrow> go_error + string"
  strings_ToLower :: "string \<Rightarrow> string"
  client_Do :: "'w http_client"
  proxyAuthHeader :: string

record bufferMode =
  bm_Client :: RPGetHTTPClient
  bm_opts :: download_options
  redirected :: bool

definition chunkSize :: "bufferMode \<Rightarrow> int64" where
  "chunkSize m =
     (let minChunkSize = ChunkSize (bm_opts m)
      in if minChunkSize = 0 then defaultChunkSize else minChunkSize)"

text \<open>\<open>GetBufferMode\<close>: the strategy and its work queue, whose workers have chunk-sized buffers.\<close>

definition GetBufferMode ::
  "(string \<times> string) list \<Rightarrow> int64 \<Rightarrow> download_options \<Rightarrow> bufferMode \<times> 'a priorityWorkQueue" where
  "GetBufferMode configuredHeaders numCPU opts =
     (let m = \<lparr>bm_Client = NewHTTPClient configuredHeaders (Client opts), bm_opts = opts, redirected = False\<rparr>
      in (m, newWorkQueue (maxConcurrency numCPU opts) (chunkSize m)))"

section \<open>The size of the file\<close>

definition getFileSizeFromContentLength :: "string \<Rightarrow> go_error + int64" where
  "getFileSizeFromContentLength contentLength = parse_int contentLength"

definition getFileSizeFromContentRange :: "string \<Rightarrow> go_error + int64" where
  "getFileSizeFromContentRange contentRange =
     (case content_range_match contentRange of
        None \<Rightarrow> Inl (Errorf (''couldn't parse Content-Range: '' @ contentRange))
      | Some digits \<Rightarrow> parse_int digits)"

definition getFileSizeFromResponse :: "http_response \<Rightarrow> go_error + int64" where
  "getFileSizeFromResponse resp =
     (if StatusCode resp = 200 \<and> header_get (resp_Header resp) ''Content-Range'' = ''''
      then getFileSizeFromContentLength (header_get (resp_Header resp) ''Content-Length'')
      else getFileSizeFromContentRange (header_get (resp_Header resp) ''Content-Range''))"

section \<open>Rewriting a URL for the pull-through cache\<close>

definition prefix_matches :: "URL list \<Rightarrow> URL \<Rightarrow> bool" where
  "prefix_matches prefixes parsed \<longleftrightarrow>
     list_ex (\<lambda>pfx. url_Path pfx = ''/'' \<or> has_prefix (url_Path parsed) (url_Path pfx)) prefixes"

definition rewritePrefix :: "'w net_env \<Rightarrow> bufferMode \<Rightarrow> string \<Rightarrow> string \<Rightarrow> URL \<Rightarrow> string" where
  "rewritePrefix env m cacheHost urlString parsed =
     (case (if CacheUsePathProxy (bm_opts m) then url_JoinPath env cacheHost (url_Host parsed)
            else Inr cacheHost) of
        Inl _ \<Rightarrow> urlString
      | Inr base \<Rightarrow>
          (case url_JoinPath env base (url_Path parsed) of
             Inl _ \<Rightarrow> urlString
           | Inr newUrl \<Rightarrow>
               if url_RawQuery parsed \<noteq> '''' then newUrl @ ''?'' @ url_RawQuery parsed else newUrl))"

definition rewriteUrlForCache :: "'w net_env \<Rightarrow> bufferMode \<Rightarrow> string \<Rightarrow> string" where
  "rewriteUrlForCache env m urlString =
     (case CacheHosts (bm_opts m) of
        Some [cacheHost] \<Rightarrow>
          if has_prefix urlString cacheHost then urlString
          else (case url_parse env urlString of
             Inl _ \<Rightarrow> urlString
           | Inr parsed \<Rightarrow>
               if ForceCachePrefixRewrite (bm_opts m)
               then rewritePrefix env m cacheHost urlString parsed
               else (case CacheableURIPrefixes (bm_opts m) (url_Host parsed) of
                  None \<Rightarrow> urlString
                | Some prefixes \<Rightarrow>
                    if prefix_matches prefixes parsed
                    then rewritePrefix env m cacheHost urlString parsed else urlString))
      | _ \<Rightarrow> urlString)"

section \<open>One request\<close>

definition bm_request ::
  "'w net_env \<Rightarrow> bufferMode \<Rightarrow> go_ctx \<Rightarrow> int64 \<Rightarrow> int64 \<Rightarrow> string \<Rightarrow> go_error + http_request" where
  "bm_request env m ctx start fin trueURL =
     (case new_request (url_parse env) ctx trueURL of
        Inl e \<Rightarrow> Inl (Wrapf (''failed to download '' @ trueURL) e)
      | Inr req0 \<Rightarrow>
          let req1 = req0\<lparr>req_Header := header_set (req_Header req0) ''Range'' (range_header start fin)\<rparr>
          in Inr (if proxyAuthHeader env \<noteq> '''' \<and> \<not> redirected m
                  then req1\<lparr>req_Header := header_set (req_Header req1) ''Authorization'' (proxyAuthHeader env)\<rparr>
                  else req1))"

definition bm_DoRequest ::
  "'w net_env \<Rightarrow> bufferMode \<Rightarrow> go_ctx \<Rightarrow> int64 \<Rightarrow> int64 \<Rightarrow> string \<Rightarrow> 'w \<Rightarrow> (go_error + http_response) \<times> 'w" where
  "bm_DoRequest env m ctx start fin trueURL w =
     (case bm_request env m ctx start fin trueURL of
        Inl e \<Rightarrow> (Inl e, w)
      | Inr req \<Rightarrow>
          (case client_Do env w req of
             (Inl e, w') \<Rightarrow>
               (Inl (Wrapf (''error executing request for '' @ url_String env (req_URL req)) e), w')
           | (Inr resp, w') \<Rightarrow>
               if bad_status resp
               then (Inl (Wrapf (url_String env (req_URL req) @ '': '' @ Status resp)
                       (Sentinel ErrUnexpectedHTTPStatus)), w')
               else (Inr resp, w')))"

section \<open>Fetch\<close>

text \<open>
  The first request, up to the point where its result is sent to the waiting \<open>Fetch\<close>: the
  size, the URL after redirects and the response whose body is still to be read.
\<close>

definition first_request ::
  "'w net_env \<Rightarrow> bufferMode \<Rightarrow> go_ctx \<Rightarrow> string \<Rightarrow> 'w \<Rightarrow>
     (go_error + int64 \<times> string \<times> http_response) \<times> bufferMode \<times> 'w" where
  "first_request env m ctx url0 w =
     (let url = (if CacheHosts (bm_opts m) \<noteq> None then rewriteUrlForCache env m url0 else url0)
      in case bm_DoRequest env m ctx 0 (wrap64 (chunkSize m - 1)) url w of
           (Inl e, w') \<Rightarrow> (Inl e, m, w')
         | (Inr resp, w') \<Rightarrow>
             let trueURL = url_String env (req_URL (resp_Request resp));
                 m' = (if trueURL \<noteq> url then m\<lparr>redirected := True\<rparr> else m)
             in case getFileSizeFromResponse resp of
                  Inl e \<Rightarrow> (Inl e, m', w')
                | Inr fileSize \<Rightarrow> (Inr (fileSize, trueURL, resp), m', w'))"

definition numChunks :: "bufferMode \<Rightarrow> int64 \<Rightarrow> int64" where
  "numChunks m fileSize =
     (let remainingBytes = wrap64 (fileSize - chunkSize m)
      in wrap64 (wrap64 (remainingBytes - 1) sdiv chunkSize m + 1))"

text \<open>The range of the \<open>i\<close>-th chunk behind the first one.\<close>

definition chunk_range :: "bufferMode \<Rightarrow> int64 \<Rightarrow> int64 \<Rightarrow> int64 \<times> int64" where
  "chunk_range m fileSize i =
     (let startOffset = chunkSize m;
          start = wrap64 (startOffset + wrap64 (chunkSize m * i));
          fin = (if i = wrap64 (numChunks m fileSize - 1) then wrap64 (fileSize - 1)
                 else wrap64 (wrap64 (start + chunkSize m) - 1))
      in (start, fin))"

definition chunk_job ::
  "'w net_env \<Rightarrow> bufferMode \<Rightarrow> go_ctx \<Rightarrow> string \<Rightarrow> int64 \<times> int64 \<Rightarrow> byte list \<Rightarrow> 'w \<Rightarrow> delivery" where
  "chunk_job env m ctx trueURL rng buf w =
     (case bm_DoRequest env m ctx (fst rng) (snd rng) trueURL w of
        (Inl err, w') \<Rightarrow> Some (Ret ([], Some err))
      | (Inr resp, w') \<Rightarrow> map_option fst (read_chunk (client_Do env) resp buf w'))"

text \<open>
  \<open>Fetch\<close>: an error, or the promises of the chunks in reading order and the size of the file.
  \<open>bufs i\<close> is the buffer of the worker that runs job \<open>i\<close> and \<open>ws i\<close> the world it sees. The definition
  says what the jobs do once workers take them; the queue, its workers and the scheduling of the jobs
  are the system of goroutines of \<open>Download_Pipeline\<close>, and the commands call \<open>Fetch\<close> with the queue that
  they started (without a worker it never returns).
\<close>

definition bm_Fetch ::
  "'w net_env \<Rightarrow> bufferMode \<Rightarrow> go_ctx \<Rightarrow> string \<Rightarrow> (nat \<Rightarrow> byte list) \<Rightarrow> (nat \<Rightarrow> 'w) \<Rightarrow>
     (go_error + delivery list \<times> int64) \<times> bufferMode" where
  "bm_Fetch env m ctx url bufs ws =
     (case first_request env m ctx url (ws 0) of
        (Inl e, m', w') \<Rightarrow> (Inl e, m')
      | (Inr (fileSize, trueURL, resp), m', w') \<Rightarrow>
          let firstChunk = map_option fst (read_chunk (client_Do env) resp (bufs 0) w')
          in if fileSize \<le> chunkSize m then (Inr ([firstChunk], fileSize), m')
             else (Inr (firstChunk #
                     map (\<lambda>i. chunk_job env m' ctx trueURL (chunk_range m fileSize (int i))
                                (bufs (Suc i)) (ws (Suc i)))
                         [0..<nat (numChunks m fileSize)], fileSize), m'))"

section \<open>The plan of the strategy\<close>

definition bm_plan :: "bufferMode \<Rightarrow> int64 \<Rightarrow> (int64 \<times> int64) list" where
  "bm_plan m fileSize =
     (0, wrap64 (chunkSize m - 1)) #
       (if fileSize \<le> chunkSize m then []
        else map (\<lambda>i. chunk_range m fileSize (int i)) [0..<nat (numChunks m fileSize)])"

definition bm_valid :: "bufferMode \<Rightarrow> int64 \<Rightarrow> bool" where
  "bm_valid m fileSize \<longleftrightarrow> 0 < chunkSize m \<and> in64 (chunkSize m) \<and> 0 < fileSize \<and> in64 fileSize"

lemma numChunks_eq:
  assumes "bm_valid m sz" "chunkSize m < sz"
  shows "numChunks m sz = (sz - chunkSize m - 1) div chunkSize m + 1"
proof -
  have v: "0 < chunkSize m" "sz < 2 ^ 63" using assms by (auto simp: bm_valid_def in64_def)
  let ?q = "(sz - chunkSize m - 1) div chunkSize m"
  have q: "0 \<le> ?q" using v assms(2) by (intro pos_imp_zdiv_nonneg_iff [THEN iffD2]) auto
  have "1 * ?q \<le> chunkSize m * ?q" using q v by (intro mult_right_mono) auto
  also have "\<dots> \<le> sz - chunkSize m - 1" using v by (intro int_mult_div_le)
  finally have "?q + 1 < 2 ^ 63" using v by simp
  then show ?thesis
    using v q assms(2) by (simp add: numChunks_def Let_def wrap64_nonneg sdiv_nonneg)
qed

lemma chunk_start_less:
  assumes "0 < c" "c < sz" "0 \<le> i" "i \<le> (sz - c - 1) div c"
  shows "c + c * i < (sz :: int)"
proof -
  have "c * i \<le> c * ((sz - c - 1) div c)" using assms by (intro mult_left_mono) auto
  also have "\<dots> \<le> sz - c - 1" using assms(1) by (intro int_mult_div_le)
  finally show ?thesis by simp
qed

lemma chunk_range_eq:
  assumes v: "bm_valid m sz" "chunkSize m < sz" and i: "0 \<le> i" "i < numChunks m sz"
  shows "chunk_range m sz i =
     (chunkSize m + chunkSize m * i,
      if i = numChunks m sz - 1 then sz - 1 else chunkSize m + chunkSize m * (i + 1) - 1)"
proof -
  let ?c = "chunkSize m"
  have c: "0 < ?c" "?c < 2 ^ 63" "0 < sz" "sz < 2 ^ 63" using v by (auto simp: bm_valid_def in64_def)
  note n = numChunks_eq [OF v]
  have lt: "?c + ?c * i < sz" using c v(2) i n by (intro chunk_start_less) auto
  have s: "wrap64 (?c * i) = ?c * i" "wrap64 (?c + ?c * i) = ?c + ?c * i"
    using c i lt by (simp_all add: wrap64_nonneg)
  have l: "wrap64 (numChunks m sz - 1) = numChunks m sz - 1"
  proof -
    have "in64 (numChunks m sz)" by (simp add: numChunks_def Let_def)
    then show ?thesis using i by (intro wrap64_in64) (simp add: in64_def)
  qed
  have "wrap64 (wrap64 (?c + ?c * i + ?c) - 1) = ?c + ?c * (i + 1) - 1" if "i \<noteq> numChunks m sz - 1"
  proof -
    have lt': "?c + ?c * (i + 1) < sz" using that c v(2) i n by (intro chunk_start_less) auto
    have e: "?c + ?c * i + ?c = ?c + ?c * (i + 1)" by (simp add: algebra_simps)
    have p: "0 \<le> ?c * (i + 1)" using c i by simp
    then have "wrap64 (?c + ?c * (i + 1)) = ?c + ?c * (i + 1)"
      using lt' c by (intro wrap64_nonneg) linarith+
    moreover have "wrap64 (?c + ?c * (i + 1) - 1) = ?c + ?c * (i + 1) - 1"
      using lt' c p by (intro wrap64_nonneg) linarith+
    ultimately show ?thesis by (simp only: e)
  qed
  then show ?thesis
    using c s l by (simp add: chunk_range_def Let_def wrap64_nonneg)
qed

lemma chunk_ranges_tile:
  assumes v: "bm_valid m sz" "chunkSize m < sz" and j: "j \<le> nat (numChunks m sz)"
  shows "tiles (if j = nat (numChunks m sz) then sz else chunkSize m + chunkSize m * int j)
     (map (\<lambda>i. chunk_range m sz (int i)) [j..<nat (numChunks m sz)]) sz"
  using j
proof (induction "nat (numChunks m sz) - j" arbitrary: j)
  case 0
  then show ?case by simp
next
  case (Suc k)
  let ?c = "chunkSize m" and ?n = "numChunks m sz"
  have jn: "int j < ?n" "j < nat ?n" using Suc by auto
  have c: "0 < ?c" using v by (simp add: bm_valid_def)
  have start: "?c + ?c * int j < sz"
    using c v(2) jn numChunks_eq [OF v] by (intro chunk_start_less) auto
  have tail: "tiles (if Suc j = nat ?n then sz else ?c + ?c * int (Suc j))
      (map (\<lambda>i. chunk_range m sz (int i)) [Suc j..<nat ?n]) sz"
    using Suc by (intro Suc.hyps(1)) auto
  have "\<not> Suc j = nat ?n \<Longrightarrow> int j \<noteq> ?n - 1" using jn by auto
  moreover have "Suc j = nat ?n \<Longrightarrow> int j = ?n - 1" by linarith
  moreover have "?c * int j < ?c * (int j + 1)" using c by simp
  ultimately show ?case
    using jn start tail chunk_range_eq [OF v _ jn(1)] c
    by (simp add: upt_conv_Cons [OF jn(2)] add.commute split: if_splits)
qed

lemma bm_plan_tiles:
  assumes "bm_valid m sz"
  shows "tiles 0 (bm_plan m sz) sz"
proof -
  have w: "wrap64 (chunkSize m - 1) = chunkSize m - 1"
    using assms by (intro wrap64_nonneg) (auto simp: bm_valid_def in64_def)
  show ?thesis
  proof (cases "sz \<le> chunkSize m")
    case True
    with assms w show ?thesis by (simp add: bm_plan_def bm_valid_def)
  next
    case False
    then have "0 < numChunks m sz"
      using numChunks_eq [OF assms] assms pos_imp_zdiv_nonneg_iff [of "chunkSize m" "sz - chunkSize m - 1"]
      by (simp add: bm_valid_def)
    with chunk_ranges_tile [OF assms, of 0] False assms w show ?thesis
      by (simp add: bm_plan_def bm_valid_def)
  qed
qed

lemma bm_plan_limit:
  assumes v: "bm_valid m sz" and ab: "(a, b) \<in> set (bm_plan m sz)"
  shows "min (b + 1) sz - a \<le> chunkSize m \<and> in64 b"
proof -
  let ?c = "chunkSize m" and ?n = "numChunks m sz"
  have c: "0 < ?c" "?c < 2 ^ 63" "sz < 2 ^ 63" "0 < sz" using v by (auto simp: bm_valid_def in64_def)
  have w: "wrap64 (?c - 1) = ?c - 1" using c by (intro wrap64_nonneg) auto
  from ab consider "(a, b) = (0, ?c - 1)"
    | i where "?c < sz" "i < nat ?n" "chunk_range m sz (int i) = (a, b)"
    by (auto simp: bm_plan_def w split: if_splits)
  then show ?thesis
  proof cases
    case 1
    then show ?thesis using c by (auto simp: in64_def)
  next
    case (2 i)
    have n: "?n = (sz - ?c - 1) div ?c + 1" by (rule numChunks_eq [OF v 2(1)])
    have e: "(a, b) = (?c + ?c * int i, if int i = ?n - 1 then sz - 1 else ?c + ?c * (int i + 1) - 1)"
      using chunk_range_eq [OF v 2(1), of "int i"] 2 by simp
    show ?thesis
    proof (cases "int i = ?n - 1")
      case True
      have "sz - ?c - 1 < ?c * ((sz - ?c - 1) div ?c) + ?c"
        using c by (intro int_less_mult_div)
      with True n e c show ?thesis by (auto simp: in64_def)
    next
      case False
      have "?c + ?c * (int i + 1) < sz"
        using False 2 c n by (intro chunk_start_less) auto
      moreover have "0 \<le> ?c * (int i + 1)" using c by simp
      ultimately have "in64 (?c + ?c * (int i + 1) - 1)" using c unfolding in64_def by linarith
      moreover have "a = ?c + ?c * int i" "b = ?c + ?c * (int i + 1) - 1" using False e by simp_all
      moreover have "?c * (int i + 1) = ?c * int i + ?c" by (simp add: algebra_simps)
      ultimately show ?thesis by simp
    qed
  qed
qed

interpretation bm: chunk_plan bm_plan chunkSize bm_valid
  by unfold_locales (auto dest: bm_plan_tiles bm_plan_limit)

section \<open>Requests and their answers\<close>

lemma bm_request_range:
  "bm_request env m ctx a b url = Inr req \<Longrightarrow> header_get (req_Header req) ''Range'' = range_header a b"
  by (auto simp: bm_request_def Let_def split: sum.splits if_splits)

lemma bm_request_ok:
  "url_parse env url = Inr u \<Longrightarrow> \<exists>req. bm_request env m ctx a b url = Inr req \<and> req_Ctx req = ctx"
  by (simp add: bm_request_def new_request_def Let_def)

text \<open>The proxy credentials go out exactly while no redirect was seen.\<close>

lemma bm_request_authorization:
  "bm_request env m ctx a b url = Inr req \<Longrightarrow>
     req_Header req ''Authorization'' =
       (if proxyAuthHeader env \<noteq> '''' \<and> \<not> redirected m then Some (proxyAuthHeader env) else None)"
  by (auto simp: bm_request_def new_request_def header_set_def Let_def split: sum.splits if_splits)

lemma bm_DoRequest_served:
  assumes "range_client C (client_Do env) content" "C ctx" "url_parse env url = Inr u"
    and "0 \<le> a" "a \<le> b" "a < int (length content)" "in64 b"
  obtains resp w' where "bm_DoRequest env m ctx a b url w = (Inr resp, w')" "served content a b resp"
    "C (req_Ctx (resp_Request resp))"
proof -
  obtain req where r: "bm_request env m ctx a b url = Inr req" "req_Ctx req = ctx"
    using bm_request_ok assms(3) by metis
  obtain resp w' where c: "client_Do env w req = (Inr resp, w')" and s: "served content a b resp"
    "C (req_Ctx (resp_Request resp))"
    using range_clientE [OF assms(1) _ bm_request_range [OF r(1)] assms(4,5,6,7)] assms(2) r(2) by metis
  show thesis
    using that [of resp w'] r c s served_not_bad [OF s(1)] by (simp add: bm_DoRequest_def)
qed

lemma getFileSize_served:
  assumes "served content a b resp" "int (length content) < 2 ^ 63"
    and "0 \<le> a" "0 \<le> a + int (part_len content a b) - 1"
  shows "getFileSizeFromResponse resp = Inr (int (length content))"
proof -
  let ?e = "a + int (part_len content a b) - 1"
  have "content_range_match (''bytes '' @ (int_dec a @ ''-'' @ int_dec ?e) @ ''/'' @ nat_dec (int (length content)))
      = Some (nat_dec (int (length content)))"
    using assms(3,4) by (intro content_range_match_print) auto
  moreover have "parse_int (nat_dec (int (length content))) = Inr (int (length content))"
    using parse_int_dec [of "int (length content)"] assms(2) by (simp add: in64_def)
  ultimately show ?thesis
    using assms(1) by (simp add: getFileSizeFromResponse_def getFileSizeFromContentRange_def served_def)
qed

section \<open>A file is downloaded completely\<close>

text \<open>The URL of the request parses, and so does every URL the parser's package prints.\<close>

definition urls_parse :: "'w net_env \<Rightarrow> string \<Rightarrow> bool" where
  "urls_parse env url \<longleftrightarrow>
     (\<exists>u. url_parse env url = Inr u) \<and> (\<forall>u. \<exists>u'. url_parse env (url_String env u) = Inr u')"

definition effective_url :: "'w net_env \<Rightarrow> bufferMode \<Rightarrow> string \<Rightarrow> string" where
  "effective_url env m url = (if CacheHosts (bm_opts m) \<noteq> None then rewriteUrlForCache env m url else url)"

lemma first_request_served:
  assumes rc: "range_client C (client_Do env) content" "C ctx"
    and u: "urls_parse env (effective_url env m url)" and v: "bm_valid m (int (length content))"
  obtains trueURL resp m' w' where
    "first_request env m ctx url w = (Inr (int (length content), trueURL, resp), m', w')"
    "served content 0 (chunkSize m - 1) resp" "\<exists>u. url_parse env trueURL = Inr u"
    "C (req_Ctx (resp_Request resp))"
proof -
  have c: "0 < chunkSize m" "chunkSize m < 2 ^ 63" "0 < int (length content)" "int (length content) < 2 ^ 63"
    using v by (auto simp: bm_valid_def in64_def)
  have w: "wrap64 (chunkSize m - 1) = chunkSize m - 1" using c by (intro wrap64_nonneg) auto
  have rg: "0 \<le> (0 :: int64)" "0 \<le> chunkSize m - 1" "0 < int (length content)" "in64 (chunkSize m - 1)"
    using c by (auto simp: in64_def)
  obtain p where p: "url_parse env (effective_url env m url) = Inr p" using u by (auto simp: urls_parse_def)
  obtain resp w' where d: "bm_DoRequest env m ctx 0 (chunkSize m - 1) (effective_url env m url) w = (Inr resp, w')"
    and s: "served content 0 (chunkSize m - 1) resp" and C: "C (req_Ctx (resp_Request resp))"
    using bm_DoRequest_served [OF rc p rg] by metis
  have "getFileSizeFromResponse resp = Inr (int (length content))"
    using c part_len_pos [of 0 "chunkSize m - 1" content] by (intro getFileSize_served [OF s]) auto
  moreover have "\<exists>q. url_parse env (url_String env (req_URL (resp_Request resp))) = Inr q"
    using u by (simp add: urls_parse_def)
  ultimately show thesis
    using that d s C w by (simp add: first_request_def Let_def effective_url_def)
qed

lemma chunk_job_served:
  assumes rc: "range_client C (client_Do env) content" "C ctx" and u: "url_parse env url = Inr u"
    and a: "0 \<le> a" "a \<le> b" "a < int (length content)" "in64 b" "int (length content) < 2 ^ 63"
    and fit: "part_len content a b \<le> length buf"
  shows "chunk_job env m ctx url (a, b) buf w =
     Some (Ret (piece content (nat a) (part_len content a b), None))"
proof -
  obtain resp w' where d: "bm_DoRequest env m ctx a b url w = (Inr resp, w')" and s: "served content a b resp"
    and C: "C (req_Ctx (resp_Request resp))"
    using bm_DoRequest_served [OF rc u a(1,2,3,4)] by metis
  obtain w'' where "read_chunk (client_Do env) resp buf w' =
      Some (Ret (piece content (nat a) (part_len content a b), None), w'')"
    using read_chunk_served [OF rc(1) C s a fit] by metis
  with d show ?thesis by (simp add: chunk_job_def)
qed

lemma length_bm_plan:
  "length (bm_plan m sz) = (if sz \<le> chunkSize m then 1 else Suc (nat (numChunks m sz)))"
  by (simp add: bm_plan_def)

lemma bm_chunk_job:
  assumes rc: "range_client C (client_Do env) content" "C ctx" and v: "bm_valid m (int (length content))"
    and f: "served content 0 (chunkSize m - 1) resp" "C (req_Ctx (resp_Request resp))" "url_parse env trueURL = Inr tu"
    and bufs: "\<And>i. length (bufs i) = nat (chunkSize m)"
    and i: "i < length (bm_plan m (int (length content)))" "bm_plan m (int (length content)) ! i = (a, b)"
  shows "(case i of
      0 \<Rightarrow> map_option fst (read_chunk (client_Do env) resp (bufs 0) w')
    | Suc j \<Rightarrow> chunk_job env m' ctx trueURL (chunk_range m (int (length content)) (int j)) (bufs (Suc j)) (ws (Suc j))) =
     Some (Ret (piece content (nat a) (part_len content a b), None))"
proof -
  let ?sz = "int (length content)" and ?c = "chunkSize m"
  have c: "0 < ?c" "?c < 2 ^ 63" "0 < ?sz" "?sz < 2 ^ 63" using v by (auto simp: bm_valid_def in64_def)
  have mem: "(a, b) \<in> set (bm_plan m ?sz)" using i nth_mem by metis
  note r = bm.plan_range [OF v mem]
  have fit: "part_len content a b \<le> length (bufs i)" for i
    using bm.plan_fits [OF v mem] bufs by simp
  show ?thesis
  proof (cases i)
    case 0
    then have "a = 0" "b = ?c - 1" using i(2) c by (auto simp: bm_plan_def wrap64_nonneg)
    moreover obtain w'' where "read_chunk (client_Do env) resp (bufs 0) w' =
        Some (Ret (piece content (nat 0) (part_len content 0 (?c - 1)), None), w'')"
      using read_chunk_served [OF rc(1) f(2,1), of "bufs 0" w'] r fit [of 0] c calculation by auto
    ultimately show ?thesis using 0 by simp
  next
    case (Suc j)
    then have "chunk_range m ?sz (int j) = (a, b)"
      using i by (auto simp: bm_plan_def split: if_splits)
    then show ?thesis
      using Suc chunk_job_served [OF rc f(3), of a b "bufs i" m' "ws i"] r fit [of i] c by simp
  qed
qed

text \<open>Every promise gets the bytes of its range.\<close>

lemma bm_Fetch_readers:
  assumes rc: "range_client C (client_Do env) content" "C ctx"
    and u: "urls_parse env (effective_url env m url)" and v: "bm_valid m (int (length content))"
    and bufs: "\<And>i. length (bufs i) = nat (chunkSize m)"
  shows "\<exists>readers m'. bm_Fetch env m ctx url bufs ws = (Inr (readers, int (length content)), m') \<and>
     complete_readers content (chunkSize m) readers"
proof -
  let ?sz = "int (length content)" and ?c = "chunkSize m"
  obtain trueURL resp m' w' where
    f: "first_request env m ctx url (ws 0) = (Inr (?sz, trueURL, resp), m', w')"
    and s: "served content 0 (?c - 1) resp" and t: "\<exists>u. url_parse env trueURL = Inr u"
    and C: "C (req_Ctx (resp_Request resp))"
    using first_request_served [OF rc u v] by metis
  obtain tu where tu: "url_parse env trueURL = Inr tu" using t by blast
  define job where "job i = (case i of
      0 \<Rightarrow> map_option fst (read_chunk (client_Do env) resp (bufs 0) w')
    | Suc j \<Rightarrow> chunk_job env m' ctx trueURL (chunk_range m ?sz (int j)) (bufs (Suc j)) (ws (Suc j)))" for i
  have "bm_Fetch env m ctx url bufs ws = (Inr (map job [0..<length (bm_plan m ?sz)], ?sz), m')"
    using f by (simp add: bm_Fetch_def Let_def length_bm_plan job_def upt_conv_Cons map_Suc_upt [symmetric]
        del: upt_Suc)
  moreover have "complete_readers content ?c (map job [0..<length (bm_plan m ?sz)])"
  proof (rule bm.plan_assembles [OF v])
    show "job i = Some (Ret (piece content (nat a) (part_len content a b), None))"
      if "i < length (bm_plan m ?sz)" "bm_plan m ?sz ! i = (a, b)" for a b i
      unfolding job_def using bm_chunk_job [OF rc v s C tu bufs that] .
  qed (use v in \<open>auto simp: bm_valid_def\<close>)
  ultimately show ?thesis by blast
qed

lemma bm_Fetch_content:
  assumes "range_client C (client_Do env) content" "C ctx"
    and "urls_parse env (effective_url env m url)" and "bm_valid m (int (length content))"
    and "\<And>i. length (bufs i) = nat (chunkSize m)"
  shows "\<exists>readers m'. bm_Fetch env m ctx url bufs ws = (Inr (readers, int (length content)), m') \<and>
     multi_read readers = Some (Ret (content, None))"
  using bm_Fetch_readers [where bufs = bufs and ws = ws, OF assms] complete_readers_read by blast

section \<open>The credentials and the flag for redirects\<close>

text \<open>Once the flag is set, no request and so no result depends on the configured credentials.\<close>

abbreviation with_credentials :: "string \<Rightarrow> 'w net_env \<Rightarrow> 'w net_env" where
  "with_credentials cred env \<equiv> env\<lparr>proxyAuthHeader := cred\<rparr>"

lemma bm_DoRequest_credentials:
  "redirected m \<Longrightarrow> bm_DoRequest (with_credentials cred env) m ctx a b url w = bm_DoRequest env m ctx a b url w"
  by (simp add: bm_DoRequest_def bm_request_def Let_def split: sum.split prod.split)

lemma chunk_job_credentials:
  "redirected m \<Longrightarrow> chunk_job (with_credentials cred env) m ctx url rng buf w = chunk_job env m ctx url rng buf w"
  by (simp add: chunk_job_def bm_DoRequest_credentials split: sum.split prod.split)

lemma rewriteUrlForCache_credentials: "rewriteUrlForCache (with_credentials cred env) m url = rewriteUrlForCache env m url"
  by (simp add: rewriteUrlForCache_def rewritePrefix_def [abs_def] split: option.split list.split sum.split)

lemma first_request_credentials:
  "redirected m \<Longrightarrow> first_request (with_credentials cred env) m ctx url w = first_request env m ctx url w"
  by (simp add: first_request_def bm_DoRequest_credentials rewriteUrlForCache_credentials Let_def split: sum.split prod.split)

text \<open>When the flag is set.\<close>

lemma first_request_redirected:
  assumes "first_request env m ctx url w = (Inr (fileSize, trueURL, resp), m', w')"
  shows "m' = m\<lparr>redirected := redirected m \<or> trueURL \<noteq> effective_url env m url\<rparr>"
  using assms by (auto simp: first_request_def effective_url_def Let_def split: prod.splits sum.splits if_splits)

lemma bm_Fetch_credentials:
  assumes "redirected m"
  shows "bm_Fetch (with_credentials cred env) m ctx url bufs ws = bm_Fetch env m ctx url bufs ws"
proof (cases "first_request env m ctx url (ws 0)")
  case (fields r m' w')
  show ?thesis
  proof (cases r)
    case (Inl e)
    with fields assms show ?thesis by (simp add: bm_Fetch_def first_request_credentials)
  next
    case (Inr x)
    obtain fileSize trueURL resp where "x = (fileSize, trueURL, resp)" by (cases x)
    moreover from this have "redirected m'" using first_request_redirected assms fields Inr by fastforce
    ultimately show ?thesis using fields Inr assms by (simp add: bm_Fetch_def first_request_credentials chunk_job_credentials Let_def)
  qed
qed

end
