(* ===== verification/Consistent_Hash.thy ===== *)
theory Consistent_Hash
  imports Rpget_Prelude
begin

text \<open>
  Model of pkg/consistent/consistent.go: the choice of a cache node for a key, with retries
  that avoid the nodes already tried. The structural hash (mitchellh/hashstructure) and the
  jump consistent hash (dgryski/go-jump) are third-party code and therefore parameters.
\<close>

record 'k cacheKey =
  Key :: 'k
  Attempt :: int64

type_synonym 'k structure_hash = "'k cacheKey \<Rightarrow> go_error + 64 word"
type_synonym jump_hash = "64 word \<Rightarrow> int64 \<Rightarrow> int64"

text \<open>The loop over the sorted previous buckets that makes room for each of them.\<close>

fun skip_previous :: "int64 \<Rightarrow> int64 list \<Rightarrow> int64" where
  "skip_previous bucket [] = bucket"
| "skip_previous bucket (prev # rest) =
     skip_previous (if bucket \<ge> prev then wrap64 (bucket + 1) else bucket) rest"

text \<open>
  \<open>HashBucket\<close>: the bucket or the error, and the slice of previous buckets as the call
  leaves it (sorted, once the hash was computed).
\<close>

definition HashBucket ::
  "'k structure_hash \<Rightarrow> jump_hash \<Rightarrow> 'k \<Rightarrow> int64 \<Rightarrow> int64 list \<Rightarrow> (go_error + int64) \<times> int64 list" where
  "HashBucket hash jump key buckets previousBuckets =
     (let n = int (length previousBuckets)
      in if n \<ge> buckets then (Inl (Errorf ''No more buckets left''), previousBuckets)
         else case hash \<lparr>Key = key, Attempt = n\<rparr> of
                Inl err \<Rightarrow> (Inl (Wrapf ''error calculating hash of key'' err), previousBuckets)
              | Inr h \<Rightarrow>
                  let bucket = jump h (buckets - n);
                      previousBuckets' = sort previousBuckets
                  in (Inr (skip_previous bucket previousBuckets'), previousBuckets'))"

text \<open>
  What the program relies on of the jump hash: for a positive number of buckets (of the
  32 bits the function returns) it chooses one of them.
\<close>

definition jump_in_range :: "jump_hash \<Rightarrow> bool" where
  "jump_in_range jump \<longleftrightarrow> (\<forall>h n. 0 < n \<and> n < 2 ^ 31 \<longrightarrow> 0 \<le> jump h n \<and> jump h n < n)"

text \<open>The structural hash is computed for every key, as it is for the keys the program hashes.\<close>

definition hash_total :: "'k structure_hash \<Rightarrow> bool" where
  "hash_total hash \<longleftrightarrow> (\<forall>k. \<exists>x. hash k = Inr x)"

text \<open>The buckets a caller has tried and the number of buckets fit together.\<close>

definition valid_previous :: "int64 \<Rightarrow> int64 list \<Rightarrow> bool" where
  "valid_previous buckets prevs \<longleftrightarrow>
     0 < buckets \<and> buckets < 2 ^ 31 \<and> distinct prevs \<and> (\<forall>p \<in> set prevs. 0 \<le> p \<and> p < buckets) \<and>
     int (length prevs) < buckets"

section \<open>Skipping finds the n-th free bucket\<close>

lemma skip_previous_below: "\<forall>q \<in> set ps. b < q \<Longrightarrow> skip_previous b ps = b"
  by (induction ps) auto

lemma skip_previous_counts:
  assumes "sorted ps" "distinct ps" "0 \<le> b" "b + int (length ps) < 2 ^ 63"
  shows "b \<le> skip_previous b ps \<and> skip_previous b ps \<notin> set ps \<and>
     skip_previous b ps = b + int (length (filter (\<lambda>p. p < skip_previous b ps) ps))"
  using assms
proof (induction ps arbitrary: b)
  case Nil
  then show ?case by simp
next
  case (Cons p ps)
  show ?case
  proof (cases "b \<ge> p")
    case True
    have "wrap64 (b + 1) = b + 1" using Cons.prems by (intro wrap64_nonneg) auto
    moreover have "b + 1 \<le> skip_previous (b + 1) ps \<and> skip_previous (b + 1) ps \<notin> set ps \<and>
        skip_previous (b + 1) ps =
          b + 1 + int (length (filter (\<lambda>p. p < skip_previous (b + 1) ps) ps))"
      using Cons.prems by (intro Cons.IH) auto
    ultimately show ?thesis using True by auto
  next
    case False
    then have above: "\<forall>q \<in> set ps. b < q" using Cons.prems(1) by auto
    then have "filter (\<lambda>p. p < b) ps = []" by (auto simp: filter_empty_conv)
    with False above show ?thesis by (auto simp: skip_previous_below)
  qed
qed

text \<open>The buckets that are still free, in increasing order.\<close>

definition free_buckets :: "int64 \<Rightarrow> int64 list \<Rightarrow> int64 list" where
  "free_buckets buckets prevs = filter (\<lambda>i. i \<notin> set prevs) [0..buckets - 1]"

lemma length_filter_below:
  assumes "distinct ps" "\<forall>p \<in> set ps. 0 \<le> p" "0 \<le> r"
  shows "length (filter (\<lambda>i. i \<notin> set ps) [0..r - 1]) + length (filter (\<lambda>p. p < r) ps) = nat r"
proof -
  have "set (filter (\<lambda>i. i \<in> set ps) [0..r - 1]) = set (filter (\<lambda>p. p < r) ps)"
    using assms by auto
  moreover have "distinct (filter (\<lambda>i. i \<in> set ps) [0..r - 1])" "distinct (filter (\<lambda>p. p < r) ps)"
    using assms by auto
  ultimately have "length (filter (\<lambda>p. p < r) ps) = length (filter (\<lambda>i. i \<in> set ps) [0..r - 1])"
    by (metis distinct_card)
  then show ?thesis
    using sum_length_filter_compl [of "\<lambda>i. i \<in> set ps" "[0..r - 1]"] by simp
qed

lemma free_buckets_nth:
  assumes "0 \<le> r" "r < buckets" "r \<notin> set ps"
  shows "free_buckets buckets ps ! length (filter (\<lambda>i. i \<notin> set ps) [0..r - 1]) = r"
proof -
  have "[0..buckets - 1] = [0..r - 1] @ [r..buckets - 1]"
    using assms upto_split1 [of 0 r "buckets - 1"] by simp
  moreover have "[r..buckets - 1] = r # [r + 1..buckets - 1]"
    using assms by (simp add: upto_rec1)
  ultimately show ?thesis using assms(3) by (simp add: free_buckets_def)
qed

lemma length_free_buckets:
  assumes "valid_previous buckets prevs"
  shows "length (free_buckets buckets prevs) = nat buckets - length prevs"
proof -
  have "filter (\<lambda>p. p < buckets) prevs = prevs"
    using assms by (simp add: valid_previous_def)
  then show ?thesis
    using length_filter_below [of prevs buckets] assms
    by (simp add: free_buckets_def valid_previous_def)
qed

lemma skip_previous_is_nth_free:
  assumes v: "valid_previous buckets prevs" and b: "0 \<le> b" "b < buckets - int (length prevs)"
  shows "skip_previous b (sort prevs) = free_buckets buckets prevs ! nat b"
proof -
  let ?r = "skip_previous b (sort prevs)"
  have c: "b \<le> ?r \<and> ?r \<notin> set (sort prevs) \<and>
      ?r = b + int (length (filter (\<lambda>p. p < ?r) (sort prevs)))"
    using v b by (intro skip_previous_counts) (auto simp: valid_previous_def)
  have "length (filter (\<lambda>p. p < ?r) (sort prevs)) \<le> length prevs"
    by (metis length_filter_le length_sort)
  with c b have lt: "?r < buckets" by linarith
  have "length (filter (\<lambda>i. i \<notin> set (sort prevs)) [0..?r - 1]) +
      length (filter (\<lambda>p. p < ?r) (sort prevs)) = nat ?r"
    using v b c by (intro length_filter_below) (auto simp: valid_previous_def)
  with c b have "length (filter (\<lambda>i. i \<notin> set (sort prevs)) [0..?r - 1]) = nat b" by linarith
  then have "length (filter (\<lambda>i. i \<notin> set prevs) [0..?r - 1]) = nat b" by simp
  with free_buckets_nth [of ?r buckets prevs] lt b c show ?thesis by simp
qed

section \<open>The choice of a bucket\<close>

lemma HashBucket_free:
  assumes "jump_in_range jump" "valid_previous buckets prevs"
    and "hash \<lparr>Key = key, Attempt = int (length prevs)\<rparr> = Inr h"
  shows "HashBucket hash jump key buckets prevs =
     (Inr (free_buckets buckets prevs ! nat (jump h (buckets - int (length prevs)))), sort prevs)"
proof -
  have r: "0 < buckets - int (length prevs)" "buckets - int (length prevs) < 2 ^ 31"
    using assms(2) by (auto simp: valid_previous_def)
  have "0 \<le> jump h (buckets - int (length prevs)) \<and>
      jump h (buckets - int (length prevs)) < buckets - int (length prevs)"
    using assms(1) r unfolding jump_in_range_def by blast
  then show ?thesis
    using assms r skip_previous_is_nth_free [OF assms(2)]
    by (simp add: HashBucket_def Let_def)
qed

lemma HashBucket_avoids:
  assumes "jump_in_range jump" "valid_previous buckets prevs"
    and "HashBucket hash jump key buckets prevs = (Inr b, prevs')"
  shows "0 \<le> b \<and> b < buckets \<and> b \<notin> set prevs"
proof -
  have n: "int (length prevs) < buckets" using assms(2) by (simp add: valid_previous_def)
  then obtain h where h: "hash \<lparr>Key = key, Attempt = int (length prevs)\<rparr> = Inr h"
    using assms(3) by (auto simp: HashBucket_def Let_def split: sum.splits)
  let ?j = "jump h (buckets - int (length prevs))"
  have "0 \<le> ?j \<and> ?j < buckets - int (length prevs)"
    using assms(1,2) n unfolding jump_in_range_def valid_previous_def by auto
  then have "nat ?j < length (free_buckets buckets prevs)"
    using length_free_buckets [OF assms(2)] n by auto
  then have "free_buckets buckets prevs ! nat ?j \<in> set (free_buckets buckets prevs)" by simp
  then show ?thesis
    using HashBucket_free [OF assms(1,2), of hash key h] h assms(3) by (auto simp: free_buckets_def)
qed

text \<open>With every bucket tried, or none configured, the call reports it and changes nothing.\<close>

lemma HashBucket_exhausted:
  "buckets \<le> int (length prevs) \<Longrightarrow>
     HashBucket hash jump key buckets prevs = (Inl (Errorf ''No more buckets left''), prevs)"
  by (simp add: HashBucket_def)

section \<open>Retrying with every bucket tried so far\<close>

text \<open>The buckets of \<open>n\<close> attempts, each of which is told all earlier ones.\<close>

fun attempts :: "'k structure_hash \<Rightarrow> jump_hash \<Rightarrow> 'k \<Rightarrow> int64 \<Rightarrow> nat \<Rightarrow> (go_error + int64 list)" where
  "attempts hash jump key buckets 0 = Inr []"
| "attempts hash jump key buckets (Suc n) =
     (case attempts hash jump key buckets n of
        Inl e \<Rightarrow> Inl e
      | Inr prevs \<Rightarrow>
          (case fst (HashBucket hash jump key buckets prevs) of
             Inl e \<Rightarrow> Inl e
           | Inr b \<Rightarrow> Inr (prevs @ [b])))"

lemma attempts_distinct:
  assumes j: "jump_in_range jump" and h: "hash_total hash"
    and "0 < buckets" "buckets < 2 ^ 31" "int n \<le> buckets"
  shows "\<exists>bs. attempts hash jump key buckets n = Inr bs \<and> length bs = n \<and> distinct bs \<and>
     set bs \<subseteq> {0..<buckets}"
  using assms(5)
proof (induction n)
  case 0
  then show ?case by simp
next
  case (Suc n)
  then obtain bs where bs: "attempts hash jump key buckets n = Inr bs" "length bs = n" "distinct bs"
    "set bs \<subseteq> {0..<buckets}" by auto
  have v: "valid_previous buckets bs"
    using assms(3,4) Suc.prems bs by (auto simp: valid_previous_def)
  obtain x where x: "hash \<lparr>Key = key, Attempt = int (length bs)\<rparr> = Inr x"
    using h unfolding hash_total_def by blast
  obtain b where b: "HashBucket hash jump key buckets bs = (Inr b, sort bs)"
    using HashBucket_free [OF j v, of hash key x] x by blast
  from HashBucket_avoids [OF j v b] bs b show ?case by auto
qed

text \<open>As many attempts as there are buckets try every one of them.\<close>

lemma attempts_exhaustive:
  assumes "jump_in_range jump" "hash_total hash" "0 < buckets" "buckets < 2 ^ 31"
  shows "\<exists>bs. attempts hash jump key buckets (nat buckets) = Inr bs \<and> distinct bs \<and>
     set bs = {0..<buckets}"
proof -
  obtain bs where bs: "attempts hash jump key buckets (nat buckets) = Inr bs"
    "length bs = nat buckets" "distinct bs" "set bs \<subseteq> {0..<buckets}"
    using attempts_distinct [where key = key and n = "nat buckets", OF assms] assms(3) by auto
  have "card (set bs) = card {0..<buckets}"
    using bs(2) distinct_card [OF bs(3)] by simp
  then have "set bs = {0..<buckets}" using bs(4) by (simp add: card_subset_eq)
  with bs show ?thesis by blast
qed

section \<open>Properties\<close>

text \<open>C15. The bucket of a retry is the n-th of the buckets not tried before, in increasing order,
  where n is the choice of the jump hash among as many buckets as are still free; so it lies
  in range and was never tried.\<close>

theorem bucket_is_nth_free:
  assumes "jump_in_range jump" "valid_previous buckets prevs"
    and "hash \<lparr>Key = key, Attempt = int (length prevs)\<rparr> = Inr h"
  shows "\<exists>b. HashBucket hash jump key buckets prevs = (Inr b, sort prevs) \<and>
     b = free_buckets buckets prevs ! nat (jump h (buckets - int (length prevs))) \<and>
     0 \<le> b \<and> b < buckets \<and> b \<notin> set prevs"
proof -
  let ?b = "free_buckets buckets prevs ! nat (jump h (buckets - int (length prevs)))"
  have "HashBucket hash jump key buckets prevs = (Inr ?b, sort prevs)"
    using HashBucket_free [OF assms(1,2), of hash key h] assms(3) by blast
  with HashBucket_avoids [OF assms(1,2) this] show ?thesis by blast
qed

theorem bucket_is_nth_free_witness:
  "\<exists>b. HashBucket (\<lambda>_. Inr 5) (\<lambda>h n. uint h mod n) ''key'' 4 [2, 0] = (Inr b, sort [2, 0]) \<and>
     b = free_buckets 4 [2, 0] ! nat (uint (5 :: 64 word) mod (4 - int (length [2, 0 :: int64]))) \<and>
     0 \<le> b \<and> b < 4 \<and> b \<notin> set [2, 0]"
  by (rule bucket_is_nth_free [of "\<lambda>h n. uint h mod n" 4 "[2, 0]" "\<lambda>_. Inr 5" "''key''" 5])
     (simp_all add: jump_in_range_def valid_previous_def)

text \<open>Retrying with every bucket tried so far tries all buckets, each once, before the call
  reports that none is left.\<close>

theorem bucket_retries_exhaust:
  assumes "jump_in_range jump" "hash_total hash" "0 < buckets" "buckets < 2 ^ 31"
  shows "\<exists>bs. attempts hash jump key buckets (nat buckets) = Inr bs \<and> distinct bs \<and>
     set bs = {0..<buckets} \<and>
     HashBucket hash jump key buckets bs = (Inl (Errorf ''No more buckets left''), bs)"
proof -
  obtain bs where bs: "attempts hash jump key buckets (nat buckets) = Inr bs" "distinct bs"
    "set bs = {0..<buckets}" using attempts_exhaustive [OF assms, where key = key] by blast
  then have "buckets \<le> int (length bs)" using distinct_card [OF bs(2)] by simp
  with bs show ?thesis by (intro exI [of _ bs]) (simp add: HashBucket_exhausted)
qed

theorem bucket_retries_exhaust_witness:
  "\<exists>bs. attempts (\<lambda>k. Inr (word_of_int (Attempt k + 1))) (\<lambda>h n. uint h mod n) ''key'' 3 (nat 3) = Inr bs \<and>
     distinct bs \<and> set bs = {0..<3} \<and>
     HashBucket (\<lambda>k. Inr (word_of_int (Attempt k + 1))) (\<lambda>h n. uint h mod n) ''key'' 3 bs =
       (Inl (Errorf ''No more buckets left''), bs)"
  by (rule bucket_retries_exhaust) (simp_all add: jump_in_range_def hash_total_def)

end
