(* ===== verification/Consistent_Hashing_Mode.thy ===== *)
theory Consistent_Hashing_Mode
  imports Buffer_Mode Consistent_Hash
begin

text \<open>
  Model of pkg/download/consistent_hashing.go: files from cacheable prefixes are cut into
  slices, each slice is assigned to a cache node by consistent hashing, and the chunks of a
  slice are requested from its node. A node that cannot answer is replaced by a second one,
  and then by the fallback strategy, for a chunk or for the whole file.
\<close>

section \<open>The mode\<close>

record chMode =
  ch_Client :: RPGetHTTPClient
  ch_opts :: download_options
  FallbackStrategy :: bufferMode

record CacheKey =
  ck_URL :: URL
  ck_Slice :: int64

definition ch_chunkSize :: "chMode \<Rightarrow> int64" where
  "ch_chunkSize m =
     (let c = (if ChunkSize (ch_opts m) = 0 then defaultChunkSize else ChunkSize (ch_opts m))
      in if c > SliceSize (ch_opts m) then SliceSize (ch_opts m) else c)"

text \<open>The fallback strategy gets none of the options on caching and shares the queue.\<close>

definition GetConsistentHashingMode ::
  "(string \<times> string) list \<Rightarrow> int64 \<Rightarrow> download_options \<Rightarrow> go_error + chMode \<times> 'a priorityWorkQueue" where
  "GetConsistentHashingMode configuredHeaders numCPU opts =
     (if SliceSize opts = 0
      then Inl (Errorf ''must specify slice size in consistent hashing mode'')
      else let client = NewHTTPClient configuredHeaders (Client opts);
               fallbackStrategy = \<lparr>bm_Client = client,
                 bm_opts = \<lparr>MaxConcurrency = MaxConcurrency opts, SliceSize = 0,
                 ChunkSize = ChunkSize opts, Client = Client opts, CacheableURIPrefixes = Map.empty, CacheUsePathProxy = False,
                 CacheHosts = None, ForceCachePrefixRewrite = False\<rparr>, redirected = False\<rparr>;
               m = \<lparr>ch_Client = client, ch_opts = opts, FallbackStrategy = fallbackStrategy\<rparr>
           in Inr (m, newWorkQueue (maxConcurrency numCPU opts) (ch_chunkSize m)))"

definition ch_getFileSizeFromResponse :: "http_response \<Rightarrow> go_error + int64" where
  "ch_getFileSizeFromResponse resp =
     (if StatusCode resp = 200
      then getFileSizeFromContentLength (header_get (resp_Header resp) ''Content-Length'')
      else getFileSizeFromContentRange (header_get (resp_Header resp) ''Content-Range''))"

definition cache_hosts :: "chMode \<Rightarrow> string list" where
  "cache_hosts m = (case CacheHosts (ch_opts m) of None \<Rightarrow> [] | Some hs \<Rightarrow> hs)"

section \<open>Requests to a cache node\<close>

text \<open>
  \<open>rewriteRequestToCacheHost\<close>: the index of the node, the error and the request as the call
  leaves it; Go would panic on a slice size of zero or an index out of range.
\<close>

definition rewriteRequestToCacheHost ::
  "'w net_env \<Rightarrow> CacheKey structure_hash \<Rightarrow> jump_hash \<Rightarrow> chMode \<Rightarrow> http_request \<Rightarrow> int64 \<Rightarrow> int64 \<Rightarrow>
     int64 list \<Rightarrow> (int64 \<times> go_error option \<times> http_request) outcome" where
  "rewriteRequestToCacheHost env hash jump m req start fin previousPodIndexes =
     (let slsz = SliceSize (ch_opts m); hosts = cache_hosts m
      in if slsz = 0 then Panic ''integer divide by zero''
         else if start sdiv slsz \<noteq> fin sdiv slsz
         then Ret (0, Some (Errorf (''Internal error: can't make a range request across a slice boundary: '' @
                int_dec start @ ''-'' @ int_dec fin)), req)
         else
           (case fst (HashBucket hash jump \<lparr>ck_URL = req_URL req, ck_Slice = start sdiv slsz\<rparr>
                        (int (length hosts)) previousPodIndexes) of
              Inl err \<Rightarrow> Ret (- 1, Some err, req)
            | Inr cachePodIndex \<Rightarrow>
                (case (if CacheUsePathProxy (ch_opts m)
                       then map_sum id (\<lambda>newPath. req\<lparr>req_URL := (req_URL req)\<lparr>url_Path := ''/'' @ newPath\<rparr>\<rparr>)
                              (url_JoinPath env (strings_ToLower env (url_Host (req_URL req)))
                                 (url_Path (req_URL req)))
                       else Inr req) of
                   Inl err \<Rightarrow> Ret (- 1, Some err, req)
                 | Inr req1 \<Rightarrow>
                     if cachePodIndex < 0 \<or> cachePodIndex \<ge> int (length hosts)
                     then Panic ''index out of range''
                     else let cacheHost = hosts ! nat cachePodIndex
                     in if cacheHost = ''''
                        then Ret (cachePodIndex, Some (Sentinel ErrStrategyFallback), req1)
                        else Ret (cachePodIndex, None,
                               req1\<lparr>req_URL := (req_URL req1)\<lparr>url_Scheme := ''http'', url_Host := cacheHost\<rparr>\<rparr>))))"

text \<open>
  \<open>doRequestToCacheHost\<close>: the answer, the index of the node, and the request as the call
  leaves it.
\<close>

definition doRequestToCacheHost ::
  "'w net_env \<Rightarrow> CacheKey structure_hash \<Rightarrow> jump_hash \<Rightarrow> chMode \<Rightarrow> http_request \<Rightarrow> int64 \<Rightarrow> int64 \<Rightarrow>
     int64 list \<Rightarrow> 'w \<Rightarrow> ((go_error + http_response) \<times> int64 \<times> http_request) outcome \<times> 'w" where
  "doRequestToCacheHost env hash jump m req start fin previousPodIndexes w =
     (case rewriteRequestToCacheHost env hash jump m req start fin previousPodIndexes of
        Panic msg \<Rightarrow> (Panic msg, w)
      | Ret (cachePodIndex, Some err, req') \<Rightarrow> (Ret (Inl err, cachePodIndex, req'), w)
      | Ret (cachePodIndex, None, req') \<Rightarrow>
          let req'' = req'\<lparr>req_Header := header_set (req_Header req') ''Range'' (range_header start fin)\<rparr>
          in case client_Do env w req'' of (answer, w') \<Rightarrow> (Ret (answer, cachePodIndex, req''), w'))"

text \<open>
  \<open>DoRequest\<close>: a fallback error of the first node leads to a second node; if that fails too, the
  first error is returned, so that the caller can use the fallback strategy. When the request
  cannot even be built, the code prints the URL of the nil request, which panics.
\<close>

definition ch_DoRequest ::
  "'w net_env \<Rightarrow> CacheKey structure_hash \<Rightarrow> jump_hash \<Rightarrow> chMode \<Rightarrow> go_ctx \<Rightarrow> int64 \<Rightarrow> int64 \<Rightarrow> string \<Rightarrow>
     'w \<Rightarrow> (go_error + http_response) outcome \<times> 'w" where
  "ch_DoRequest env hash jump m ctx start fin urlString w =
     (let chContext = ctx\<lparr>ctx_ConsistentHashing := Some True\<rparr>;
          check = (\<lambda>req resp. if bad_status resp
             then Inl (Wrapf (url_String env (req_URL req) @ '': '' @ Status resp)
                    (Sentinel ErrUnexpectedHTTPStatus))
             else Inr resp)
      in case new_request (url_parse env) chContext urlString of
           Inl _ \<Rightarrow> (Panic ''nil pointer dereference'', w)
         | Inr req \<Rightarrow>
             (case doRequestToCacheHost env hash jump m req start fin [] w of
                (Panic msg, w1) \<Rightarrow> (Panic msg, w1)
              | (Ret (Inr resp, _, req1), w1) \<Rightarrow> (Ret (check req1 resp), w1)
              | (Ret (Inl err, cachePodIndex, req1), w1) \<Rightarrow>
                  if errors_is err ErrStrategyFallback
                  then (case doRequestToCacheHost env hash jump m req start fin [cachePodIndex] w1 of
                          (Panic msg, w2) \<Rightarrow> (Panic msg, w2)
                        | (Ret (Inl _, _, _), w2) \<Rightarrow> (Ret (Inl err), w2)
                        | (Ret (Inr resp, _, _), w2) \<Rightarrow> (Ret (check req1 resp), w2))
                  else (Ret (Inl (Wrapf (''error executing request for '' @ url_String env (req_URL req1)) err)), w1)))"

section \<open>Slices and chunks\<close>

definition totalSlices :: "chMode \<Rightarrow> int64 \<Rightarrow> int64" where
  "totalSlices m fileSize =
     (let n = fileSize sdiv SliceSize (ch_opts m)
      in if fileSize smod SliceSize (ch_opts m) \<noteq> 0 then wrap64 (n + 1) else n)"

text \<open>The number of chunks of a slice; the last slice may be shorter than the others.\<close>

definition slice_chunks :: "chMode \<Rightarrow> int64 \<Rightarrow> int64 \<Rightarrow> int64" where
  "slice_chunks m fileSize s =
     (let sliceSize = (if s = wrap64 (totalSlices m fileSize - 1)
             then wrap64 (wrap64 (fileSize - 1) smod SliceSize (ch_opts m) + 1)
             else SliceSize (ch_opts m))
      in wrap64 (wrap64 (sliceSize - 1) sdiv ch_chunkSize m + 1))"

text \<open>The range of chunk \<open>i\<close> of a slice, cut off at the end of the slice.\<close>

definition ch_chunk_range :: "chMode \<Rightarrow> int64 \<Rightarrow> int64 \<Rightarrow> int64 \<times> int64" where
  "ch_chunk_range m s i =
     (let sliceStart = wrap64 (SliceSize (ch_opts m) * s);
          sliceEnd = wrap64 (wrap64 (SliceSize (ch_opts m) * wrap64 (s + 1)) - 1);
          chunkStart = wrap64 (sliceStart + wrap64 (i * ch_chunkSize m));
          chunkEnd = wrap64 (wrap64 (chunkStart + ch_chunkSize m) - 1)
      in (chunkStart, if chunkEnd > sliceEnd then sliceEnd else chunkEnd))"

text \<open>The slice and the number of every chunk, in reading order.\<close>

definition slices :: "chMode \<Rightarrow> int64 \<Rightarrow> (int64 \<times> int64) list" where
  "slices m fileSize =
     concat (map (\<lambda>s. map (\<lambda>i. (int s, int i)) [0..<nat (slice_chunks m fileSize (int s))])
       [0..<nat (totalSlices m fileSize)])"

section \<open>Fetch\<close>

definition shouldContinue :: "chMode \<Rightarrow> URL \<Rightarrow> bool" where
  "shouldContinue m parsed =
     (case CacheableURIPrefixes (ch_opts m) (url_Host parsed) of
        None \<Rightarrow> False
      | Some prefixes \<Rightarrow> prefix_matches prefixes parsed)"

text \<open>A job of \<open>downloadRemainingChunks\<close>: one chunk, with the fallback for that chunk.\<close>

definition ch_chunk_job ::
  "'w net_env \<Rightarrow> CacheKey structure_hash \<Rightarrow> jump_hash \<Rightarrow> chMode \<Rightarrow> go_ctx \<Rightarrow> string \<Rightarrow> int64 \<times> int64 \<Rightarrow>
     byte list \<Rightarrow> 'w \<Rightarrow> delivery" where
  "ch_chunk_job env hash jump m ctx urlString rng buf w =
     (case ch_DoRequest env hash jump m ctx (fst rng) (snd rng) urlString w of
        (Panic msg, _) \<Rightarrow> Some (Panic msg)
      | (Ret (Inr resp), w1) \<Rightarrow> map_option fst (read_chunk (client_Do env) resp buf w1)
      | (Ret (Inl err), w1) \<Rightarrow>
          (case (if errors_is err ErrStrategyFallback
                 then bm_DoRequest env (FallbackStrategy m) ctx (fst rng) (snd rng) urlString w1
                 else (Inl err, w1)) of
             (Inl err', _) \<Rightarrow> Some (Ret ([], Some err'))
           | (Inr resp, w2) \<Rightarrow> map_option fst (read_chunk (client_Do env) resp buf w2)))"

text \<open>The first request: the size of the file and the response, or an error.\<close>

definition ch_first_request ::
  "'w net_env \<Rightarrow> CacheKey structure_hash \<Rightarrow> jump_hash \<Rightarrow> chMode \<Rightarrow> go_ctx \<Rightarrow> string \<Rightarrow> 'w \<Rightarrow>
     (go_error + int64 \<times> http_response) outcome \<times> 'w" where
  "ch_first_request env hash jump m ctx urlString w =
     (case ch_DoRequest env hash jump m ctx 0 (wrap64 (ch_chunkSize m - 1)) urlString w of
        (Panic msg, w1) \<Rightarrow> (Panic msg, w1)
      | (Ret (Inl err), w1) \<Rightarrow> (Ret (Inl err), w1)
      | (Ret (Inr resp), w1) \<Rightarrow>
          (Ret (map_sum id (\<lambda>fileSize. (fileSize, resp)) (ch_getFileSizeFromResponse resp)), w1))"

definition ch_fallback_Fetch ::
  "'w net_env \<Rightarrow> chMode \<Rightarrow> go_ctx \<Rightarrow> string \<Rightarrow> (nat \<Rightarrow> byte list) \<Rightarrow> (nat \<Rightarrow> 'w) \<Rightarrow>
     (go_error + delivery list \<times> int64) \<times> chMode" where
  "ch_fallback_Fetch env m ctx urlString bufs ws =
     (case bm_Fetch env (FallbackStrategy m) ctx urlString bufs ws of
        (r, fb) \<Rightarrow> (r, m\<lparr>FallbackStrategy := fb\<rparr>))"

text \<open>\<open>Fetch\<close>, with the buffers and worlds of the jobs, and the queue outside of it, as in \<open>bm_Fetch\<close>.\<close>

definition ch_Fetch ::
  "'w net_env \<Rightarrow> CacheKey structure_hash \<Rightarrow> jump_hash \<Rightarrow> chMode \<Rightarrow> go_ctx \<Rightarrow> string \<Rightarrow>
     (nat \<Rightarrow> byte list) \<Rightarrow> (nat \<Rightarrow> 'w) \<Rightarrow> ((go_error + delivery list \<times> int64) \<times> chMode) outcome" where
  "ch_Fetch env hash jump m ctx urlString bufs ws =
     (case url_parse env urlString of
        Inl e \<Rightarrow> Ret (Inl e, m)
      | Inr parsed \<Rightarrow>
          if \<not> shouldContinue m parsed then Ret (ch_fallback_Fetch env m ctx urlString bufs ws)
          else (case ch_first_request env hash jump m ctx urlString (ws 0) of
             (Panic msg, _) \<Rightarrow> Panic msg
           | (Ret (Inl err), w1) \<Rightarrow>
               Ret (if errors_is err ErrStrategyFallback
                    then ch_fallback_Fetch env m ctx urlString bufs (\<lambda>i. ws (Suc i))
                    else (Inl err, m))
           | (Ret (Inr (fileSize, resp)), w1) \<Rightarrow>
               let firstChunk = map_option fst (read_chunk (client_Do env) resp (bufs 0) w1)
               in if fileSize \<le> ch_chunkSize m then Ret (Inr ([firstChunk], fileSize), m)
                  else let chunks = slices m fileSize
                  in Ret (Inr (map (\<lambda>j. if chunks ! j = (0, 0) then firstChunk
                                 else ch_chunk_job env hash jump m ctx urlString
                                        (ch_chunk_range m (fst (chunks ! j)) (snd (chunks ! j))) (bufs j) (ws j))
                               [0..<length chunks], fileSize), m)))"

section \<open>The plan of the strategy\<close>

definition slice_plan :: "chMode \<Rightarrow> int64 \<Rightarrow> nat \<Rightarrow> (int64 \<times> int64) list" where
  "slice_plan m fileSize s =
     map (\<lambda>i. ch_chunk_range m (int s) (int i)) [0..<nat (slice_chunks m fileSize (int s))]"

definition ch_plan :: "chMode \<Rightarrow> int64 \<Rightarrow> (int64 \<times> int64) list" where
  "ch_plan m fileSize =
     (if fileSize \<le> ch_chunkSize m then [(0, wrap64 (ch_chunkSize m - 1))]
      else map (\<lambda>(s, i). ch_chunk_range m s i) (slices m fileSize))"

text \<open>The slice size leaves room for one more slice behind the file, so no end overflows.\<close>

definition ch_valid :: "chMode \<Rightarrow> int64 \<Rightarrow> bool" where
  "ch_valid m fileSize \<longleftrightarrow>
     0 < SliceSize (ch_opts m) \<and> 0 < ch_chunkSize m \<and> 0 < fileSize \<and>
     fileSize + SliceSize (ch_opts m) < 2 ^ 63"

definition slice_len :: "chMode \<Rightarrow> int64 \<Rightarrow> int64 \<Rightarrow> int64" where
  "slice_len m sz s =
     (if s = (sz - 1) div SliceSize (ch_opts m) then (sz - 1) mod SliceSize (ch_opts m) + 1
      else SliceSize (ch_opts m))"

lemma ch_plan_slices:
  "\<not> sz \<le> ch_chunkSize m \<Longrightarrow>
     ch_plan m sz = concat (map (slice_plan m sz) [0..<nat (totalSlices m sz)])"
  by (simp add: ch_plan_def slices_def slice_plan_def [abs_def] map_concat comp_def)

lemma ch_chunkSize_le: "ch_chunkSize m \<le> SliceSize (ch_opts m)"
  by (simp add: ch_chunkSize_def Let_def)

lemma ch_validD:
  assumes "ch_valid m sz"
  shows "0 < SliceSize (ch_opts m)" "0 < ch_chunkSize m" "0 < sz" "sz < 2 ^ 63"
    "SliceSize (ch_opts m) < 2 ^ 63" "ch_chunkSize m \<le> SliceSize (ch_opts m)"
    "sz + SliceSize (ch_opts m) < 2 ^ 63"
  using assms ch_chunkSize_le by (auto simp: ch_valid_def)

lemma div_pred:
  assumes "0 < L"
  shows "(if x mod L \<noteq> 0 then x div L + 1 else x div L) = (x - 1) div L + (1 :: int)"
proof (cases "x mod L = 0")
  case True
  have "x - 1 = L * (x div L - 1) + (L - 1)"
    using mult_div_mod_eq [of L x] True by (simp add: algebra_simps)
  then have "(x - 1) div L = x div L - 1" by (rule int_div_pos_eq) (use assms in simp_all)
  with True show ?thesis by simp
next
  case False
  have "x - 1 = L * (x div L) + (x mod L - 1)" by simp
  moreover have "0 \<le> x mod L - 1" "x mod L - 1 < L"
    using False pos_mod_sign [OF assms, of x] pos_mod_bound [OF assms, of x] by linarith+
  ultimately have "(x - 1) div L = x div L" by (rule int_div_pos_eq)
  with False show ?thesis by simp
qed

lemma int_div_le_self: "0 < L \<Longrightarrow> 0 \<le> x \<Longrightarrow> 0 \<le> x div L \<and> x div L \<le> (x :: int)"
  using pos_imp_zdiv_nonneg_iff [of L x] zdiv_mono2 [of x 1 L] by simp

lemma totalSlices_eq:
  assumes "ch_valid m sz"
  shows "totalSlices m sz = (sz - 1) div SliceSize (ch_opts m) + 1"
proof -
  let ?L = "SliceSize (ch_opts m)"
  note v = ch_validD [OF assms]
  have "0 \<le> (sz - 1) div ?L \<and> (sz - 1) div ?L \<le> sz - 1" using v by (intro int_div_le_self) auto
  then have "wrap64 ((sz - 1) div ?L + 1) = (sz - 1) div ?L + 1" using v by (intro wrap64_nonneg) auto
  then show ?thesis
    using v div_pred [OF v(1), of sz]
    by (simp add: totalSlices_def Let_def sdiv_nonneg smod_nonneg split: if_splits)
qed

lemma slice_bounds:
  assumes v: "ch_valid m sz" and s: "0 \<le> s" "s < totalSlices m sz"
  shows "1 \<le> slice_len m sz s" "slice_len m sz s \<le> SliceSize (ch_opts m)"
    "SliceSize (ch_opts m) * s + slice_len m sz s \<le> sz"
    "s = totalSlices m sz - 1 \<Longrightarrow> SliceSize (ch_opts m) * s + slice_len m sz s = sz"
    "s \<noteq> totalSlices m sz - 1 \<Longrightarrow> slice_len m sz s = SliceSize (ch_opts m)"
    "0 \<le> SliceSize (ch_opts m) * s" "SliceSize (ch_opts m) * (s + 1) < 2 ^ 63"
proof -
  let ?L = "SliceSize (ch_opts m)" and ?q = "(sz - 1) div SliceSize (ch_opts m)"
  note d = ch_validD [OF v] and t = totalSlices_eq [OF v]
  have r: "0 \<le> (sz - 1) mod ?L" "(sz - 1) mod ?L < ?L" using d by simp_all
  have e: "?L * ?q + (sz - 1) mod ?L = sz - 1" by simp
  have below: "?L * (s + 1) \<le> ?L * ?q" if "s \<noteq> ?q"
    using that s t d by (intro mult_left_mono) auto
  have x: "?L * (s + 1) = ?L * s + ?L" by (simp add: algebra_simps)
  consider "slice_len m sz s = (sz - 1) mod ?L + 1" "?L * s = ?L * ?q"
    | "slice_len m sz s = ?L" "?L * (s + 1) \<le> ?L * ?q"
    using below by (cases "s = ?q") (auto simp: slice_len_def)
  then have "1 \<le> slice_len m sz s \<and> slice_len m sz s \<le> ?L \<and> ?L * s + slice_len m sz s \<le> sz"
    by cases (use r d(1) x e in linarith)+
  then show "1 \<le> slice_len m sz s" "slice_len m sz s \<le> ?L" "?L * s + slice_len m sz s \<le> sz"
    by simp_all
  show "s = totalSlices m sz - 1 \<Longrightarrow> ?L * s + slice_len m sz s = sz"
    using t e by (simp add: slice_len_def)
  show "s \<noteq> totalSlices m sz - 1 \<Longrightarrow> slice_len m sz s = ?L" using t by (simp add: slice_len_def)
  show "0 \<le> ?L * s" using d s by simp
  show "?L * (s + 1) < 2 ^ 63"
  proof (cases "s = ?q")
    case True
    then have "?L * s = ?L * ?q" by simp
    then show ?thesis using x e r d(4,7) by linarith
  next
    case False
    then show ?thesis using below [OF False] e r d(4,7) by linarith
  qed
qed

lemma slice_chunks_eq:
  assumes v: "ch_valid m sz" and s: "0 \<le> s" "s < totalSlices m sz"
  shows "slice_chunks m sz s = (slice_len m sz s - 1) div ch_chunkSize m + 1"
proof -
  let ?L = "SliceSize (ch_opts m)" and ?k = "slice_len m sz s"
  note d = ch_validD [OF v] and t = totalSlices_eq [OF v] and b = slice_bounds [OF v s]
  have q: "0 \<le> (sz - 1) div ?L \<and> (sz - 1) div ?L \<le> sz - 1" using d by (intro int_div_le_self) auto
  then have w: "wrap64 (totalSlices m sz - 1) = (sz - 1) div ?L" using d t by (simp add: wrap64_nonneg)
  have r: "0 \<le> (sz - 1) mod ?L" "(sz - 1) mod ?L < ?L" using d by simp_all
  have "wrap64 ((sz - 1) mod ?L + 1) = (sz - 1) mod ?L + 1"
    by (rule wrap64_nonneg) (use r d(5) in linarith)+
  then have k: "(if s = wrap64 (totalSlices m sz - 1) then wrap64 (wrap64 (sz - 1) smod ?L + 1) else ?L) = ?k"
    using d w by (simp add: slice_len_def wrap64_nonneg smod_nonneg)
  have "0 \<le> (?k - 1) div ch_chunkSize m \<and> (?k - 1) div ch_chunkSize m \<le> ?k - 1"
    using d b by (intro int_div_le_self) auto
  then show ?thesis
    using b d by (simp add: slice_chunks_def Let_def k wrap64_nonneg sdiv_nonneg)
qed

lemma chunk_in_slice:
  assumes v: "ch_valid m sz" and s: "0 \<le> s" "s < totalSlices m sz"
    and i: "0 \<le> i" "i < slice_chunks m sz s"
  shows "0 \<le> ch_chunkSize m * i" "ch_chunkSize m * i < slice_len m sz s"
proof -
  have c: "0 < ch_chunkSize m" using v by (simp add: ch_valid_def)
  then show "0 \<le> ch_chunkSize m * i" using i by simp
  have "ch_chunkSize m * i \<le> ch_chunkSize m * ((slice_len m sz s - 1) div ch_chunkSize m)"
    using c i slice_chunks_eq [OF v s] by (intro mult_left_mono) auto
  also have "\<dots> \<le> slice_len m sz s - 1" using c by (rule int_mult_div_le)
  finally show "ch_chunkSize m * i < slice_len m sz s" by simp
qed

lemma ch_chunk_range_eq:
  assumes v: "ch_valid m sz" and s: "0 \<le> s" "s < totalSlices m sz"
    and i: "0 \<le> i" "i < slice_chunks m sz s"
  shows "ch_chunk_range m s i =
     (SliceSize (ch_opts m) * s + ch_chunkSize m * i,
      min (SliceSize (ch_opts m) * s + ch_chunkSize m * i + ch_chunkSize m)
          (SliceSize (ch_opts m) * (s + 1)) - 1)"
proof -
  let ?L = "SliceSize (ch_opts m)" and ?c = "ch_chunkSize m"
  note d = ch_validD [OF v] and b = slice_bounds [OF v s] and k = chunk_in_slice [OF v s i]
  have t: "wrap64 (s + 1) = s + 1"
    using s d totalSlices_eq [OF v] int_div_le_self [OF d(1), of "sz - 1"] by (intro wrap64_nonneg) auto
  have "0 < ?L * (s + 1)" using s d by simp
  with b have e: "wrap64 (?L * (s + 1)) = ?L * (s + 1)" "wrap64 (?L * (s + 1) - 1) = ?L * (s + 1) - 1"
    by (auto intro!: wrap64_nonneg)
  have st: "wrap64 (?L * s) = ?L * s" "wrap64 (i * ?c) = ?c * i"
    "wrap64 (?L * s + ?c * i) = ?L * s + ?c * i"
    using b(2,3,6) d k by (auto intro!: wrap64_nonneg simp: mult.commute)
  have "wrap64 (?L * s + ?c * i + ?c) = ?L * s + ?c * i + ?c"
    "wrap64 (?L * s + ?c * i + ?c - 1) = ?L * s + ?c * i + ?c - 1"
    using b(3,6) d k by (auto intro!: wrap64_nonneg)
  then show ?thesis using st t e by (simp add: ch_chunk_range_def Let_def)
qed

text \<open>No chunk crosses the boundary of a slice, so every request belongs to one cache node.\<close>

lemma ch_chunk_range_in_slice:
  assumes v: "ch_valid m sz" and s: "0 \<le> s" "s < totalSlices m sz"
    and i: "0 \<le> i" "i < slice_chunks m sz s" and ab: "ch_chunk_range m s i = (a, b)"
  shows "SliceSize (ch_opts m) * s \<le> a" "a \<le> b" "b < SliceSize (ch_opts m) * (s + 1)" "a < sz"
    "a sdiv SliceSize (ch_opts m) = s" "b sdiv SliceSize (ch_opts m) = s" "b + 1 - a \<le> ch_chunkSize m"
    "in64 b"
proof -
  let ?L = "SliceSize (ch_opts m)" and ?c = "ch_chunkSize m"
  note d = ch_validD [OF v] and n = slice_bounds [OF v s] and k = chunk_in_slice [OF v s i]
  have x: "?L * (s + 1) = ?L * s + ?L" by (simp add: algebra_simps)
  have e: "a = ?L * s + ?c * i" "b = min (?L * s + ?c * i + ?c) (?L * (s + 1)) - 1"
    using ch_chunk_range_eq [OF v s i] ab by simp_all
  show 1: "?L * s \<le> a" "a \<le> b" "b < ?L * (s + 1)" "a < sz" "b + 1 - a \<le> ?c"
    using e x k d n by auto
  have "y div ?L = s" if "?L * s \<le> y" "y < ?L * (s + 1)" for y
    by (rule int_div_pos_eq [of y ?L s "y - ?L * s"]) (use that x in linarith)+
  then have "a div ?L = s" "b div ?L = s" using 1 by auto
  then show "a sdiv ?L = s" "b sdiv ?L = s" using 1 n(6) d by (simp_all add: sdiv_nonneg)
  show "in64 b" using 1 n d by (simp add: in64_def)
qed

section \<open>The chunks of the slices tile the file\<close>

text \<open>Chunks of length \<open>c\<close> cut off at the end of a slice of length \<open>L\<close> that starts at \<open>p\<close>.\<close>

lemma cut_chunks_chain:
  assumes "j < n" "0 < c" "c * (int n - 1) < L"
  shows "chain (p + c * int j)
     (map (\<lambda>i. (p + c * int i, min (p + c * int i + c) (p + L) - 1)) [j..<n])
     (min (p + c * int n) (p + L))"
  using assms(1)
proof (induction "n - j" arbitrary: j)
  case 0
  then show ?case by simp
next
  case (Suc k)
  have lt: "c * int j < L"
    using Suc.prems assms(2,3) mult_left_mono [of "int j" "int n - 1" c] by linarith
  have x: "c * int (Suc j) = c * int j + c" by (simp add: algebra_simps)
  show ?case
  proof (cases "Suc j = n")
    case True
    then show ?thesis using lt assms(2) x by (simp add: upt_conv_Cons del: of_nat_Suc)
  next
    case False
    with Suc.prems have jn: "Suc j < n" by simp
    then have "c * int (Suc j) < L"
      using assms(2,3) mult_left_mono [of "int (Suc j)" "int n - 1" c] by linarith
    then have "min (p + c * int j + c) (p + L) = p + c * int (Suc j)" using x by simp
    moreover have "chain (p + c * int (Suc j))
       (map (\<lambda>i. (p + c * int i, min (p + c * int i + c) (p + L) - 1)) [Suc j..<n])
       (min (p + c * int n) (p + L))"
      using Suc jn by (intro Suc.hyps(1)) auto
    ultimately show ?thesis
      using Suc.prems x assms(2) by (simp add: upt_conv_Cons del: of_nat_Suc)
  qed
qed

lemma slice_plan_chain:
  assumes v: "ch_valid m sz" and s: "s < nat (totalSlices m sz)"
  obtains fin where "chain (SliceSize (ch_opts m) * int s) (slice_plan m sz s) fin"
    "Suc s < nat (totalSlices m sz) \<Longrightarrow> fin = SliceSize (ch_opts m) * int (Suc s)"
    "Suc s = nat (totalSlices m sz) \<Longrightarrow> sz \<le> fin"
proof -
  let ?L = "SliceSize (ch_opts m)" and ?c = "ch_chunkSize m" and ?k = "slice_len m sz (int s)"
    and ?n = "slice_chunks m sz (int s)" and ?p = "SliceSize (ch_opts m) * int s"
  let ?fin = "min (?p + ?c * ?n) (?p + ?L)"
  have s': "0 \<le> int s" "int s < totalSlices m sz" using s by auto
  note d = ch_validD [OF v] and b = slice_bounds [OF v s'] and n = slice_chunks_eq [OF v s']
  have kn: "?k \<le> ?c * ?n" using int_less_mult_div [OF d(2), of "?k - 1"] n by (simp add: algebra_simps)
  have n1: "?c * (?n - 1) < ?L" using int_mult_div_le [OF d(2), of "?k - 1"] n b(2) by simp
  have n0: "0 < ?n" using n int_div_le_self [OF d(2), of "?k - 1"] b(1) by simp
  have e: "?L * (int s + 1) = ?p + ?L" by (simp add: algebra_simps)
  have "slice_plan m sz s =
      map (\<lambda>i. (?p + ?c * int i, min (?p + ?c * int i + ?c) (?p + ?L) - 1)) [0..<nat ?n]"
    unfolding slice_plan_def using ch_chunk_range_eq [OF v s'] by (intro map_cong) (auto simp: e)
  then have "chain ?p (slice_plan m sz s) ?fin"
    using cut_chunks_chain [of 0 "nat ?n" ?c ?L ?p] n0 n1 d by simp
  moreover have "?fin = ?L * int (Suc s)" if "Suc s < nat (totalSlices m sz)"
  proof -
    have "int s \<noteq> totalSlices m sz - 1" using that by linarith
    from b(5) [OF this] show ?thesis using kn e by (simp add: add.commute)
  qed
  moreover have "sz \<le> ?fin" if "Suc s = nat (totalSlices m sz)"
  proof -
    have "?p + ?k = sz" using that by (intro b(4)) linarith
    then show ?thesis using kn b(2) by linarith
  qed
  ultimately show thesis using that by blast
qed

lemma slices_tile:
  assumes v: "ch_valid m sz" and t: "t < nat (totalSlices m sz)"
  shows "tiles (SliceSize (ch_opts m) * int t)
     (concat (map (slice_plan m sz) [t..<nat (totalSlices m sz)])) sz"
  using t
proof (induction "nat (totalSlices m sz) - t" arbitrary: t)
  case 0
  then show ?case by simp
next
  case (Suc k)
  let ?T = "nat (totalSlices m sz)"
  obtain fin where c: "chain (SliceSize (ch_opts m) * int t) (slice_plan m sz t) fin"
    "Suc t < ?T \<Longrightarrow> fin = SliceSize (ch_opts m) * int (Suc t)" "Suc t = ?T \<Longrightarrow> sz \<le> fin"
    using slice_plan_chain [OF v Suc.prems] by blast
  have inside: "\<forall>(a, b) \<in> set (slice_plan m sz t). a < sz"
  proof -
    have "0 \<le> int t" "int t < totalSlices m sz" using Suc.prems by auto
    note in_slice = ch_chunk_range_in_slice(4) [OF v this]
    have "a < sz" if "ch_chunk_range m (int t) (int i) = (a, b)" "i < nat (slice_chunks m sz (int t))" for i a b
      using that by (intro in_slice [of "int i"]) auto
    then show ?thesis by (auto simp: slice_plan_def)
  qed
  have "tiles fin (concat (map (slice_plan m sz) [Suc t..<?T])) sz"
  proof (cases "Suc t = ?T")
    case True
    with c show ?thesis by simp
  next
    case False
    then have t: "Suc t < ?T" using Suc.prems by simp
    have "tiles (SliceSize (ch_opts m) * int (Suc t)) (concat (map (slice_plan m sz) [Suc t..<?T])) sz"
      using Suc.hyps(2) t by (intro Suc.hyps(1)) auto
    with c(2) [OF t] show ?thesis by simp
  qed
  from tiles_append [OF c(1) inside this] show ?case
    using Suc.prems by (simp add: upt_conv_Cons)
qed

lemma totalSlices_pos: "ch_valid m sz \<Longrightarrow> 0 < totalSlices m sz"
  using totalSlices_eq [of m sz] ch_validD [of m sz]
    int_div_le_self [of "SliceSize (ch_opts m)" "sz - 1"] by simp

lemma ch_plan_mem:
  assumes v: "ch_valid m sz" and "\<not> sz \<le> ch_chunkSize m" and ab: "(a, b) \<in> set (ch_plan m sz)"
  obtains s i where "0 \<le> s" "s < totalSlices m sz" "0 \<le> i" "i < slice_chunks m sz s"
    "ch_chunk_range m s i = (a, b)"
proof -
  have "\<exists>s i. s < nat (totalSlices m sz) \<and> i < nat (slice_chunks m sz (int s)) \<and>
      ch_chunk_range m (int s) (int i) = (a, b)"
    using ab assms(2) by (auto simp: ch_plan_slices slice_plan_def) metis
  then obtain s i where "s < nat (totalSlices m sz)" "i < nat (slice_chunks m sz (int s))"
    "ch_chunk_range m (int s) (int i) = (a, b)" by blast
  then show thesis by (intro that [of "int s" "int i"]) auto
qed

lemma ch_plan_tiles:
  assumes "ch_valid m sz"
  shows "tiles 0 (ch_plan m sz) sz"
proof (cases "sz \<le> ch_chunkSize m")
  case True
  with ch_validD [OF assms] show ?thesis by (simp add: ch_plan_def wrap64_nonneg)
next
  case False
  with slices_tile [OF assms, of 0] totalSlices_pos [OF assms] show ?thesis
    by (simp add: ch_plan_slices)
qed

lemma ch_plan_limit:
  assumes v: "ch_valid m sz" and ab: "(a, b) \<in> set (ch_plan m sz)"
  shows "min (b + 1) sz - a \<le> ch_chunkSize m \<and> in64 b"
proof (cases "sz \<le> ch_chunkSize m")
  case True
  with ab ch_validD [OF v] show ?thesis by (auto simp: ch_plan_def wrap64_nonneg in64_def)
next
  case False
  obtain s i where "0 \<le> s" "s < totalSlices m sz" "0 \<le> i" "i < slice_chunks m sz s"
    "ch_chunk_range m s i = (a, b)" using ch_plan_mem [OF v False ab] .
  from ch_chunk_range_in_slice(7,8) [OF v this] show ?thesis by auto
qed

interpretation ch: chunk_plan ch_plan ch_chunkSize ch_valid
  by unfold_locales (auto dest: ch_plan_tiles ch_plan_limit)

text \<open>Every range of the plan lies in one slice, which the request to a cache node requires.\<close>

lemma ch_plan_in_slice:
  assumes v: "ch_valid m sz" and ab: "(a, b) \<in> set (ch_plan m sz)"
  shows "a sdiv SliceSize (ch_opts m) = b sdiv SliceSize (ch_opts m)"
proof (cases "sz \<le> ch_chunkSize m")
  case True
  then have "a = 0" "b = ch_chunkSize m - 1" using ab ch_validD [OF v] by (auto simp: ch_plan_def wrap64_nonneg)
  then show ?thesis using ch_validD [OF v] by (simp add: sdiv_nonneg)
next
  case False
  obtain s i where "0 \<le> s" "s < totalSlices m sz" "0 \<le> i" "i < slice_chunks m sz s"
    "ch_chunk_range m s i = (a, b)" using ch_plan_mem [OF v False ab] .
  from ch_chunk_range_in_slice(5,6) [OF v this] show ?thesis by simp
qed

section \<open>Answers of the cache nodes\<close>

text \<open>A part served by a cache node with its complete body.\<close>

definition node_served :: "byte list \<Rightarrow> int64 \<Rightarrow> int64 \<Rightarrow> http_response \<Rightarrow> bool" where
  "node_served content a b resp \<longleftrightarrow>
     served content a b resp \<and> length (body_data (resp_Body resp)) = part_len content a b"

text \<open>
  What the program expects of its client for requests in a consistent-hashing context: they
  fail with an error that asks for the fallback strategy, or the node serves the range.
\<close>

definition cache_client :: "'w http_client \<Rightarrow> byte list \<Rightarrow> bool" where
  "cache_client client content \<longleftrightarrow>
     (\<forall>w req a b. ctx_ConsistentHashing (req_Ctx req) = Some True \<and>
        header_get (req_Header req) ''Range'' = range_header a b \<and>
        0 \<le> a \<and> a \<le> b \<and> a < int (length content) \<and> in64 b \<longrightarrow>
        (\<exists>ans w'. client w req = (ans, w') \<and>
           (case ans of Inl e \<Rightarrow> errors_is e ErrStrategyFallback
                      | Inr resp \<Rightarrow> node_served content a b resp)))"

text \<open>
  The configuration and the third-party functions that the choice of a node relies on, for the URL
  of a request. The path proxy needs the host and the path of that URL to be joined, which fails
  for some of them, for example for a host with a port; such a request ends with an error.
\<close>

definition cache_ready ::
  "'w net_env \<Rightarrow> CacheKey structure_hash \<Rightarrow> jump_hash \<Rightarrow> chMode \<Rightarrow> URL \<Rightarrow> bool" where
  "cache_ready env hash jump m u \<longleftrightarrow>
     hash_total hash \<and> jump_in_range jump \<and> cache_hosts m \<noteq> [] \<and> int (length (cache_hosts m)) < 2 ^ 31 \<and>
     (CacheUsePathProxy (ch_opts m) \<longrightarrow> (\<exists>q. url_JoinPath env (strings_ToLower env (url_Host u)) (url_Path u) = Inr q)) \<and>
     SliceSize (ch_opts m) \<noteq> 0"

text \<open>The same for the requests of one download, by the text of its URL.\<close>

definition cache_ready_for ::
  "'w net_env \<Rightarrow> CacheKey structure_hash \<Rightarrow> jump_hash \<Rightarrow> chMode \<Rightarrow> string \<Rightarrow> bool" where
  "cache_ready_for env hash jump m urlString \<longleftrightarrow>
     (\<forall>ctx req. new_request (url_parse env) ctx urlString = Inr req \<longrightarrow> cache_ready env hash jump m (req_URL req))"

text \<open>
  A node is always found; it is none of those tried before, and the request goes to it unless
  its entry in the list of hosts is empty.
\<close>

lemma rewriteRequestToCacheHost_cases:
  assumes r: "cache_ready env hash jump m (req_URL req)" and p: "valid_previous (int (length (cache_hosts m))) prevs"
    and sl: "a sdiv SliceSize (ch_opts m) = b sdiv SliceSize (ch_opts m)"
  obtains i e req' where
    "rewriteRequestToCacheHost env hash jump m req a b prevs = Ret (i, e, req')"
    "0 \<le> i" "i < int (length (cache_hosts m))" "i \<notin> set prevs" "req_Ctx req' = req_Ctx req"
    "if cache_hosts m ! nat i = '''' then e = Some (Sentinel ErrStrategyFallback)
     else e = None \<and> url_Host (req_URL req') = cache_hosts m ! nat i \<and> url_Scheme (req_URL req') = ''http''"
proof -
  let ?key = "\<lparr>ck_URL = req_URL req, ck_Slice = a sdiv SliceSize (ch_opts m)\<rparr>"
  note d = r [unfolded cache_ready_def]
  obtain h where h: "hash \<lparr>Key = ?key, Attempt = int (length prevs)\<rparr> = Inr h"
    using d unfolding hash_total_def by blast
  obtain i where i: "HashBucket hash jump ?key (int (length (cache_hosts m))) prevs = (Inr i, sort prevs)"
    using HashBucket_free [of jump _ prevs hash ?key h] d p h by blast
  have b: "0 \<le> i \<and> i < int (length (cache_hosts m)) \<and> i \<notin> set prevs"
    using HashBucket_avoids [OF _ p i] d by blast
  obtain req1 where q: "(if CacheUsePathProxy (ch_opts m)
       then map_sum id (\<lambda>newPath. req\<lparr>req_URL := (req_URL req)\<lparr>url_Path := ''/'' @ newPath\<rparr>\<rparr>)
              (url_JoinPath env (strings_ToLower env (url_Host (req_URL req))) (url_Path (req_URL req)))
       else Inr req) = (Inr req1 :: go_error + http_request)" "req_Ctx req1 = req_Ctx req"
  proof (cases "CacheUsePathProxy (ch_opts m)")
    case True
    then obtain np where
      "url_JoinPath env (strings_ToLower env (url_Host (req_URL req))) (url_Path (req_URL req)) = Inr np"
      using d by blast
    with True that show thesis by simp
  next
    case False
    with that show thesis by simp
  qed
  show thesis
  proof (cases "cache_hosts m ! nat i = ''''")
    case True
    show thesis
      by (rule that [of i "Some (Sentinel ErrStrategyFallback)" req1])
        (use True b i q sl d in \<open>simp_all add: rewriteRequestToCacheHost_def Let_def\<close>)
  next
    case False
    show thesis
      by (rule that [of i None
            "req1\<lparr>req_URL := (req_URL req1)\<lparr>url_Scheme := ''http'', url_Host := cache_hosts m ! nat i\<rparr>\<rparr>"])
        (use False b i q sl d in \<open>simp_all add: rewriteRequestToCacheHost_def Let_def\<close>)
  qed
qed

lemma doRequestToCacheHost_answers:
  assumes r: "cache_ready env hash jump m (req_URL req)" and c: "cache_client (client_Do env) content"
    and p: "valid_previous (int (length (cache_hosts m))) prevs"
    and sl: "a sdiv SliceSize (ch_opts m) = b sdiv SliceSize (ch_opts m)"
    and ab: "0 \<le> a" "a \<le> b" "a < int (length content)" "in64 b"
    and ctx: "ctx_ConsistentHashing (req_Ctx req) = Some True"
  obtains ans i req' w' where
    "doRequestToCacheHost env hash jump m req a b prevs w = (Ret (ans, i, req'), w')"
    "0 \<le> i" "i < int (length (cache_hosts m))"
    "case ans of Inl e \<Rightarrow> errors_is e ErrStrategyFallback | Inr resp \<Rightarrow> node_served content a b resp"
proof -
  obtain i e req' where w: "rewriteRequestToCacheHost env hash jump m req a b prevs = Ret (i, e, req')"
    "0 \<le> i" "i < int (length (cache_hosts m))" "req_Ctx req' = req_Ctx req"
    "e = Some (Sentinel ErrStrategyFallback) \<or> e = None"
    using rewriteRequestToCacheHost_cases [OF r p sl] by (metis (full_types))
  let ?req = "req'\<lparr>req_Header := header_set (req_Header req') ''Range'' (range_header a b)\<rparr>"
  have h: "header_get (req_Header ?req) ''Range'' = range_header a b"
    "ctx_ConsistentHashing (req_Ctx ?req) = Some True" using ctx w(4) by simp_all
  obtain ans w' where a: "client_Do env w ?req = (ans, w')"
    "case ans of Inl e \<Rightarrow> errors_is e ErrStrategyFallback | Inr resp \<Rightarrow> node_served content a b resp"
    using c h ab unfolding cache_client_def by metis
  show thesis
  proof (cases e)
    case None
    with w a show thesis
      by (intro that [of ans i ?req w']) (simp_all add: doRequestToCacheHost_def Let_def)
  next
    case (Some e')
    with w show thesis
      by (intro that [of "Inl e'" i req' w]) (auto simp: doRequestToCacheHost_def)
  qed
qed

lemma node_served_not_bad: "node_served content a b resp \<Longrightarrow> \<not> bad_status resp"
  by (auto simp: node_served_def dest: served_not_bad)

lemma doRequest_exhausted:
  assumes "SliceSize (ch_opts m) \<noteq> 0" "int (length (cache_hosts m)) \<le> int (length prevs)"
    and "a sdiv SliceSize (ch_opts m) = b sdiv SliceSize (ch_opts m)"
  shows "doRequestToCacheHost env hash jump m req a b prevs w =
     (Ret (Inl (Errorf ''No more buckets left''), - 1, req), w)"
  using assms by (simp add: doRequestToCacheHost_def rewriteRequestToCacheHost_def HashBucket_exhausted Let_def)

text \<open>The three ways a request to the cache nodes ends when no node gives another error.\<close>

lemma ch_DoRequest_ways:
  assumes q: "new_request (url_parse env) (ctx\<lparr>ctx_ConsistentHashing := Some True\<rparr>) url = Inr req"
    and 1: "doRequestToCacheHost env hash jump m req a b [] w = (Ret (ans1, i, req1), w1)"
  shows "ans1 = Inr resp \<Longrightarrow> \<not> bad_status resp \<Longrightarrow>
       ch_DoRequest env hash jump m ctx a b url w = (Ret (Inr resp), w1)"
    and "ans1 = Inl e \<Longrightarrow> errors_is e ErrStrategyFallback \<Longrightarrow>
       doRequestToCacheHost env hash jump m req a b [i] w1 = (Ret (Inr resp, j, req2), w2) \<Longrightarrow>
       \<not> bad_status resp \<Longrightarrow> ch_DoRequest env hash jump m ctx a b url w = (Ret (Inr resp), w2)"
    and "ans1 = Inl e \<Longrightarrow> errors_is e ErrStrategyFallback \<Longrightarrow>
       doRequestToCacheHost env hash jump m req a b [i] w1 = (Ret (Inl e', j, req2), w2) \<Longrightarrow>
       ch_DoRequest env hash jump m ctx a b url w = (Ret (Inl e), w2)"
  using q 1 by (simp_all add: ch_DoRequest_def Let_def)

text \<open>The second attempt, on another node if there is one: served, or some error.\<close>

lemma second_attempt_answers:
  assumes r: "cache_ready env hash jump m (req_URL req)" and c: "cache_client (client_Do env) content"
    and sl: "a sdiv SliceSize (ch_opts m) = b sdiv SliceSize (ch_opts m)"
    and ab: "0 \<le> a" "a \<le> b" "a < int (length content)" "in64 b"
    and ctx: "ctx_ConsistentHashing (req_Ctx req) = Some True"
    and i: "0 \<le> i" "i < int (length (cache_hosts m))"
  obtains (served) resp j req' w' where
      "doRequestToCacheHost env hash jump m req a b [i] w = (Ret (Inr resp, j, req'), w')" "node_served content a b resp"
    | (failed) e j req' w' where "doRequestToCacheHost env hash jump m req a b [i] w = (Ret (Inl e, j, req'), w')"
proof (cases "int (length (cache_hosts m)) \<le> 1")
  case True
  have "SliceSize (ch_opts m) \<noteq> 0" using r by (simp add: cache_ready_def)
  with True have "doRequestToCacheHost env hash jump m req a b [i] w =
      (Ret (Inl (Errorf ''No more buckets left''), - 1, req), w)"
    by (intro doRequest_exhausted sl) simp_all
  then show thesis by (rule failed)
next
  case False
  then have v: "valid_previous (int (length (cache_hosts m))) [i]"
    using r i by (simp add: valid_previous_def cache_ready_def)
  obtain ans j req' w' where 2: "doRequestToCacheHost env hash jump m req a b [i] w = (Ret (ans, j, req'), w')"
    and a2: "case ans of Inl e \<Rightarrow> errors_is e ErrStrategyFallback | Inr resp \<Rightarrow> node_served content a b resp"
    by (rule doRequestToCacheHost_answers [OF r c v sl ab ctx])
  show thesis
  proof (cases ans)
    case (Inl e)
    then show thesis using failed 2 by blast
  next
    case (Inr resp)
    then show thesis using served 2 a2 by auto
  qed
qed

text \<open>
  A request to the cache nodes ends with a served range or with an error that leads to the
  fallback strategy, after at most two nodes were tried.
\<close>

lemma ch_DoRequest_answers:
  assumes r: "cache_ready_for env hash jump m url" and c: "cache_client (client_Do env) content"
    and u: "url_parse env url = Inr u"
    and sl: "a sdiv SliceSize (ch_opts m) = b sdiv SliceSize (ch_opts m)"
    and ab: "0 \<le> a" "a \<le> b" "a < int (length content)" "in64 b"
  obtains ans w' where "ch_DoRequest env hash jump m ctx a b url w = (Ret ans, w')"
    "case ans of Inl e \<Rightarrow> errors_is e ErrStrategyFallback | Inr resp \<Rightarrow> node_served content a b resp"
proof -
  let ?ctx = "ctx\<lparr>ctx_ConsistentHashing := Some True\<rparr>" and ?n = "int (length (cache_hosts m))"
  have "\<exists>req. new_request (url_parse env) ?ctx url = Inr req \<and> ctx_ConsistentHashing (req_Ctx req) = Some True"
    using u by (simp add: new_request_def Let_def)
  then obtain req where q: "new_request (url_parse env) ?ctx url = Inr req"
    "ctx_ConsistentHashing (req_Ctx req) = Some True" by blast
  then have rd: "cache_ready env hash jump m (req_URL req)" using r unfolding cache_ready_for_def by blast
  then have nr: "0 < ?n" "?n < 2 ^ 31" "SliceSize (ch_opts m) \<noteq> 0" by (auto simp: cache_ready_def)
  have v0: "valid_previous ?n []" using nr by (simp add: valid_previous_def)
  obtain ans1 i req1 w1 where
    1: "doRequestToCacheHost env hash jump m req a b [] w = (Ret (ans1, i, req1), w1)"
    and i: "0 \<le> i" "i < ?n"
    and a1: "case ans1 of Inl e \<Rightarrow> errors_is e ErrStrategyFallback | Inr resp \<Rightarrow> node_served content a b resp"
    by (rule doRequestToCacheHost_answers [OF rd c v0 sl ab q(2)])
  note ways = ch_DoRequest_ways [OF q(1) 1]
  show thesis
  proof (cases ans1)
    case (Inr resp)
    with a1 have ns: "node_served content a b resp" by simp
    show thesis
      by (rule that [of "Inr resp" w1, OF ways(1) [OF Inr node_served_not_bad [OF ns]]]) (use ns in simp)
  next
    case (Inl e)
    with a1 have e: "errors_is e ErrStrategyFallback" by simp
    from rd c sl ab q(2) i show thesis
    proof (cases rule: second_attempt_answers [where w = w1])
      case (served resp j req' w')
      show thesis
        by (rule that [OF ways(2) [OF Inl e served(1) node_served_not_bad [OF served(2)]]]) (simp add: served(2))
    next
      case (failed e' j req' w')
      show thesis by (rule that [OF ways(3) [OF Inl e failed]]) (simp add: e)
    qed
  qed
qed

section \<open>The requests that reach the nodes\<close>

text \<open>
  A client that keeps a list of the requests it was given, with its answers, beside the world of
  another client; nothing is assumed of the answers.
\<close>

type_synonym exchanges = "(http_request \<times> (go_error + http_response)) list"

definition recorded :: "'w http_client \<Rightarrow> ('w \<times> exchanges) http_client" where
  "recorded http w req = (case http (fst w) req of (ans, w') \<Rightarrow> (ans, w', snd w @ [(req, ans)]))"

text \<open>A request as a node gets it.\<close>

definition node_request :: "int64 \<Rightarrow> int64 \<Rightarrow> http_request \<Rightarrow> bool" where
  "node_request a b req \<longleftrightarrow>
     url_Scheme (req_URL req) = ''http'' \<and> header_get (req_Header req) ''Range'' = range_header a b \<and>
     ctx_ConsistentHashing (req_Ctx req) = Some True"

text \<open>The hosts that requests went to are those of the tried nodes whose entry is not empty, in order.\<close>

definition asked :: "chMode \<Rightarrow> int64 list \<Rightarrow> exchanges \<Rightarrow> bool" where
  "asked m nodes log \<longleftrightarrow>
     distinct nodes \<and> (\<forall>i \<in> set nodes. 0 \<le> i \<and> i < int (length (cache_hosts m))) \<and>
     map (\<lambda>(req, _). url_Host (req_URL req)) log = filter (\<lambda>h. h \<noteq> '''') (map (\<lambda>i. cache_hosts m ! nat i) nodes)"

text \<open>One attempt: the node has an empty entry, or it gets the request and its answer is the result.\<close>

lemma doRequestToCacheHost_recorded:
  assumes c: "client_Do env = recorded http" and r: "cache_ready env hash jump m (req_URL req)"
    and p: "valid_previous (int (length (cache_hosts m))) prevs"
    and sl: "a sdiv SliceSize (ch_opts m) = b sdiv SliceSize (ch_opts m)"
    and ctx: "ctx_ConsistentHashing (req_Ctx req) = Some True" and l: "asked m prevs log"
  obtains (unready) i req' where
      "doRequestToCacheHost env hash jump m req a b prevs (w, log) =
         (Ret (Inl (Sentinel ErrStrategyFallback), i, req'), (w, log))" "asked m (prevs @ [i]) log"
    | (answered) i req' ans w' where
      "doRequestToCacheHost env hash jump m req a b prevs (w, log) = (Ret (ans, i, req'), (w', log @ [(req', ans)]))"
      "asked m (prevs @ [i]) (log @ [(req', ans)])" "node_request a b req'"
proof -
  obtain i e req1 where w: "rewriteRequestToCacheHost env hash jump m req a b prevs = Ret (i, e, req1)"
    and i: "0 \<le> i" "i < int (length (cache_hosts m))" "i \<notin> set prevs" "req_Ctx req1 = req_Ctx req"
    and h: "if cache_hosts m ! nat i = '''' then e = Some (Sentinel ErrStrategyFallback)
     else e = None \<and> url_Host (req_URL req1) = cache_hosts m ! nat i \<and> url_Scheme (req_URL req1) = ''http''"
    using rewriteRequestToCacheHost_cases [OF r p sl] by metis
  show thesis
  proof (cases "cache_hosts m ! nat i = ''''")
    case True
    with w h i l show thesis by (intro unready [of i req1]) (auto simp: doRequestToCacheHost_def asked_def)
  next
    case False
    let ?req = "req1\<lparr>req_Header := header_set (req_Header req1) ''Range'' (range_header a b)\<rparr>"
    obtain ans w' where "http w ?req = (ans, w')" by (cases "http w ?req")
    with False w h i l c ctx show thesis
      by (intro answered [of ans i ?req w'])
         (auto simp: doRequestToCacheHost_def asked_def node_request_def recorded_def Let_def)
  qed
qed

text \<open>
  How a request to the cache nodes ends, by its result, the nodes it tried and the exchanges: with
  the last answer, if that has a good status; with the error of the first node, which asks for the
  fallback, if two nodes were tried (or the only one) and no response was discarded; and otherwise
  with another error, after a response of a bad status or after a first answer that is an error of
  another kind. A second node is tried only if the first one was not ready or asked for the fallback.
\<close>

definition request_end :: "chMode \<Rightarrow> int64 list \<Rightarrow> exchanges \<Rightarrow> go_error + http_response \<Rightarrow> bool" where
  "request_end m nodes log ans \<longleftrightarrow>
     (1 < length nodes \<longrightarrow> cache_hosts m ! nat (hd nodes) = '''' \<or>
        (\<exists>req e log'. log = (req, Inl e) # log' \<and> errors_is e ErrStrategyFallback)) \<and>
     (case ans of
        Inr resp \<Rightarrow> log \<noteq> [] \<and> snd (last log) = Inr resp \<and> \<not> bad_status resp
      | Inl e \<Rightarrow>
          if errors_is e ErrStrategyFallback
          then length nodes = min 2 (length (cache_hosts m)) \<and> (\<forall>(req, x) \<in> set log. \<exists>e'. x = Inl e') \<and>
            (e = Sentinel ErrStrategyFallback \<or> (\<exists>req log'. log = (req, Inl e) # log'))
          else log \<noteq> [] \<and> (case snd (last log) of
                 Inr resp \<Rightarrow> bad_status resp \<and> errors_is e ErrUnexpectedHTTPStatus
               | Inl e' \<Rightarrow> length nodes = 1 \<and> \<not> errors_is e' ErrStrategyFallback))"

text \<open>What follows a first node that asked for the fallback.\<close>

lemma ch_DoRequest_second:
  assumes c: "client_Do env = recorded http" and r: "cache_ready env hash jump m (req_URL req)"
    and sl: "a sdiv SliceSize (ch_opts m) = b sdiv SliceSize (ch_opts m)"
    and q: "new_request (url_parse env) (ctx\<lparr>ctx_ConsistentHashing := Some True\<rparr>) url = Inr req"
    and 1: "doRequestToCacheHost env hash jump m req a b [] w0 = (Ret (Inl e, i, req1), (w, log))"
    and e: "errors_is e ErrStrategyFallback" and l: "asked m [i] log"
    and f: "log = [] \<and> e = Sentinel ErrStrategyFallback \<or> log = [(req1, Inl e)] \<and> node_request a b req1"
  shows "\<exists>ans w' log' nodes. ch_DoRequest env hash jump m ctx a b url w0 = (Ret ans, (w', log')) \<and>
     asked m nodes log' \<and> length nodes \<le> 2 \<and> (\<forall>(req, _) \<in> set log'. node_request a b req) \<and> request_end m nodes log' ans"
proof (cases "int (length (cache_hosts m)) \<le> 1")
  case True
  have h: "SliceSize (ch_opts m) \<noteq> 0" "0 < length (cache_hosts m)" using r by (auto simp: cache_ready_def)
  with True have "doRequestToCacheHost env hash jump m req a b [i] (w, log) =
      (Ret (Inl (Errorf ''No more buckets left''), - 1, req), (w, log))"
    by (intro doRequest_exhausted sl) simp_all
  then have "ch_DoRequest env hash jump m ctx a b url w0 = (Ret (Inl e), (w, log))"
    using q 1 e by (simp add: ch_DoRequest_def)
  moreover have "length (cache_hosts m) = 1" using h True by linarith
  then have "request_end m [i] log (Inl e)" using e f by (auto simp: request_end_def)
  ultimately show ?thesis using l f
    by (intro exI [of _ "Inl e"] exI [of _ w] exI [of _ log] exI [of _ "[i]"]) auto
next
  case False
  then have v: "valid_previous (int (length (cache_hosts m))) [i]"
    using r l by (simp add: valid_previous_def cache_ready_def asked_def)
  have ctx: "ctx_ConsistentHashing (req_Ctx req) = Some True"
    using q by (auto simp: new_request_def Let_def split: sum.splits)
  have hd: "cache_hosts m ! nat i = '''' \<or> log = [(req1, Inl e)]"
    using f l by (auto simp: asked_def split: if_splits)
  from c r v sl ctx l show ?thesis
  proof (cases rule: doRequestToCacheHost_recorded [where w = w])
    case (unready j req2)
    have "request_end m [i, j] log (Inl e)" using e f hd False by (auto simp: request_end_def)
    moreover have "ch_DoRequest env hash jump m ctx a b url w0 = (Ret (Inl e), (w, log))"
      using q 1 e unready(1) by (simp add: ch_DoRequest_def)
    ultimately show ?thesis using unready(2) f
      by (intro exI [of _ "Inl e"] exI [of _ w] exI [of _ log] exI [of _ "[i, j]"]) auto
  next
    case (answered j req2 ans w')
    define res where "res = (case ans of Inl _ \<Rightarrow> Inl e | Inr resp \<Rightarrow> if bad_status resp
        then Inl (Wrapf (url_String env (req_URL req1) @ '': '' @ Status resp) (Sentinel ErrUnexpectedHTTPStatus)) else Inr resp)"
    have "request_end m [i, j] (log @ [(req2, ans)]) res"
      using e f hd False by (auto simp: request_end_def res_def split: sum.split)
    moreover have "ch_DoRequest env hash jump m ctx a b url w0 = (Ret res, (w', log @ [(req2, ans)]))"
      using q 1 e answered(1) by (auto simp: ch_DoRequest_def res_def split: sum.split)
    ultimately show ?thesis using answered(2,3) f
      by (intro exI [of _ res] exI [of _ w'] exI [of _ "log @ [(req2, ans)]"] exI [of _ "[i, j]"]) auto
  qed
qed

lemma ch_DoRequest_recorded:
  assumes c: "client_Do env = recorded http" and r: "cache_ready_for env hash jump m url"
    and u: "url_parse env url = Inr u" and sl: "a sdiv SliceSize (ch_opts m) = b sdiv SliceSize (ch_opts m)"
  shows "\<exists>ans w' log nodes. ch_DoRequest env hash jump m ctx a b url (w, []) = (Ret ans, (w', log)) \<and>
     asked m nodes log \<and> length nodes \<le> 2 \<and> (\<forall>(req, _) \<in> set log. node_request a b req) \<and> request_end m nodes log ans"
proof -
  obtain req where q: "new_request (url_parse env) (ctx\<lparr>ctx_ConsistentHashing := Some True\<rparr>) url = Inr req"
    "ctx_ConsistentHashing (req_Ctx req) = Some True" using u by (fastforce simp: new_request_def Let_def)
  then have rd: "cache_ready env hash jump m (req_URL req)" using r unfolding cache_ready_for_def by blast
  have v: "valid_previous (int (length (cache_hosts m))) []" using rd by (simp add: valid_previous_def cache_ready_def)
  have l: "asked m [] []" by (simp add: asked_def)
  note second = ch_DoRequest_second [OF c rd sl q(1)]
  from c rd v sl q(2) l show ?thesis
  proof (cases rule: doRequestToCacheHost_recorded [where w = w])
    case (unready i req1)
    then show ?thesis using second [OF unready(1)] by simp
  next
    case (answered i req1 ans w')
    show ?thesis
    proof (cases "\<exists>e. ans = Inl e \<and> errors_is e ErrStrategyFallback")
      case True
      with answered show ?thesis using second [of "(w, [])" _ i req1 w' "[(req1, ans)]"] by auto
    next
      case False
      define res where "res = (case ans of
          Inl e \<Rightarrow> Inl (Wrapf (''error executing request for '' @ url_String env (req_URL req1)) e)
        | Inr resp \<Rightarrow> if bad_status resp
            then Inl (Wrapf (url_String env (req_URL req1) @ '': '' @ Status resp) (Sentinel ErrUnexpectedHTTPStatus)) else Inr resp)"
      have "request_end m [i] [(req1, ans)] res" using False by (auto simp: request_end_def res_def split: sum.split)
      moreover have "ch_DoRequest env hash jump m ctx a b url (w, []) = (Ret res, (w', [(req1, ans)]))"
        using q False answered(1) by (auto simp: ch_DoRequest_def res_def split: sum.split)
      ultimately show ?thesis using answered(2,3)
        by (intro exI [of _ res] exI [of _ w'] exI [of _ "[(req1, ans)]"] exI [of _ "[i]"]) auto
    qed
  qed
qed

section \<open>A file is downloaded completely\<close>

lemma read_chunk_node_served:
  assumes "node_served content a b resp" "part_len content a b \<le> length buf"
  shows "read_chunk client resp buf w = Some (Ret (piece content (nat a) (part_len content a b), None), w)"
  using assms by (intro read_chunk_complete) (auto simp: node_served_def served_def Let_def)

text \<open>Contexts outside of consistent hashing, in which the fallback strategy works.\<close>

definition plain_ctx :: "go_ctx \<Rightarrow> bool" where
  "plain_ctx ctx \<longleftrightarrow> ctx_ConsistentHashing ctx \<noteq> Some True"

lemma ch_chunk_job_content:
  assumes r: "cache_ready_for env hash jump m url" and c: "cache_client (client_Do env) content"
    and f: "range_client plain_ctx (client_Do env) content" "plain_ctx ctx"
    and u: "url_parse env url = Inr u"
    and sl: "a sdiv SliceSize (ch_opts m) = b sdiv SliceSize (ch_opts m)"
    and ab: "0 \<le> a" "a \<le> b" "a < int (length content)" "in64 b" "int (length content) < 2 ^ 63"
    and fit: "part_len content a b \<le> length buf"
  shows "ch_chunk_job env hash jump m ctx url (a, b) buf w =
     Some (Ret (piece content (nat a) (part_len content a b), None))"
proof -
  obtain ans w1 where d: "ch_DoRequest env hash jump m ctx a b url w = (Ret ans, w1)"
    and ans: "case ans of Inl e \<Rightarrow> errors_is e ErrStrategyFallback | Inr resp \<Rightarrow> node_served content a b resp"
    using ch_DoRequest_answers [OF r c u sl ab(1,2,3,4)] by blast
  show ?thesis
  proof (cases ans)
    case (Inr resp)
    with ans have "node_served content a b resp" by simp
    from read_chunk_node_served [OF this fit, of "client_Do env" w1] d Inr show ?thesis
      by (simp add: ch_chunk_job_def)
  next
    case (Inl e)
    with ans have e: "errors_is e ErrStrategyFallback" by simp
    have "ch_chunk_job env hash jump m ctx url (a, b) buf w =
        chunk_job env (FallbackStrategy m) ctx url (a, b) buf w1"
      using d Inl e by (auto simp: ch_chunk_job_def chunk_job_def split: prod.splits sum.splits)
    then show ?thesis using chunk_job_served [OF f u ab fit] by simp
  qed
qed

lemma ch_getFileSize_served:
  "served content a b resp \<Longrightarrow> ch_getFileSizeFromResponse resp = getFileSizeFromResponse resp"
  by (simp add: ch_getFileSizeFromResponse_def getFileSizeFromResponse_def served_def)

lemma ch_first_request_answers:
  assumes r: "cache_ready_for env hash jump m url" and c: "cache_client (client_Do env) content"
    and u: "url_parse env url = Inr u" and v: "ch_valid m (int (length content))"
  obtains e w1 where "ch_first_request env hash jump m ctx url w = (Ret (Inl e), w1)"
      "errors_is e ErrStrategyFallback"
    | resp w1 where "ch_first_request env hash jump m ctx url w = (Ret (Inr (int (length content), resp)), w1)"
      "node_served content 0 (ch_chunkSize m - 1) resp"
proof -
  note d = ch_validD [OF v]
  have w: "wrap64 (ch_chunkSize m - 1) = ch_chunkSize m - 1" using d by (intro wrap64_nonneg) auto
  have sl: "0 sdiv SliceSize (ch_opts m) = (ch_chunkSize m - 1) sdiv SliceSize (ch_opts m)"
    using d by (simp add: sdiv_nonneg)
  obtain ans w1 where q: "ch_DoRequest env hash jump m ctx 0 (ch_chunkSize m - 1) url w = (Ret ans, w1)"
    and ans: "case ans of Inl e \<Rightarrow> errors_is e ErrStrategyFallback
                        | Inr resp \<Rightarrow> node_served content 0 (ch_chunkSize m - 1) resp"
    by (rule ch_DoRequest_answers [OF r c u sl]) (use d in \<open>simp_all add: in64_def\<close>)
  show thesis
  proof (cases ans)
    case (Inl e)
    with q ans w show thesis by (intro that(1) [of e w1]) (simp_all add: ch_first_request_def)
  next
    case (Inr resp)
    with ans have ns: "node_served content 0 (ch_chunkSize m - 1) resp" by simp
    then have s: "served content 0 (ch_chunkSize m - 1) resp" by (simp add: node_served_def)
    have "getFileSizeFromResponse resp = Inr (int (length content))"
      using d part_len_pos [of 0 "ch_chunkSize m - 1" content] by (intro getFileSize_served [OF s]) auto
    with Inr q w ns ch_getFileSize_served [OF s] show thesis
      by (intro that(2) [of resp w1]) (simp_all add: ch_first_request_def)
  qed
qed

text \<open>
  The strategy and its fallback as \<open>GetConsistentHashingMode\<close> builds them. The workers'
  buffers have the chunk size of the strategy, which also suffices for the fallback strategy
  when a chunk is no longer than a slice.
\<close>

definition ch_built :: "chMode \<Rightarrow> bool" where
  "ch_built m \<longleftrightarrow>
     ChunkSize (bm_opts (FallbackStrategy m)) = ChunkSize (ch_opts m) \<and>
     CacheHosts (bm_opts (FallbackStrategy m)) = None"

lemma GetConsistentHashingMode_built:
  "GetConsistentHashingMode configuredHeaders numCPU opts = Inr (m, q) \<Longrightarrow> ch_built m \<and> ch_opts m = opts \<and> SliceSize opts \<noteq> 0"
  by (auto simp: GetConsistentHashingMode_def ch_built_def Let_def split: if_splits)

lemma ch_fallback_readers:
  assumes b: "ch_built m" and v: "ch_valid m (int (length content))"
    and f: "range_client plain_ctx (client_Do env) content" "plain_ctx ctx" and u: "urls_parse env url"
    and le: "chunkSize (FallbackStrategy m) \<le> SliceSize (ch_opts m)"
    and bufs: "\<And>i. length (bufs i) = nat (ch_chunkSize m)"
  shows "\<exists>readers m'. ch_fallback_Fetch env m ctx url bufs ws = (Inr (readers, int (length content)), m') \<and>
     complete_readers content (ch_chunkSize m) readers"
proof -
  let ?fb = "FallbackStrategy m"
  note d = ch_validD [OF v]
  have eq: "chunkSize ?fb = ch_chunkSize m"
    using b le by (simp add: ch_built_def chunkSize_def ch_chunkSize_def Let_def split: if_splits)
  have v': "bm_valid ?fb (int (length content))"
    using d eq by (simp add: bm_valid_def in64_def)
  have eu: "effective_url env ?fb url = url" using b by (simp add: ch_built_def effective_url_def)
  show ?thesis
    using bm_Fetch_readers [OF f, of ?fb url bufs ws] u v' eu bufs eq
    by (auto simp: ch_fallback_Fetch_def)
qed

text \<open>The chunk that the first request has already brought.\<close>

lemma ch_plan_first:
  assumes v: "ch_valid m sz" and j: "j < length (ch_plan m sz)" and ab: "ch_plan m sz ! j = (a, b)"
    and first: "sz \<le> ch_chunkSize m \<or> slices m sz ! j = (0, 0)"
  shows "(a, b) = (0, ch_chunkSize m - 1)"
proof -
  note d = ch_validD [OF v]
  have w: "wrap64 (ch_chunkSize m - 1) = ch_chunkSize m - 1" using d by (intro wrap64_nonneg) auto
  show ?thesis
  proof (cases "sz \<le> ch_chunkSize m")
    case True
    with ab j w show ?thesis by (simp add: ch_plan_def)
  next
    case False
    with first have "(a, b) = ch_chunk_range m 0 0" using ab j by (simp add: ch_plan_def split: prod.splits)
    also have "\<dots> = (0, ch_chunkSize m - 1)" using d w by (simp add: ch_chunk_range_def Let_def wrap64_nonneg)
    finally show ?thesis .
  qed
qed

lemma ch_Fetch_served:
  assumes r: "cache_ready_for env hash jump m url" and c: "cache_client (client_Do env) content"
    and f: "range_client plain_ctx (client_Do env) content" "plain_ctx ctx"
    and u: "url_parse env url = Inr u" and v: "ch_valid m (int (length content))"
    and bufs: "\<And>i. length (bufs i) = nat (ch_chunkSize m)"
    and sc: "shouldContinue m u"
    and fr: "ch_first_request env hash jump m ctx url (ws 0) = (Ret (Inr (int (length content), resp)), w1)"
    and ns: "node_served content 0 (ch_chunkSize m - 1) resp"
  shows "\<exists>readers. ch_Fetch env hash jump m ctx url bufs ws = Ret (Inr (readers, int (length content)), m) \<and>
     complete_readers content (ch_chunkSize m) readers"
proof -
  let ?sz = "int (length content)" and ?c = "ch_chunkSize m"
  let ?chunks = "slices m ?sz"
  note d = ch_validD [OF v]
  have "part_len content 0 (?c - 1) \<le> length (bufs 0)" using d bufs by (simp add: part_len_def nat_mono)
  note first = read_chunk_node_served [OF ns this, of "client_Do env" w1]
  define job where "job j = (if ?sz \<le> ?c \<or> ?chunks ! j = (0, 0)
      then map_option fst (read_chunk (client_Do env) resp (bufs 0) w1)
      else ch_chunk_job env hash jump m ctx url
             (ch_chunk_range m (fst (?chunks ! j)) (snd (?chunks ! j))) (bufs j) (ws j))" for j
  have len: "length (ch_plan m ?sz) = (if ?sz \<le> ?c then 1 else length ?chunks)" by (simp add: ch_plan_def)
  have fetch: "ch_Fetch env hash jump m ctx url bufs ws = Ret (Inr (map job [0..<length (ch_plan m ?sz)], ?sz), m)"
    using u sc fr by (simp add: ch_Fetch_def Let_def len job_def cong: map_cong)
  have "complete_readers content ?c (map job [0..<length (ch_plan m ?sz)])"
  proof (rule ch.plan_assembles [OF v])
    fix a b j
    assume j: "j < length (ch_plan m ?sz)" and ab: "ch_plan m ?sz ! j = (a, b)"
    have mem: "(a, b) \<in> set (ch_plan m ?sz)" using j ab nth_mem by metis
    note rg = ch.plan_range [OF v mem]
    have fit: "part_len content a b \<le> length (bufs j)" using ch.plan_fits [OF v mem] bufs by simp
    show "job j = Some (Ret (piece content (nat a) (part_len content a b), None))"
    proof (cases "?sz \<le> ?c \<or> ?chunks ! j = (0, 0)")
      case True
      note ch_plan_first [OF v j ab True]
      with first True show ?thesis by (simp add: job_def)
    next
      case False
      then have "ch_chunk_range m (fst (?chunks ! j)) (snd (?chunks ! j)) = (a, b)"
        using ab j by (simp add: ch_plan_def split: prod.splits)
      then show ?thesis
        using False ch_chunk_job_content [OF r c f u ch_plan_in_slice [OF v mem], of "bufs j" "ws j"] rg fit d
        by (simp add: job_def)
    qed
  qed (use d in auto)
  with fetch show ?thesis by blast
qed

lemma ch_Fetch_readers:
  assumes r: "cache_ready_for env hash jump m url" and c: "cache_client (client_Do env) content"
    and f: "range_client plain_ctx (client_Do env) content" "plain_ctx ctx"
    and u: "urls_parse env url" and v: "ch_valid m (int (length content))"
    and b: "ch_built m" and le: "chunkSize (FallbackStrategy m) \<le> SliceSize (ch_opts m)"
    and bufs: "\<And>i. length (bufs i) = nat (ch_chunkSize m)"
  shows "\<exists>readers m'. ch_Fetch env hash jump m ctx url bufs ws = Ret (Inr (readers, int (length content)), m') \<and>
     complete_readers content (ch_chunkSize m) readers"
proof -
  obtain p where p: "url_parse env url = Inr p" using u by (auto simp: urls_parse_def)
  note fallback = ch_fallback_readers [OF b v f u le bufs]
  show ?thesis
  proof (cases "shouldContinue m p")
    case False
    with fallback [where ws = ws] p show ?thesis by (simp add: ch_Fetch_def)
  next
    case True
    show ?thesis
    proof (rule ch_first_request_answers [OF r c p v, of ctx "ws 0"])
      fix e w1
      assume "ch_first_request env hash jump m ctx url (ws 0) = (Ret (Inl e), w1)" "errors_is e ErrStrategyFallback"
      with True fallback [where ws = "\<lambda>i. ws (Suc i)"] p show ?thesis by (simp add: ch_Fetch_def)
    next
      fix resp w1
      assume "ch_first_request env hash jump m ctx url (ws 0) = (Ret (Inr (int (length content), resp)), w1)"
        "node_served content 0 (ch_chunkSize m - 1) resp"
      from ch_Fetch_served [where bufs = bufs and ws = ws, OF r c f p v bufs True this] show ?thesis by blast
    qed
  qed
qed

lemma ch_Fetch_content:
  assumes "cache_ready_for env hash jump m url" "cache_client (client_Do env) content"
    and "range_client plain_ctx (client_Do env) content" "plain_ctx ctx"
    and "urls_parse env url" "ch_valid m (int (length content))"
    and "ch_built m" "chunkSize (FallbackStrategy m) \<le> SliceSize (ch_opts m)"
    and "\<And>i. length (bufs i) = nat (ch_chunkSize m)"
  shows "\<exists>readers m'. ch_Fetch env hash jump m ctx url bufs ws = Ret (Inr (readers, int (length content)), m') \<and>
     multi_read readers = Some (Ret (content, None))"
  using ch_Fetch_readers [where bufs = bufs and ws = ws, OF assms] complete_readers_read by blast

section \<open>A fallback chunk longer than the buffer\<close>

text \<open>
  The queue is shared with the fallback strategy, but its buffers are cut to the slice size
  while the fallback strategy still asks for whole chunks. With a chunk size above the slice
  size, the fallback for a file longer than a slice panics.
\<close>

lemma ch_fallback_panics:
  assumes b: "ch_built m" and sl: "0 < SliceSize (ch_opts m)" "SliceSize (ch_opts m) < chunkSize (FallbackStrategy m)"
    and v: "bm_valid (FallbackStrategy m) (int (length content))"
    and big: "SliceSize (ch_opts m) < int (length content)"
    and f: "range_client plain_ctx (client_Do env) content" "plain_ctx ctx" and u: "urls_parse env url"
    and buf: "length (bufs 0) = nat (ch_chunkSize m)"
  shows "\<exists>readers m'. ch_fallback_Fetch env m ctx url bufs ws = (Inr (readers, int (length content)), m') \<and>
     multi_read readers = Some (Panic ''slice bounds out of range'')"
proof -
  let ?fb = "FallbackStrategy m" and ?sz = "int (length content)"
  have eu: "urls_parse env (effective_url env ?fb url)" using b u by (simp add: ch_built_def effective_url_def)
  obtain trueURL resp m' w' where
    fr: "first_request env ?fb ctx url (ws 0) = (Inr (?sz, trueURL, resp), m', w')"
    and s: "served content 0 (chunkSize ?fb - 1) resp"
    using first_request_served [OF f eu v] by metis
  have c: "ch_chunkSize m = SliceSize (ch_opts m)"
    using b sl by (simp add: ch_built_def chunkSize_def ch_chunkSize_def Let_def split: if_splits)
  have "ContentLength resp = int (part_len content 0 (chunkSize ?fb - 1))" using s by (simp add: served_def)
  then have "ContentLength resp > int (length (bufs 0))" using c buf sl big by (simp add: part_len_def)
  then have "read_chunk (client_Do env) resp (bufs 0) w' = Some (Panic ''slice bounds out of range'', w')"
    by (intro read_chunk_panics) simp
  with fr show ?thesis by (simp add: ch_fallback_Fetch_def bm_Fetch_def Let_def)
qed

end
