(* ===== verification/Range_Server.thy ===== *)
theory Range_Server
  imports Consistent_Hashing_Mode
begin

text \<open>
  A concrete server and the environment around it, to evaluate the models of the strategies
  on: it answers range requests for a given content and cuts every body off after a number of
  bytes, as an unreliable connection would. It shows that the expectations \<open>range_client\<close>,
  \<open>cache_client\<close> and \<open>cache_ready_for\<close> can be met.
\<close>

section \<open>The server\<close>

definition parse_range :: "string \<Rightarrow> (int64 \<times> int64) option" where
  "parse_range h =
     (case split_on (CHR ''-'') (trim_prefix h ''bytes='') of
        [p, q] \<Rightarrow> (case (parse_int p, parse_int q) of (Inr a, Inr b) \<Rightarrow> Some (a, b) | _ \<Rightarrow> None)
      | _ \<Rightarrow> None)"

lemma parse_range_header:
  "0 \<le> a \<Longrightarrow> a \<le> b \<Longrightarrow> in64 b \<Longrightarrow> parse_range (range_header a b) = Some (a, b)"
  using parse_int_dec [of a] parse_int_dec [of b]
  by (simp add: parse_range_def split_range_header in64_def)

definition partial_response :: "byte list \<Rightarrow> nat \<Rightarrow> int64 \<Rightarrow> int64 \<Rightarrow> http_request \<Rightarrow> http_response" where
  "partial_response content cap a b req =
     (let n = part_len content a b
      in \<lparr>StatusCode = 206, Status = ''206 Partial Content'',
          resp_Header = header_set Map.empty ''Content-Range''
            (''bytes '' @ (int_dec a @ ''-'' @ int_dec (a + int n - 1)) @ ''/'' @ nat_dec (int (length content))),
          ContentLength = int n, resp_Body = Body (piece content (nat a) (min cap n)) (Sentinel ErrUnexpectedEOF),
          resp_Request = req\<rparr>)"

text \<open>\<open>down\<close> tells which hosts do not answer; requests to them fail as \<open>RetryPolicy\<close> reports it.\<close>

definition file_server :: "byte list \<Rightarrow> nat \<Rightarrow> (string \<Rightarrow> bool) \<Rightarrow> unit http_client" where
  "file_server content cap down w req =
     (case parse_range (header_get (req_Header req) ''Range'') of
        None \<Rightarrow> (Inl (Errorf ''bad request''), w)
      | Some (a, b) \<Rightarrow>
          if ctx_ConsistentHashing (req_Ctx req) = Some True
          then (if down (url_Host (req_URL req)) then (Inl (UrlError (Sentinel ErrStrategyFallback)), w)
                else (Inr (partial_response content (length content) a b req), w))
          else (Inr (partial_response content cap a b req), w))"

lemma partial_response_served:
  assumes "header_get (req_Header req) ''Range'' = range_header a b" "0 < cap"
    and "0 \<le> a" "a \<le> b" "a < int (length content)"
  shows "served content a b (partial_response content cap a b req)"
proof -
  let ?n = "part_len content a b"
  have n: "0 < ?n" "?n \<le> length content - nat a" using assms(3-5) by (auto simp: part_len_def)
  then have len: "length (piece content (nat a) (min cap ?n)) = min cap ?n" by simp
  have "min cap ?n = ?n \<or> 0 < min cap ?n \<and> min cap ?n < ?n" using assms(2) n(1) by linarith
  with len show ?thesis
    using assms(1) by (simp add: served_def partial_response_def Let_def del: length_piece length_greater_0_conv)
qed

lemma file_server_range_client:
  assumes "0 < cap"
  shows "range_client plain_ctx (file_server content cap down) content"
  unfolding range_client_def
proof (intro allI impI, elim conjE)
  fix w :: unit and req :: http_request and a b
  assume c: "plain_ctx (req_Ctx req)" and h: "header_get (req_Header req) ''Range'' = range_header a b"
    and ab: "0 \<le> a" "a \<le> b" "a < int (length content)" "in64 b"
  have "file_server content cap down w req = (Inr (partial_response content cap a b req), w)"
    using c h parse_range_header [OF ab(1,2,4)] by (simp add: file_server_def plain_ctx_def)
  moreover have "served content a b (partial_response content cap a b req)"
    by (rule partial_response_served [OF h assms ab(1-3)])
  moreover have "plain_ctx (req_Ctx (resp_Request (partial_response content cap a b req)))"
    using c by (simp add: partial_response_def Let_def)
  ultimately show "\<exists>resp w'. file_server content cap down w req = (Inr resp, w') \<and>
      served content a b resp \<and> plain_ctx (req_Ctx (resp_Request resp))" by blast
qed

lemma file_server_cache_client: "cache_client (file_server content cap down) content"
  unfolding cache_client_def
proof (intro allI impI, elim conjE)
  fix w :: unit and req :: http_request and a b
  let ?resp = "partial_response content (length content) a b req"
  assume c: "ctx_ConsistentHashing (req_Ctx req) = Some True"
    and h: "header_get (req_Header req) ''Range'' = range_header a b"
    and ab: "0 \<le> a" "a \<le> b" "a < int (length content)" "in64 b"
  have "0 < length content" using ab by auto
  then have "served content a b ?resp" by (rule partial_response_served [OF h _ ab(1-3)])
  moreover have "length (body_data (resp_Body ?resp)) = part_len content a b"
    using ab by (auto simp: partial_response_def Let_def part_len_def)
  ultimately have "node_served content a b ?resp" by (simp add: node_served_def)
  then show "\<exists>ans w'. file_server content cap down w req = (ans, w') \<and>
      (case ans of Inl e \<Rightarrow> errors_is e ErrStrategyFallback | Inr resp \<Rightarrow> node_served content a b resp)"
    using c h parse_range_header [OF ab(1,2,4)] by (simp add: file_server_def)
qed

section \<open>The environment\<close>

text \<open>URLs of the form host and path; every string is one.\<close>

definition example_url :: "string \<Rightarrow> string \<Rightarrow> URL" where
  "example_url host path =
     \<lparr>url_Scheme = ''https'', url_Opaque = '''', url_User = '''', url_Host = host, url_Path = path,
      url_RawPath = '''', url_RawQuery = '''', url_Fragment = ''''\<rparr>"

definition example_parse :: "string \<Rightarrow> go_error + URL" where
  "example_parse s =
     Inr (example_url (takeWhile (\<lambda>c. c \<noteq> CHR ''/'') s) (dropWhile (\<lambda>c. c \<noteq> CHR ''/'') s))"

definition example_env :: "byte list \<Rightarrow> nat \<Rightarrow> (string \<Rightarrow> bool) \<Rightarrow> unit net_env" where
  "example_env content cap down =
     \<lparr>url_parse = example_parse, url_String = (\<lambda>u. url_Host u @ url_Path u),
      url_JoinPath = (\<lambda>h p. Inr (h @ p)), strings_ToLower = id,
      client_Do = file_server content cap down, proxyAuthHeader = ''''\<rparr>"

lemma example_urls_parse: "urls_parse (example_env content cap down) url"
  by (simp add: urls_parse_def example_env_def example_parse_def)

lemma example_range_client:
  "0 < cap \<Longrightarrow> range_client plain_ctx (client_Do (example_env content cap down)) content"
  by (simp add: example_env_def file_server_range_client)

lemma example_cache_client: "cache_client (client_Do (example_env content cap down)) content"
  by (simp add: example_env_def file_server_cache_client)

text \<open>A hash of the key's slice and attempt, and a choice of a bucket from it.\<close>

definition example_hash :: "CacheKey structure_hash" where
  "example_hash k = Inr (word_of_int (ck_Slice (Key k) + Attempt k))"

definition example_jump :: jump_hash where
  "example_jump h n = uint h mod n"

lemma example_hash_total: "hash_total example_hash"
  by (simp add: hash_total_def example_hash_def)

lemma example_jump_in_range: "jump_in_range example_jump"
  by (simp add: jump_in_range_def example_jump_def)

lemmas example_facts =
  example_urls_parse example_range_client example_cache_client example_hash_total example_jump_in_range

definition example_client_Options :: client_Options where
  "example_client_Options = \<lparr>MaxRetries = 5, Transport = None, TransportOpts = \<lparr>ForceHTTP2 = False,
     ResolveOverrides = Map.empty, MaxConnPerHost = 40, ConnectTimeout = 5 * Second\<rparr>\<rparr>"

text \<open>Options of a download with the given chunk and slice sizes and cache nodes.\<close>

definition example_options :: "int64 \<Rightarrow> int64 \<Rightarrow> string list \<Rightarrow> download_options" where
  "example_options chunk slsz hosts =
     \<lparr>MaxConcurrency = 4, SliceSize = slsz, ChunkSize = chunk, Client = example_client_Options,
      CacheableURIPrefixes = [''weights.example.com'' \<mapsto> [example_url ''weights.example.com'' ''/'']],
      CacheUsePathProxy = False, CacheHosts = (if hosts = [] then None else Some hosts),
      ForceCachePrefixRewrite = False\<rparr>"

definition example_bufferMode :: "int64 \<Rightarrow> bufferMode" where
  "example_bufferMode chunk = \<lparr>bm_Client = NewHTTPClient [] example_client_Options,
     bm_opts = example_options chunk 0 [], redirected = False\<rparr>"

definition example_chMode :: "int64 \<Rightarrow> int64 \<Rightarrow> string list \<Rightarrow> chMode" where
  "example_chMode chunk slsz hosts =
     \<lparr>ch_Client = NewHTTPClient [] example_client_Options, ch_opts = example_options chunk slsz hosts,
      FallbackStrategy = \<lparr>bm_Client = NewHTTPClient [] example_client_Options, bm_opts = (example_options chunk 0 [])\<lparr>CacheableURIPrefixes := Map.empty\<rparr>,
        redirected = False\<rparr>\<rparr>"

lemma example_ch_built: "ch_built (example_chMode chunk slsz hosts)"
  by (simp add: ch_built_def example_chMode_def example_options_def)

lemma example_cache_ready:
  "hosts \<noteq> [] \<Longrightarrow> int (length hosts) < 2 ^ 31 \<Longrightarrow> slsz \<noteq> 0 \<Longrightarrow>
     cache_ready_for (example_env content cap down) example_hash example_jump (example_chMode chunk slsz hosts) url"
  by (simp add: cache_ready_for_def cache_ready_def example_facts cache_hosts_def example_chMode_def example_options_def
      example_env_def)

text \<open>The sizes of the example modes, so that goals about them reduce to arithmetic.\<close>

lemma example_plain_ctx: "plain_ctx background"
  by (simp add: plain_ctx_def background_def)

lemma example_chunkSize: "chunk \<noteq> 0 \<Longrightarrow> chunkSize (example_bufferMode chunk) = chunk"
  by (simp add: example_bufferMode_def example_options_def chunkSize_def)

lemma example_bm_valid:
  "0 < chunk \<Longrightarrow> chunk < 2 ^ 63 \<Longrightarrow> 0 < sz \<Longrightarrow> sz < 2 ^ 63 \<Longrightarrow> bm_valid (example_bufferMode chunk) sz"
  by (simp add: bm_valid_def in64_def example_chunkSize)

lemma example_ch_chunkSize: "chunk \<noteq> 0 \<Longrightarrow> ch_chunkSize (example_chMode chunk slsz hosts) = min chunk slsz"
  by (simp add: example_chMode_def example_options_def ch_chunkSize_def Let_def)

lemma example_fallback_chunkSize: "chunk \<noteq> 0 \<Longrightarrow> chunkSize (FallbackStrategy (example_chMode chunk slsz hosts)) = chunk"
  by (simp add: example_chMode_def example_options_def chunkSize_def)

lemma example_SliceSize [simp]: "SliceSize (ch_opts (example_chMode chunk slsz hosts)) = slsz"
  by (simp add: example_chMode_def example_options_def)

lemma example_ch_valid:
  "0 < chunk \<Longrightarrow> 0 < slsz \<Longrightarrow> 0 < sz \<Longrightarrow> sz + slsz < 2 ^ 63 \<Longrightarrow> ch_valid (example_chMode chunk slsz hosts) sz"
  by (simp add: ch_valid_def example_ch_chunkSize)

lemma example_effective_url: "effective_url env (example_bufferMode chunk) url = url"
  by (simp add: effective_url_def example_bufferMode_def example_options_def)

lemmas example_modes =
  example_plain_ctx example_chunkSize example_bm_valid example_ch_chunkSize example_fallback_chunkSize
  example_ch_valid example_effective_url example_ch_built example_cache_ready

end
