(* ===== verification/Cli_Common.thy ===== *)
theory Cli_Common
  imports Config_Opts
begin

text \<open>
  Model of pkg/cli/common.go and pkg/cli/pid.go: the check that a destination does not exist,
  the order of the cache hosts that a DNS SRV lookup returns, and the PID file whose lock
  keeps two processes from downloading at the same time.
\<close>

section \<open>Destinations\<close>

text \<open>\<open>stat dest\<close> is the error of \<open>os.Stat\<close>, if any.\<close>

definition EnsureDestinationNotExist :: "settings \<Rightarrow> (string \<Rightarrow> go_error option) \<Rightarrow> string \<Rightarrow> go_error option" where
  "EnsureDestinationNotExist cfg stat dest =
     (let err = stat dest
      in if \<not> GetBool cfg OptForce \<and> \<not> (case err of None \<Rightarrow> False | Some e \<Rightarrow> errors_is e ErrNotExist)
         then Some (Errorf (''destination '' @ dest @ '' already exists'')) else None)"

section \<open>Cache hosts\<close>

record SRV =
  srv_Target :: string
  srv_Port :: int

text \<open>
  \<open>hostnameIndexRegexp\<close>, \<open>^[a-z0-9-]*-([0-9]+)[.]\<close>: the class does not contain a dot, so the
  match ends at the first dot, and the group is the run of digits between the last dash
  before that dot and the dot.
\<close>

definition host_class :: "char \<Rightarrow> bool" where
  "host_class c \<longleftrightarrow> is_lower c \<or> is_digit c \<or> c = CHR ''-''"

definition hostname_index_match :: "string \<Rightarrow> string option" where
  "hostname_index_match s =
     (let label = takeWhile (\<lambda>c. c \<noteq> CHR ''.'') s;
          digits = rev (takeWhile is_digit (rev label));
          rest = dropWhile is_digit (rev label)
      in if label \<noteq> s \<and> digits \<noteq> [] \<and> rest \<noteq> [] \<and> hd rest = CHR ''-'' \<and> list_all host_class label
         then Some digits else None)"

definition cacheIndexFor :: "string \<Rightarrow> go_error + int64" where
  "cacheIndexFor hostname =
     (case hostname_index_match hostname of
        None \<Rightarrow> Inl (Errorf (''couldn't parse hostname '' @ hostname))
      | Some digits \<Rightarrow> parse_int digits)"

definition srv_hostname :: "SRV \<Rightarrow> string" where
  "srv_hostname srv =
     (let hostname = trim_suffix (srv_Target srv) ''.''
      in if srv_Port srv \<noteq> 80 then hostname @ '':'' @ int_dec (srv_Port srv) else hostname)"

fun highest_index :: "SRV list \<Rightarrow> int64 \<Rightarrow> go_error + int64" where
  "highest_index [] highestIndex = Inr highestIndex"
| "highest_index (srv # srvs) highestIndex =
     (case cacheIndexFor (srv_Target srv) of
        Inl err \<Rightarrow> Inl err
      | Inr cacheIndex \<Rightarrow>
          highest_index srvs (if cacheIndex > highestIndex then cacheIndex else highestIndex))"

fun place_hosts :: "SRV list \<Rightarrow> string list \<Rightarrow> go_error + string list" where
  "place_hosts [] output = Inr output"
| "place_hosts (srv # srvs) output =
     (case cacheIndexFor (srv_Target srv) of
        Inl err \<Rightarrow> Inl err
      | Inr cacheIndex \<Rightarrow> place_hosts srvs (output[nat cacheIndex := srv_hostname srv]))"

text \<open>
  \<open>make\<close> panics if the length is negative or its strings, of 16 bytes each, exceed the address space of
  \<open>2 ^ 48\<close> bytes; a slot that no host claims stays empty.
\<close>

definition max_strings :: int where
  "max_strings = 2 ^ 48 div 16"

definition orderCacheHosts :: "SRV list \<Rightarrow> (go_error + string list) outcome" where
  "orderCacheHosts srvs =
     (case highest_index srvs 0 of
        Inl err \<Rightarrow> Ret (Inl err)
      | Inr highestIndex \<Rightarrow>
          let n = wrap64 (highestIndex + 1)
          in if n < 0 \<or> n > max_strings then Panic ''makeslice: len out of range''
             else Ret (place_hosts srvs (replicate (nat n) '''')))"

definition LookupCacheHosts ::
  "(string \<Rightarrow> go_error + SRV list) \<Rightarrow> string \<Rightarrow> (go_error + string list) outcome" where
  "LookupCacheHosts lookupSRV srvName =
     (case lookupSRV srvName of Inl err \<Rightarrow> Ret (Inl err) | Inr srvs \<Rightarrow> orderCacheHosts srvs)"

lemma hostname_index_digits: "hostname_index_match s = Some d \<Longrightarrow> d \<noteq> [] \<and> list_all is_digit d"
  by (auto simp: hostname_index_match_def Let_def list_all_iff split: if_splits dest: set_takeWhileD)

lemma parse_int_digits_nonneg:
  assumes "parse_int d = Inr i" "d \<noteq> []" "list_all is_digit d"
  shows "0 \<le> i"
proof -
  obtain c cs where d: "d = c # cs" using assms(2) by (cases d) auto
  then have "c \<noteq> CHR ''-''" using assms(3) by auto
  then show ?thesis
    using assms(1) d by (auto simp: parse_int_def Let_def dest!: parse_uint_nonneg split: sum.splits if_splits)
qed

lemma cacheIndexFor_nonneg: "cacheIndexFor h = Inr i \<Longrightarrow> 0 \<le> i \<and> in64 i"
  using parse_int_digits_nonneg hostname_index_digits parse_int_in64
  by (fastforce simp: cacheIndexFor_def split: option.splits)

lemma highest_index_bound:
  "highest_index srvs h = Inr k \<Longrightarrow>
     h \<le> k \<and> (\<forall>s \<in> set srvs. \<exists>i. cacheIndexFor (srv_Target s) = Inr i \<and> i \<le> k) \<and>
     (k = h \<or> (\<exists>s \<in> set srvs. cacheIndexFor (srv_Target s) = Inr k))"
  by (induction srvs arbitrary: h) (fastforce split: sum.splits if_splits)+

text \<open>The last host that claims a slot gets it.\<close>

definition claims :: "int64 \<Rightarrow> SRV \<Rightarrow> bool" where
  "claims i s \<longleftrightarrow> cacheIndexFor (srv_Target s) = Inr i"

lemma place_hosts_nth:
  assumes "\<forall>s \<in> set srvs. \<exists>i. cacheIndexFor (srv_Target s) = Inr i \<and> 0 \<le> i \<and> i < int (length out)"
  shows "\<exists>res. place_hosts srvs out = Inr res \<and> length res = length out \<and>
     (\<forall>i < length out. res ! i = (case find (claims (int i)) (rev srvs) of
        Some s \<Rightarrow> srv_hostname s | None \<Rightarrow> out ! i))"
  using assms
proof (induction srvs arbitrary: out)
  case Nil
  then show ?case by simp
next
  case (Cons s srvs)
  from Cons.prems obtain k where k: "cacheIndexFor (srv_Target s) = Inr k" "0 \<le> k" "k < int (length out)" by auto
  let ?out = "out[nat k := srv_hostname s]"
  obtain res where r: "place_hosts srvs ?out = Inr res" "length res = length out"
    "\<forall>i < length out. res ! i = (case find (claims (int i)) (rev srvs) of
        Some s \<Rightarrow> srv_hostname s | None \<Rightarrow> ?out ! i)"
    using Cons.IH [of ?out] Cons.prems by auto
  have fa: "find P (xs @ [x]) = (case find P xs of None \<Rightarrow> if P x then Some x else None | Some y \<Rightarrow> Some y)"
    for P and xs :: "SRV list" and x by (induction xs) auto
  have "res ! i = (case find (claims (int i)) (rev (s # srvs)) of
      Some s \<Rightarrow> srv_hostname s | None \<Rightarrow> out ! i)" if "i < length out" for i
    using r(3) that k by (auto simp: fa claims_def nth_list_update split: option.splits)
  with r(1,2) k show ?case by simp
qed

section \<open>The PID file\<close>

text \<open>
  A file with an advisory lock: its content and the process that holds the lock. A PID file is
  opened without truncation, so the first write of a process starts at the beginning of what
  was there. \<open>None\<close> as the result of a step means that it blocks.
\<close>

record pid_store =
  pf_content :: string
  pf_lock :: "int64 option"

type_synonym pid_action = "pid_store \<Rightarrow> (go_error option \<times> pid_store) option"

fun executeFuncs :: "pid_action list \<Rightarrow> pid_action" where
  "executeFuncs [] s = Some (None, s)"
| "executeFuncs (fn # fns) s =
     (case fn s of
        None \<Rightarrow> None
      | Some (Some err, s') \<Rightarrow> Some (Some err, s')
      | Some (None, s') \<Rightarrow> executeFuncs fns s')"

text \<open>
  \<open>flock\<close> with \<open>LOCK_EX\<close>: it succeeds if no other process holds the lock; otherwise it fails
  when it must not block, and waits when it may.
\<close>

definition flock_ex :: "bool \<Rightarrow> int64 \<Rightarrow> pid_action" where
  "flock_ex nonblocking pid s =
     (if pf_lock s \<in> {None, Some pid} then Some (None, s\<lparr>pf_lock := Some pid\<rparr>)
      else if nonblocking then Some (Some (Errorf ''resource temporarily unavailable''), s) else None)"

definition flock_un :: "int64 \<Rightarrow> pid_action" where
  "flock_un pid s = Some (None, if pf_lock s = Some pid then s\<lparr>pf_lock := None\<rparr> else s)"

definition writePID :: "int64 \<Rightarrow> pid_action" where
  "writePID pid s =
     (let d = int_dec pid in Some (None, s\<lparr>pf_content := d @ drop (length d) (pf_content s)\<rparr>))"

text \<open>The first function of \<open>Acquire\<close>: try the lock, and wait for it if that fails.\<close>

definition lock_or_wait :: "int64 \<Rightarrow> pid_action" where
  "lock_or_wait pid s =
     (case flock_ex True pid s of
        Some (Some err, s') \<Rightarrow> flock_ex False pid s'
      | r \<Rightarrow> r)"

text \<open>\<open>sync\<close> and \<open>close\<close> are the results of the two calls on the file.\<close>

definition Acquire :: "go_error option \<Rightarrow> int64 \<Rightarrow> pid_action" where
  "Acquire sync pid = executeFuncs [lock_or_wait pid, writePID pid, \<lambda>s. Some (sync, s)]"

text \<open>Closing the file releases the lock as well.\<close>

definition Release :: "go_error option \<Rightarrow> int64 \<Rightarrow> pid_action" where
  "Release close pid = executeFuncs [flock_un pid, \<lambda>s. Some (close, s)]"

text \<open>
  The PID files by their paths; every path has its own lock. Opening a path creates the file, empty,
  unless it exists; \<open>opened\<close> is the error of opening a path, if any. An open file stands for its path.
\<close>

type_synonym pid_files = "string \<Rightarrow> pid_store"

record PIDFile =
  pid_path :: string

definition NewPIDFile :: "(string \<Rightarrow> go_error option) \<Rightarrow> string \<Rightarrow> go_error + PIDFile" where
  "NewPIDFile opened path = (case opened path of Some err \<Rightarrow> Inl err | None \<Rightarrow> Inr \<lparr>pid_path = path\<rparr>)"

text \<open>Processes that acquire and release; \<open>inside\<close> are those between the two.\<close>

record pid_sys =
  store :: pid_store
  inside :: "int64 set"

inductive pid_step :: "pid_sys \<Rightarrow> pid_sys \<Rightarrow> bool" where
  pid_enter: "p \<notin> inside s \<Longrightarrow> Acquire sync p (store s) = Some (None, st) \<Longrightarrow>
     pid_step s (s\<lparr>store := st, inside := insert p (inside s)\<rparr>)"
| pid_leave: "p \<in> inside s \<Longrightarrow> Release close p (store s) = Some (e, st) \<Longrightarrow>
     pid_step s (s\<lparr>store := st, inside := inside s - {p}\<rparr>)"

definition pid_init :: "pid_sys \<Rightarrow> bool" where
  "pid_init s \<longleftrightarrow> pf_lock (store s) = None \<and> inside s = {}"

definition pid_inv :: "pid_sys \<Rightarrow> bool" where
  "pid_inv s \<longleftrightarrow> inside s = set_option (pf_lock (store s))"

lemma Acquire_cases:
  "Acquire sync p s =
     (if pf_lock s \<in> {None, Some p}
      then Some (sync, s\<lparr>pf_lock := Some p, pf_content := int_dec p @ drop (length (int_dec p)) (pf_content s)\<rparr>)
      else None)"
  by (cases sync) (auto simp: Acquire_def lock_or_wait_def flock_ex_def writePID_def Let_def)

lemma Release_cases:
  "Release close p s = Some (close, if pf_lock s = Some p then s\<lparr>pf_lock := None\<rparr> else s)"
  by (cases close) (auto simp: Release_def flock_un_def)

interpretation pid: invariant_system pid_init pid_step pid_inv
proof unfold_locales
  show "pid_init s \<Longrightarrow> pid_inv s" for s by (simp add: pid_init_def pid_inv_def)
  show "pid_inv s \<Longrightarrow> pid_step s t \<Longrightarrow> pid_inv t" for s t
    by (erule pid_step.cases)
       (auto simp: pid_inv_def Acquire_cases Release_cases split: if_splits)
qed

section \<open>Properties\<close>

text \<open>C31. The order of the cache hosts follows the numbers in their names and nothing else: the list
  has one slot more than the highest number, the slot of a number holds the host with that
  number (the last one, if several claim it), and a number that no host has leaves its slot
  empty, so that a missing host does not move the others. A highest number of \<open>2 ^ 44\<close> or more
  exceeds what can be allocated, and the program panics.\<close>

theorem cache_hosts_ordered:
  assumes "\<forall>s \<in> set srvs. \<exists>i. cacheIndexFor (srv_Target s) = Inr i \<and> i < 2 ^ 63 - 1"
  shows "\<exists>output. orderCacheHosts srvs =
       (if int (length output) \<le> max_strings then Ret (Inr output) else Panic ''makeslice: len out of range'') \<and>
     (\<forall>i < length output. output ! i = (case find (claims (int i)) (rev srvs) of
        Some s \<Rightarrow> srv_hostname s | None \<Rightarrow> '''')) \<and>
     (\<forall>s \<in> set srvs. \<exists>i < length output. claims (int i) s) \<and>
     (length output = 1 \<or> (\<exists>s \<in> set srvs. claims (int (length output) - 1) s)) \<and>
     (srvs = [] \<longrightarrow> output = [''''])"
proof -
  have "\<exists>k. highest_index srvs h = Inr k" for h
    using assms by (induction srvs arbitrary: h) auto
  then obtain k where hk: "highest_index srvs 0 = Inr k" by blast
  note b = highest_index_bound [OF hk]
  have k: "0 \<le> k" "k < 2 ^ 63 - 1" using b assms by auto
  have w: "wrap64 (k + 1) = k + 1" using k by (intro wrap64_nonneg) auto
  have idx: "\<forall>s \<in> set srvs. \<exists>i. cacheIndexFor (srv_Target s) = Inr i \<and> 0 \<le> i \<and>
      i < int (length (replicate (nat (k + 1)) ([] :: string)))"
  proof
    fix s
    assume "s \<in> set srvs"
    then obtain i where i: "cacheIndexFor (srv_Target s) = Inr i" "i \<le> k" using b by blast
    with cacheIndexFor_nonneg [OF i(1)] k show "\<exists>i. cacheIndexFor (srv_Target s) = Inr i \<and> 0 \<le> i \<and>
      i < int (length (replicate (nat (k + 1)) ([] :: string)))" by auto
  qed
  obtain res where p: "place_hosts srvs (replicate (nat (k + 1)) []) = Inr res"
    "length res = length (replicate (nat (k + 1)) ([] :: string))"
    "\<forall>i < length (replicate (nat (k + 1)) ([] :: string)). res ! i =
       (case find (claims (int i)) (rev srvs) of
          Some s \<Rightarrow> srv_hostname s | None \<Rightarrow> replicate (nat (k + 1)) [] ! i)"
    using place_hosts_nth [OF idx] by blast
  then have len: "length res = nat (k + 1)" by simp
  have r: "res ! i = (case find (claims (int i)) (rev srvs) of Some s \<Rightarrow> srv_hostname s | None \<Rightarrow> [])"
    if "i < length res" for i
    using p(3) that len by (simp split: option.splits)
  have c: "\<exists>i < length res. claims (int i) s" if mem: "s \<in> set srvs" for s
  proof -
    obtain i where i: "cacheIndexFor (srv_Target s) = Inr i" "0 \<le> i" "i < k + 1"
      using bspec [OF idx mem] k by auto
    then show ?thesis using len by (intro exI [of _ "nat i"]) (auto simp: claims_def)
  qed
  have "orderCacheHosts srvs =
      (if int (length res) \<le> max_strings then Ret (Inr res) else Panic ''makeslice: len out of range'')"
    using hk w k p(1) len by (simp add: orderCacheHosts_def)
  moreover have "length res = 1 \<or> (\<exists>s \<in> set srvs. claims (int (length res) - 1) s)"
    using b k len by (auto simp: claims_def)
  moreover have "srvs = [] \<longrightarrow> res = [[]]" using hk p(1) by auto
  ultimately show ?thesis using r c by blast
qed

theorem cache_hosts_ordered_witness:
  "\<exists>output. orderCacheHosts [\<lparr>srv_Target = ''c-2.x.'', srv_Port = 80\<rparr>, \<lparr>srv_Target = ''c-0.x.'', srv_Port = 8080\<rparr>] =
     Ret (Inr output) \<and> output ! 0 = ''c-0.x:8080''"
proof -
  let ?srvs = "[\<lparr>srv_Target = ''c-2.x.'', srv_Port = 80\<rparr>, \<lparr>srv_Target = ''c-0.x.'', srv_Port = 8080\<rparr>]"
  have i: "cacheIndexFor ''c-2.x.'' = Inr 2" "cacheIndexFor ''c-0.x.'' = Inr 0" by code_simp+
  have h: "srv_hostname \<lparr>srv_Target = ''c-0.x.'', srv_Port = 8080\<rparr> = ''c-0.x:8080''" by code_simp
  have "\<forall>s \<in> set ?srvs. \<exists>i. cacheIndexFor (srv_Target s) = Inr i \<and> i < 2 ^ 63 - 1" using i by simp
  from cache_hosts_ordered [OF this] obtain out where
    o: "orderCacheHosts ?srvs =
      (if int (length out) \<le> max_strings then Ret (Inr out) else Panic ''makeslice: len out of range'')"
    "\<forall>i < length out. out ! i = (case find (claims (int i)) (rev ?srvs) of
        Some s \<Rightarrow> srv_hostname s | None \<Rightarrow> '''')" "\<forall>s \<in> set ?srvs. \<exists>i < length out. claims (int i) s"
    and l: "length out = 1 \<or> (\<exists>s \<in> set ?srvs. claims (int (length out) - 1) s)"
    by blast
  have "0 < length out" using o(3) by (cases out) auto
  moreover have "int (length out) \<le> max_strings" using l i by (auto simp: claims_def max_strings_def)
  ultimately show ?thesis using o(1,2) i h by (auto simp: claims_def)
qed

text \<open>C32. At most one process at a time is between a successful \<open>Acquire\<close> and its \<open>Release\<close> of the
  PID file.\<close>

theorem pid_file_excludes:
  assumes "reachable pid_init pid_step s" "p \<in> inside s" "q \<in> inside s"
  shows "p = q"
  using pid.inv_reachable [OF assms(1)] assms(2,3) by (auto simp: pid_inv_def)

theorem pid_file_excludes_witness: "\<exists>s. reachable pid_init pid_step s \<and> inside s = {7}"
proof -
  let ?s = "\<lparr>store = \<lparr>pf_content = '''', pf_lock = None\<rparr>, inside = {}\<rparr>"
  let ?t = "?s\<lparr>store := \<lparr>pf_content = int_dec 7, pf_lock = Some 7\<rparr>, inside := insert 7 (inside ?s)\<rparr>"
  have "reachable pid_init pid_step ?s" by (rule reach_init) (simp add: pid_init_def)
  moreover have "pid_step ?s ?t" by (rule pid_enter [of _ _ None]) (simp_all add: Acquire_cases)
  ultimately have r: "reachable pid_init pid_step ?t" by (rule reach_step)
  moreover have "inside ?t = {7}" using pid_file_excludes [OF r, of _ 7] by auto
  ultimately show ?thesis by blast
qed

text \<open>The PID file is not truncated: a process with a shorter PID leaves the last digits of its
  predecessor behind its own, so the file does not hold its PID.\<close>

theorem pid_file_keeps_old_digits:
  assumes "Acquire sync p \<lparr>pf_content = int_dec q, pf_lock = None\<rparr> = Some (e, s)"
    and "length (int_dec p) < length (int_dec q)"
  shows "pf_content s = int_dec p @ drop (length (int_dec p)) (int_dec q) \<and> pf_content s \<noteq> int_dec p"
  using assms by (auto simp: Acquire_cases)

theorem pid_file_keeps_old_digits_witness:
  "pf_content \<lparr>pf_content = ''99945'', pf_lock = Some (999 :: int64)\<rparr> = ''99945''"
proof -
  have d: "int_dec 999 = ''999''" "int_dec 12345 = ''12345''" by code_simp+
  have "Acquire None 999 \<lparr>pf_content = int_dec 12345, pf_lock = None\<rparr> =
      Some (None, \<lparr>pf_content = ''99945'', pf_lock = Some 999\<rparr>)"
    by (simp add: Acquire_cases d)
  from pid_file_keeps_old_digits [OF this] d show ?thesis by simp
qed

end
