(* ===== verification/Manifest.thy ===== *)
theory Manifest
  imports Cli_Common
begin

text \<open>
  Model of cmd/multifile/manifest.go: a manifest lists pairs of a URL and a destination, one
  pair per line. The lines come from \<open>bufio.Scanner\<close>, which gives up at a line that does not
  fit into its buffer.
\<close>

section \<open>Entries\<close>

record ManifestEntry =
  me_URL :: string
  me_Dest :: string

definition AddEntry :: "ManifestEntry list \<Rightarrow> string \<Rightarrow> string \<Rightarrow> ManifestEntry list" where
  "AddEntry m url destination = m @ [\<lparr>me_URL = url, me_Dest = destination\<rparr>]"

section \<open>The file and its lines\<close>

datatype input = Stdin | Opened string

text \<open>\<open>stat\<close> and \<open>open_file\<close> are the results of the two calls of package os.\<close>

definition manifestFile ::
  "(string \<Rightarrow> go_error option) \<Rightarrow> (string \<Rightarrow> go_error option) \<Rightarrow> string \<Rightarrow> go_error + input" where
  "manifestFile stat open_file manifestPath =
     (if manifestPath = ''-'' then Inr Stdin
      else if (case stat manifestPath of None \<Rightarrow> False | Some e \<Rightarrow> errors_is e ErrNotExist)
      then Inl (Errorf (''manifest file '' @ manifestPath @ '' does not exist''))
      else case open_file manifestPath of
             Some err \<Rightarrow> Inl (Wrapf (''error opening manifest file '' @ manifestPath) err)
           | None \<Rightarrow> Inr (Opened manifestPath))"

text \<open>
  \<open>bufio.Scanner\<close> with \<open>ScanLines\<close>: lines end at a newline, which is dropped together with a
  carriage return before it, and a last line without a newline counts if it is not empty. The
  buffer holds 65536 bytes: a line that fills it without a newline stops the scanner, and so
  does a read error, after the bytes read before it were used.
\<close>

definition newline :: char where
  "newline = CHR 0x0A"

definition drop_cr :: "string \<Rightarrow> string" where
  "drop_cr l = (if l \<noteq> [] \<and> last l = CHR 0x0D then butlast l else l)"

definition segments :: "string \<Rightarrow> string list" where
  "segments content =
     (let ls = split_on newline content in if last ls = [] then butlast ls else ls)"

definition fits_buffer :: "string \<Rightarrow> bool" where
  "fits_buffer l \<longleftrightarrow> length l < 65536"

definition scan_lines :: "string \<Rightarrow> string list" where
  "scan_lines content = map drop_cr (takeWhile fits_buffer (segments content))"

section \<open>Parsing\<close>

definition parseLine :: "string \<Rightarrow> go_error + string \<times> string" where
  "parseLine line =
     (case Go_Strings.fields line of
        [url, dest] \<Rightarrow> Inr (url, dest)
      | _ \<Rightarrow> Inl (Errorf (''error parsing manifest invalid line format '' @ line)))"

definition checkSeenDestinations :: "(string \<rightharpoonup> string) \<Rightarrow> string \<Rightarrow> string \<Rightarrow> go_error option" where
  "checkSeenDestinations destinations dest url =
     (case destinations dest of
        None \<Rightarrow> None
      | Some seenURL \<Rightarrow>
          if seenURL \<noteq> url
          then Some (Errorf (''duplicate destination '' @ dest @ '' with different urls: '' @ seenURL @ '' and '' @ url))
          else Some (Sentinel ErrDupeURLDestCombo))"

fun manifest_loop ::
  "(string \<Rightarrow> go_error + URL) \<Rightarrow> settings \<Rightarrow> (string \<Rightarrow> go_error option) \<Rightarrow> string list \<Rightarrow>
     (string \<rightharpoonup> string) \<Rightarrow> ManifestEntry list \<Rightarrow> go_error + ManifestEntry list" where
  "manifest_loop url_parse cfg stat [] seen manifest = Inr manifest"
| "manifest_loop url_parse cfg stat (text # rest) seen manifest =
     (let line = trim_space text
      in if line = '''' then manifest_loop url_parse cfg stat rest seen manifest
         else case parseLine line of
           Inl err \<Rightarrow> Inl err
         | Inr (url, dest) \<Rightarrow>
             (case url_parse url of
                Inl err \<Rightarrow> Inl err
              | Inr _ \<Rightarrow>
                  if GetString cfg OptOutputConsumer \<noteq> ''null''
                  then (case checkSeenDestinations seen dest url of
                      Some err \<Rightarrow>
                        if errors_is err ErrDupeURLDestCombo
                        then manifest_loop url_parse cfg stat rest seen manifest
                        else Inl err
                    | None \<Rightarrow>
                        (case EnsureDestinationNotExist cfg stat dest of
                           Some err \<Rightarrow> Inl err
                         | None \<Rightarrow> manifest_loop url_parse cfg stat rest (seen(dest \<mapsto> url))
                                     (AddEntry manifest url dest)))
                  else manifest_loop url_parse cfg stat rest seen (AddEntry manifest url dest)))"

definition parseManifest ::
  "(string \<Rightarrow> go_error + URL) \<Rightarrow> settings \<Rightarrow> (string \<Rightarrow> go_error option) \<Rightarrow> string \<Rightarrow>
     go_error + ManifestEntry list" where
  "parseManifest url_parse cfg stat content =
     manifest_loop url_parse cfg stat (scan_lines content) Map.empty []"

section \<open>The entries of a manifest\<close>

text \<open>What the lines say, before duplicates are dropped.\<close>

definition line_entries :: "string list \<Rightarrow> ManifestEntry list" where
  "line_entries texts =
     concat (map (\<lambda>t. case parseLine (trim_space t) of
        Inl _ \<Rightarrow> [] | Inr (u, d) \<Rightarrow> [\<lparr>me_URL = u, me_Dest = d\<rparr>]) texts)"

text \<open>The destinations seen so far are those of the entries, with their URLs.\<close>

definition seen_of :: "ManifestEntry list \<Rightarrow> (string \<rightharpoonup> string)" where
  "seen_of es = map_of (map (\<lambda>e. (me_Dest e, me_URL e)) es)"

lemma seen_of_None: "seen_of es d = None \<longleftrightarrow> d \<notin> me_Dest ` set es"
  by (force simp: seen_of_def map_of_eq_None_iff image_image)

lemma seen_of_add:
  "d \<notin> me_Dest ` set es \<Longrightarrow> seen_of (AddEntry es u d) = (seen_of es)(d \<mapsto> u)"
proof -
  assume "d \<notin> me_Dest ` set es"
  then have "map_of (map (\<lambda>e. (me_Dest e, me_URL e)) es) d = None"
    by (force simp: map_of_eq_None_iff)
  then show ?thesis by (auto simp: seen_of_def AddEntry_def map_add_def fun_eq_iff split: option.splits)
qed

lemma seen_of_Some: "seen_of es d = Some u \<Longrightarrow> \<lparr>me_URL = u, me_Dest = d\<rparr> \<in> set es"
proof -
  assume "seen_of es d = Some u"
  then have "(d, u) \<in> set (map (\<lambda>e. (me_Dest e, me_URL e)) es)" unfolding seen_of_def by (rule map_of_SomeD)
  then obtain e where e: "e \<in> set es" "me_Dest e = d" "me_URL e = u" by auto
  have "e = \<lparr>me_URL = u, me_Dest = d\<rparr>" using e(2,3) by (cases e) simp
  with e(1) show ?thesis by metis
qed

text \<open>The first occurrence of every element.\<close>

fun firsts :: "'a list \<Rightarrow> 'a list \<Rightarrow> 'a list" where
  "firsts acc [] = acc"
| "firsts acc (x # xs) = firsts (if x \<in> set acc then acc else acc @ [x]) xs"

lemma set_firsts: "set (firsts acc xs) = set acc \<union> set xs"
  by (induction acc xs rule: firsts.induct) auto

text \<open>A step of the loop on a line with an entry, for a consumer that writes.\<close>

lemma manifest_loop_ok:
  assumes "GetString cfg OptOutputConsumer \<noteq> ''null''"
    and "manifest_loop url_parse cfg stat texts (seen_of es) es = Inr res"
    and "distinct (map me_Dest es)" "\<forall>e \<in> set es. EnsureDestinationNotExist cfg stat (me_Dest e) = None"
  shows "res = firsts es (line_entries texts) \<and> distinct (map me_Dest res) \<and>
     (\<forall>e \<in> set res. EnsureDestinationNotExist cfg stat (me_Dest e) = None)"
  using assms(2-4)
proof (induction texts arbitrary: es)
  case Nil
  then show ?case by (simp add: line_entries_def)
next
  case (Cons t texts)
  show ?case
  proof (cases "trim_space t = []")
    case True
    moreover have "parseLine [] = Inl (Errorf (''error parsing manifest invalid line format ''))"
      by (simp add: parseLine_def Go_Strings.fields_def)
    ultimately show ?thesis using Cons by (simp add: line_entries_def)
  next
    case False
    from Cons.prems(1) False obtain u d where pl: "parseLine (trim_space t) = Inr (u, d)"
      by (auto simp: Let_def split: sum.splits)
    let ?e = "\<lparr>me_URL = u, me_Dest = d\<rparr>"
    have le: "line_entries (t # texts) = ?e # line_entries texts" using pl by (simp add: line_entries_def)
    show ?thesis
    proof (cases "seen_of es d")
      case None
      then have nd: "d \<notin> me_Dest ` set es" by (simp add: seen_of_None)
      have en: "EnsureDestinationNotExist cfg stat d = None"
        and loop: "manifest_loop url_parse cfg stat texts (seen_of (AddEntry es u d)) (AddEntry es u d) = Inr res"
        using Cons.prems(1) False pl None assms(1) seen_of_add [OF nd, of u]
        by (auto simp: Let_def checkSeenDestinations_def split: sum.splits option.splits)
      have "?e \<notin> set es" using nd by force
      then have f: "firsts es (line_entries (t # texts)) = firsts (AddEntry es u d) (line_entries texts)"
        by (simp add: le AddEntry_def)
      show ?thesis
        unfolding f using Cons.prems(2,3) nd en by (intro Cons.IH [OF loop]) (auto simp: AddEntry_def)
    next
      case (Some u')
      then have "u' = u" and loop: "manifest_loop url_parse cfg stat texts (seen_of es) es = Inr res"
        using Cons.prems(1) False pl assms(1)
        by (auto simp: Let_def checkSeenDestinations_def split: sum.splits if_splits)
      then have "?e \<in> set es" using Some seen_of_Some by blast
      then have f: "firsts es (line_entries (t # texts)) = firsts es (line_entries texts)" by (simp add: le)
      show ?thesis unfolding f by (rule Cons.IH [OF loop Cons.prems(2,3)])
    qed
  qed
qed

section \<open>Printing a manifest\<close>

text \<open>Printable ASCII without the blank: such bytes belong to no white-space rune.\<close>

definition graph_char :: "char \<Rightarrow> bool" where
  "graph_char c \<longleftrightarrow> (33::int) \<le> of_char c \<and> of_char c < (127::int)"

definition token :: "string \<Rightarrow> bool" where
  "token s \<longleftrightarrow> s \<noteq> [] \<and> list_all graph_char s"

definition print_entry :: "ManifestEntry \<Rightarrow> string" where
  "print_entry e = me_URL e @ '' '' @ me_Dest e"

definition print_manifest :: "ManifestEntry list \<Rightarrow> string" where
  "print_manifest es = concat (map (\<lambda>e. print_entry e @ [newline]) es)"

lemma white_space_hd: "w \<in> set white_space \<Longrightarrow> w \<noteq> [] \<and> \<not> graph_char (hd w) \<and> \<not> graph_char (last w)"
proof -
  have "list_all (\<lambda>w. w \<noteq> [] \<and> \<not> graph_char (hd w) \<and> \<not> graph_char (last w)) white_space" by code_simp
  then show "w \<in> set white_space \<Longrightarrow> w \<noteq> [] \<and> \<not> graph_char (hd w) \<and> \<not> graph_char (last w)"
    by (simp add: list_all_iff)
qed

lemma space_len_graph: "graph_char c \<Longrightarrow> space_len (c # s) = 0"
proof -
  assume g: "graph_char c"
  have "filter (has_prefix (c # s)) white_space = []"
    using white_space_hd g by (fastforce simp: filter_empty_conv neq_Nil_conv)
  then show ?thesis by (simp add: space_len_def)
qed

lemma end_space_len_graph: "graph_char c \<Longrightarrow> end_space_len (s @ [c]) = 0"
proof -
  assume g: "graph_char c"
  have "\<not> has_suffix (s @ [c]) w" if ws: "w \<in> set white_space" for w
  proof
    assume suf: "has_suffix (s @ [c]) w"
    have "rev w = last w # rev (butlast w)"
      using white_space_hd [OF ws] by (metis append_butlast_last_id rev_append rev.simps(2) append_Cons append_Nil rev.simps(1))
    with suf have "c = last w" by (simp add: has_suffix_def)
    then show False using white_space_hd [OF ws] g by simp
  qed
  then show ?thesis by (simp add: end_space_len_def filter_empty_conv)
qed

lemma trim_token_ends:
  assumes "graph_char c" "graph_char d"
  shows "trim_space (c # s @ [d]) = c # s @ [d]"
proof -
  have "trim_left (c # s @ [d]) = c # s @ [d]"
    by (subst trim_left.simps) (simp add: space_len_graph assms(1))
  moreover have "trim_right ((c # s) @ [d]) = (c # s) @ [d]"
    by (subst trim_right.simps) (simp only: end_space_len_graph assms(2) if_True simp_thms)
  ultimately show ?thesis by (simp add: trim_space_def)
qed

lemma fields_loop_token:
  "list_all graph_char t \<Longrightarrow> fields_loop cur (t @ rest) = fields_loop (rev t @ cur) rest"
  by (induction t arbitrary: cur) (simp_all add: space_len_graph)

lemma space_len_blank: "space_len (CHR '' '' # s) = 1"
proof -
  have "filter (has_prefix (CHR '' '' # s)) white_space = [[CHR '' '']]"
    by (simp add: white_space_def)
  then show ?thesis by (simp add: space_len_def)
qed

lemma parseLine_print:
  assumes "token u" "token d"
  shows "parseLine (trim_space (u @ '' '' @ d)) = Inr (u, d)"
proof -
  obtain c u' where u: "u = c # u'" "graph_char c" using assms(1) by (cases u) (auto simp: token_def)
  obtain d' e where d: "d = d' @ [e]" "graph_char e"
    using assms(2) by (cases d rule: rev_cases) (auto simp: token_def)
  have t: "trim_space (u @ '' '' @ d) = u @ '' '' @ d"
    using trim_token_ends [OF u(2) d(2), of "u' @ '' '' @ d'"] u d by simp
  have "fields_loop [] (u @ '' '' @ d) = [u, d]"
    using assms fields_loop_token [of u "[]" "'' '' @ d"] fields_loop_token [of d "[]" "[]"]
    by (simp add: token_def space_len_blank)
  then show ?thesis unfolding t by (simp add: parseLine_def Go_Strings.fields_def)
qed

lemma graph_not_special: "graph_char c \<Longrightarrow> c \<noteq> newline \<and> c \<noteq> CHR 0x0D \<and> c \<noteq> CHR '' ''"
  by (auto simp: graph_char_def newline_def)

lemma token_notin: "token s \<Longrightarrow> newline \<notin> set s \<and> CHR 0x0D \<notin> set s"
  using graph_not_special by (fastforce simp: token_def list_all_iff)

lemma split_on_lines:
  "\<forall>l \<in> set ls. newline \<notin> set l \<Longrightarrow> split_on newline (concat (map (\<lambda>l. l @ [newline]) ls) @ rest) = ls @ split_on newline rest"
  by (induction ls) (auto simp: split_on_append)

lemma segments_lines:
  "\<forall>l \<in> set ls. newline \<notin> set l \<Longrightarrow> segments (concat (map (\<lambda>l. l @ [newline]) ls)) = ls"
  using split_on_lines [of ls "[]"] by (simp add: segments_def Let_def)

text \<open>An entry that can be printed: its line fits into the scanner's buffer.\<close>

definition printable :: "ManifestEntry \<Rightarrow> bool" where
  "printable e \<longleftrightarrow> token (me_URL e) \<and> token (me_Dest e) \<and> fits_buffer (print_entry e)"

lemma scan_lines_print:
  assumes "list_all printable es"
  shows "scan_lines (print_manifest es) = map print_entry es"
proof -
  have nl: "newline \<notin> set (print_entry e) \<and> drop_cr (print_entry e) = print_entry e \<and> fits_buffer (print_entry e)"
    if "e \<in> set es" for e
  proof -
    have p: "token (me_URL e)" "token (me_Dest e)" "fits_buffer (print_entry e)"
      using assms that by (auto simp: list_all_iff printable_def)
    then have "last (print_entry e) \<in> set (me_Dest e)" by (simp add: print_entry_def token_def)
    then have "drop_cr (print_entry e) = print_entry e" using token_notin [OF p(2)] by (auto simp: drop_cr_def)
    then show ?thesis using p token_notin [OF p(1)] token_notin [OF p(2)]
      by (auto simp: print_entry_def newline_def)
  qed
  have "print_manifest es = concat (map (\<lambda>l. l @ [newline]) (map print_entry es))"
    by (simp add: print_manifest_def comp_def)
  then have "segments (print_manifest es) = map print_entry es" using nl segments_lines [of "map print_entry es"] by auto
  moreover have "takeWhile fits_buffer (map print_entry es) = map print_entry es"
    using nl by (auto simp: takeWhile_eq_all_conv)
  moreover have "map drop_cr (map print_entry es) = map print_entry es" using nl by simp
  ultimately show ?thesis unfolding scan_lines_def by metis
qed

lemma manifest_loop_print:
  assumes "list_all printable es" "\<forall>e \<in> set es. \<exists>u. url_parse (me_URL e) = Inr u"
    and "GetString cfg OptOutputConsumer \<noteq> ''null''"
    and "distinct (map me_Dest (acc @ es))" "\<forall>e \<in> set es. EnsureDestinationNotExist cfg stat (me_Dest e) = None"
  shows "manifest_loop url_parse cfg stat (map print_entry es) (seen_of acc) acc = Inr (acc @ es)"
  using assms
proof (induction es arbitrary: acc)
  case Nil
  then show ?case by simp
next
  case (Cons e es)
  have p: "token (me_URL e)" "token (me_Dest e)" using Cons.prems by (auto simp: printable_def)
  have pl: "parseLine (trim_space (print_entry e)) = Inr (me_URL e, me_Dest e)"
    using parseLine_print [OF p] by (simp add: print_entry_def)
  have ne: "trim_space (print_entry e) \<noteq> []"
    using pl by (auto simp: parseLine_def Go_Strings.fields_def)
  have nd: "me_Dest e \<notin> me_Dest ` set acc" using Cons.prems(4) by auto
  have e: "\<lparr>me_URL = me_URL e, me_Dest = me_Dest e\<rparr> = e" by (cases e) simp
  have "manifest_loop url_parse cfg stat (map print_entry es) (seen_of (acc @ [e])) (acc @ [e]) =
      Inr ((acc @ [e]) @ es)"
    using Cons.prems by (intro Cons.IH) auto
  moreover have "seen_of (acc @ [e]) = (seen_of acc)(me_Dest e \<mapsto> me_URL e)"
    using seen_of_add [OF nd, of "me_URL e"] by (simp add: AddEntry_def e)
  moreover obtain u where "url_parse (me_URL e) = Inr u" using Cons.prems(2) by auto
  moreover have "seen_of acc (me_Dest e) = None" using nd by (simp add: seen_of_None)
  ultimately show ?case
    using pl ne Cons.prems(3,5) by (simp add: Let_def checkSeenDestinations_def AddEntry_def e)
qed

section \<open>Properties\<close>

text \<open>C28. A manifest that is accepted for a consumer that writes has, in the order of the lines, the
  pairs of its non-empty lines with repetitions left out; no two entries have the same
  destination, and no destination exists already, unless overwriting is allowed.\<close>

theorem manifest_entries_exact:
  assumes "GetString cfg OptOutputConsumer \<noteq> ''null''"
    and "parseManifest url_parse cfg stat content = Inr es"
  shows "es = firsts [] (line_entries (scan_lines content)) \<and> distinct (map me_Dest es) \<and>
     (\<forall>e \<in> set es. GetBool cfg OptForce \<or> (\<exists>err. stat (me_Dest e) = Some err \<and> errors_is err ErrNotExist))"
proof -
  have loop: "manifest_loop url_parse cfg stat (scan_lines content) (seen_of []) [] = Inr es"
    using assms(2) by (simp add: parseManifest_def seen_of_def)
  have "es = firsts [] (line_entries (scan_lines content)) \<and> distinct (map me_Dest es) \<and>
     (\<forall>e \<in> set es. EnsureDestinationNotExist cfg stat (me_Dest e) = None)"
    by (rule manifest_loop_ok [OF assms(1) loop]) simp_all
  moreover have "GetBool cfg OptForce \<or> (\<exists>err. stat d = Some err \<and> errors_is err ErrNotExist)"
    if "EnsureDestinationNotExist cfg stat d = None" for d
    using that by (auto simp: EnsureDestinationNotExist_def Let_def split: if_splits option.splits)
  ultimately show ?thesis by blast
qed

definition example_settings :: "string \<Rightarrow> settings" where
  "example_settings consumerName =
     \<lparr>GetString = (\<lambda>_. '''')(OptOutputConsumer := consumerName), GetBool = (\<lambda>_. False), GetInt = (\<lambda>_. 0), GetDuration = (\<lambda>_. 0),
      GetStringSlice = (\<lambda>_. []), GetStringMapString = (\<lambda>_. [])\<rparr>"

definition example_manifest :: "ManifestEntry list" where
  "example_manifest = [\<lparr>me_URL = ''https://h/a'', me_Dest = ''a''\<rparr>, \<lparr>me_URL = ''https://h/b'', me_Dest = ''b''\<rparr>]"

text \<open>C27. A manifest written with one blank between URL and destination and one entry per line is
  read back as it was written, if the names have no blanks, the lines fit into the scanner's
  buffer, the URLs parse, and the destinations are different and do not exist.\<close>

theorem manifest_roundtrip:
  assumes "list_all printable es" "\<forall>e \<in> set es. \<exists>u. url_parse (me_URL e) = Inr u"
    and "GetString cfg OptOutputConsumer \<noteq> ''null''" "distinct (map me_Dest es)"
    and "\<forall>e \<in> set es. EnsureDestinationNotExist cfg stat (me_Dest e) = None"
  shows "parseManifest url_parse cfg stat (print_manifest es) = Inr es"
proof -
  have "seen_of [] = Map.empty" by (simp add: seen_of_def)
  then show ?thesis
    using manifest_loop_print [where acc = "[]" and es = es and cfg = cfg and stat = stat] assms
      scan_lines_print [OF assms(1)] by (simp add: parseManifest_def)
qed

lemma example_printable: "list_all printable example_manifest"
  by (simp add: example_manifest_def printable_def token_def graph_char_def print_entry_def fits_buffer_def)

theorem manifest_roundtrip_witness:
  "parseManifest (\<lambda>s. Inr undefined) (example_settings ''file'') (\<lambda>_. Some (Sentinel ErrNotExist))
     (print_manifest example_manifest) = Inr example_manifest"
  by (rule manifest_roundtrip [OF example_printable])
     (simp_all add: example_settings_def EnsureDestinationNotExist_def Let_def example_manifest_def)

theorem manifest_entries_exact_witness:
  "example_manifest = firsts [] (line_entries (scan_lines (print_manifest example_manifest))) \<and>
     distinct (map me_Dest example_manifest)"
proof -
  have "parseManifest (\<lambda>s. Inr undefined) (example_settings ''file'') (\<lambda>_. Some (Sentinel ErrNotExist))
     (print_manifest example_manifest) = Inr example_manifest"
    using manifest_loop_print [OF example_printable, where acc = "[]" and url_parse = "\<lambda>s. Inr undefined"
        and cfg = "example_settings ''file''" and stat = "\<lambda>_. Some (Sentinel ErrNotExist)"]
      scan_lines_print [OF example_printable]
    by (simp add: parseManifest_def seen_of_def example_settings_def EnsureDestinationNotExist_def Let_def
        example_manifest_def)
  from manifest_entries_exact [OF _ this] show ?thesis by (simp add: example_settings_def)
qed

text \<open>C39. A line that does not fit into the scanner's buffer silently ends the manifest: everything
  from that line on is ignored and no error is reported.\<close>

theorem manifest_truncated_at_long_line:
  assumes "newline \<notin> set long" "65536 \<le> length long" "\<forall>l \<in> set ls. newline \<notin> set l"
  shows "parseManifest url_parse cfg stat (concat (map (\<lambda>l. l @ [newline]) ls) @ long @ newline # rest) =
     parseManifest url_parse cfg stat (concat (map (\<lambda>l. l @ [newline]) ls))"
proof -
  have sp: "split_on newline (concat (map (\<lambda>l. l @ [newline]) ls) @ long @ newline # rest) =
      ls @ long # split_on newline rest"
    using split_on_lines [OF assms(3), of "long @ newline # rest"] split_on_append [OF assms(1)] by simp
  have "takeWhile fits_buffer (segments (concat (map (\<lambda>l. l @ [newline]) ls) @ long @ newline # rest)) =
      takeWhile fits_buffer ls"
  proof -
    have "segments (concat (map (\<lambda>l. l @ [newline]) ls) @ long @ newline # rest) =
        ls @ long # (if last (split_on newline rest) = [] then butlast (split_on newline rest) else split_on newline rest)"
      unfolding segments_def sp Let_def by (simp add: butlast_append)
    moreover have "takeWhile fits_buffer (ls @ long # tl) = takeWhile fits_buffer ls" for tl
      using assms(2) by (induction ls) (simp_all add: fits_buffer_def)
    ultimately show ?thesis by simp
  qed
  then show ?thesis by (simp add: parseManifest_def scan_lines_def segments_lines [OF assms(3)])
qed

theorem manifest_truncated_at_long_line_witness:
  "parseManifest (\<lambda>s. Inr undefined) (example_settings ''file'') (\<lambda>_. None)
     (concat (map (\<lambda>l. l @ [newline]) [''   '']) @ replicate 65536 CHR ''x'' @ newline # ''bad'') =
   parseManifest (\<lambda>s. Inr undefined) (example_settings ''file'') (\<lambda>_. None) (concat (map (\<lambda>l. l @ [newline]) [''   '']))"
  by (rule manifest_truncated_at_long_line) (simp_all add: newline_def)

end
