(* ===== verification/Getter.thy ===== *)
theory Getter
  imports Consumers Range_Server Manifest
begin

text \<open>
  Model of pkg/rpget.go: the getter fetches one file or the files of a manifest with a strategy
  and hands the bytes to a consumer. The strategy is an interface of the program: the model
  takes its \<open>Fetch\<close> as an argument, and the contract both strategies fulfil is the locale
  \<open>download_strategy\<close>.
\<close>

section \<open>Metrics\<close>

text \<open>
  The values of the map \<open>Data\<close>; the type variable stands for floating-point numbers, and an error
  for its text.
\<close>

datatype 'f any_value = Str string | Int64 int64 | Float64 'f | ErrText go_error

record 'f MetricsPayload =
  mp_Source :: string
  mp_Type :: string
  mp_Data :: "string \<rightharpoonup> 'f any_value"

text \<open>
  The getter, with the values it takes from its surroundings: the endpoint of the metrics, the
  version, the throughput that follows from a size and the clock, and whether \<open>json.Marshal\<close>
  accepts a payload. The strategy is passed as the function \<open>Fetch\<close>.
\<close>

record 'f getter =
  g_Consumer :: "consumer option"
  g_MaxConcurrentFiles :: int64
  g_endpoint :: string
  g_version :: string
  g_throughput :: "int64 \<Rightarrow> 'f"
  g_marshals :: "'f MetricsPayload \<Rightarrow> bool"

text \<open>The payloads that are posted: errors and answers of the endpoint are ignored.\<close>

definition sendMetrics ::
  "'f getter \<Rightarrow> string \<Rightarrow> int64 \<Rightarrow> 'f \<Rightarrow> go_error option \<Rightarrow> 'f MetricsPayload list" where
  "sendMetrics g url sz throughput err =
     (if g_endpoint g = '''' then []
      else let base = [''url'' \<mapsto> Str url, ''size'' \<mapsto> Int64 sz, ''version'' \<mapsto> Str (g_version g)];
               payload = \<lparr>mp_Source = ''rpget'', mp_Type = ''download'',
                 mp_Data = (case err of
                    Some e \<Rightarrow> base(''error'' \<mapsto> ErrText e)
                  | None \<Rightarrow> base(''bytes_per_second'' \<mapsto> Float64 throughput))\<rparr>
           in if g_marshals g payload then [payload] else [])"

section \<open>One file\<close>

text \<open>What \<open>Fetch\<close> returns for a URL; \<open>None\<close> if it never does, for want of a worker that takes its job.\<close>

type_synonym fetch = "string \<Rightarrow> (go_error + delivery list \<times> int64) outcome option"

definition the_consumer :: "'f getter \<Rightarrow> consumer" where
  "the_consumer g = (case g_Consumer g of None \<Rightarrow> FileWriter False | Some c \<Rightarrow> c)"

text \<open>
  \<open>DownloadFile\<close>: the size and the error it returns, the file system and the metrics sent. The
  reader is read to its end before the consumer acts on it; \<open>None\<close> if \<open>Fetch\<close> never returns or a
  chunk never arrives. Both strategies return the size -1 with an error.
\<close>

definition DownloadFile ::
  "archive_reader \<Rightarrow> 'f::zero getter \<Rightarrow> fetch \<Rightarrow> file_system \<Rightarrow> string \<Rightarrow> string \<Rightarrow>
     ((int64 \<times> go_error option) \<times> file_system \<times> 'f MetricsPayload list) outcome option" where
  "DownloadFile archive g Fetch fs url dest =
     (case Fetch url of
        None \<Rightarrow> None
      | Some (Panic msg) \<Rightarrow> Some (Panic msg)
      | Some (Ret (Inl err)) \<Rightarrow> Some (Ret ((- 1, Some err), fs, sendMetrics g url (- 1) 0 (Some err)))
      | Some (Ret (Inr (readers, fileSize))) \<Rightarrow>
          (case multi_read readers of
             None \<Rightarrow> None
           | Some (Panic msg) \<Rightarrow> Some (Panic msg)
           | Some (Ret reader) \<Rightarrow>
               (case Consume archive (the_consumer g) fs reader dest fileSize of
                  (Some err, fs') \<Rightarrow>
                    Some (Ret ((fileSize, Some (Wrapf ''error writing file'' err)), fs',
                      sendMetrics g url fileSize 0 (Some err)))
                | (None, fs') \<Rightarrow>
                    Some (Ret ((fileSize, None), fs',
                      sendMetrics g url fileSize (g_throughput g fileSize) None)))))"

section \<open>Many files\<close>

text \<open>
  The downloads of a manifest run in goroutines of an \<open>errgroup\<close>, whose documented behaviour is
  part of the model: \<open>Go\<close> waits while the limit is reached, the group keeps the first error and
  then cancels its context, and \<open>Wait\<close> returns when every download has. The state holds the
  entries that are still to be queued, those whose download runs, those that are finished with
  their results, and the shared total.
\<close>

record 'f group =
  eg_waiting :: "ManifestEntry list"
  eg_running :: "ManifestEntry list"
  eg_finished :: "(ManifestEntry \<times> int64 \<times> go_error option) list"
  totalSize :: int64
  eg_err :: "go_error option"
  eg_panic :: "string option"
  eg_fs :: file_system
  eg_metrics :: "'f MetricsPayload list"

definition new_group :: "ManifestEntry list \<Rightarrow> file_system \<Rightarrow> 'f group" where
  "new_group manifest fs = \<lparr>eg_waiting = manifest, eg_running = [], eg_finished = [], totalSize = 0,
     eg_err = None, eg_panic = None, eg_fs = fs, eg_metrics = []\<rparr>"

text \<open>\<open>SetLimit\<close> is called for a limit other than 0, and a negative limit is no limit.\<close>

definition go_blocks :: "'f getter \<Rightarrow> 'f group \<Rightarrow> bool" where
  "go_blocks g st \<longleftrightarrow> 0 < g_MaxConcurrentFiles g \<and> g_MaxConcurrentFiles g \<le> int (length (eg_running st))"

text \<open>One round of the loop of \<open>downloadFilesFromManifest\<close>, if \<open>Go\<close> does not block.\<close>

definition queue_download :: "'f getter \<Rightarrow> 'f group \<Rightarrow> 'f group option" where
  "queue_download g st =
     (case eg_waiting st of
        [] \<Rightarrow> None
      | e # rest \<Rightarrow>
          if go_blocks g st then None
          else Some (st\<lparr>eg_waiting := rest, eg_running := eg_running st @ [e]\<rparr>))"

text \<open>\<open>downloadAndMeasure\<close>, with the group taking note of its result.\<close>

definition downloadAndMeasure ::
  "archive_reader \<Rightarrow> 'f::zero getter \<Rightarrow> fetch \<Rightarrow> ManifestEntry \<Rightarrow> 'f group \<Rightarrow> 'f group option" where
  "downloadAndMeasure archive g Fetch e st =
     (case DownloadFile archive g Fetch (eg_fs st) (me_URL e) (me_Dest e) of
        None \<Rightarrow> None
      | Some (Panic msg) \<Rightarrow> Some (st\<lparr>eg_panic := Some msg\<rparr>)
      | Some (Ret ((fileSize, err), fs', ms)) \<Rightarrow>
          Some (st\<lparr>eg_finished := eg_finished st @ [(e, fileSize, err)],
            totalSize := (if err = None then wrap64 (totalSize st + fileSize) else totalSize st),
            eg_err := (if eg_err st = None then err else eg_err st),
            eg_fs := fs', eg_metrics := eg_metrics st @ ms\<rparr>))"

text \<open>
  The events of a run: the next entry is queued, or the \<open>i\<close>-th running download finishes, with or
  without having noticed that the context was cancelled, which happens only after an error. A
  panic ends the program. The effects of one download on the file system are taken as one step.
\<close>

datatype event = Go | Finish nat bool

fun group_event ::
  "archive_reader \<Rightarrow> 'f::zero getter \<Rightarrow> (bool \<Rightarrow> fetch) \<Rightarrow> event \<Rightarrow> 'f group \<Rightarrow> 'f group option" where
  "group_event archive g Fetch Go st = (if eg_panic st \<noteq> None then None else queue_download g st)"
| "group_event archive g Fetch (Finish i cancelled) st =
     (if eg_panic st \<noteq> None \<or> i \<ge> length (eg_running st) \<or> (cancelled \<and> eg_err st = None) then None
      else downloadAndMeasure archive g (Fetch cancelled) (eg_running st ! i)
             (st\<lparr>eg_running := take i (eg_running st) @ drop (Suc i) (eg_running st)\<rparr>))"

fun group_run ::
  "archive_reader \<Rightarrow> 'f::zero getter \<Rightarrow> (bool \<Rightarrow> fetch) \<Rightarrow> event list \<Rightarrow> 'f group \<Rightarrow> 'f group option" where
  "group_run archive g Fetch [] st = Some st"
| "group_run archive g Fetch (ev # evs) st =
     (case group_event archive g Fetch ev st of None \<Rightarrow> None | Some st' \<Rightarrow> group_run archive g Fetch evs st')"

text \<open>What \<open>DownloadFiles\<close> returns at a state of the group: \<open>None\<close> while \<open>Wait\<close> blocks.\<close>

definition group_result :: "'f group \<Rightarrow> (int64 \<times> go_error option) outcome option" where
  "group_result st =
     (case eg_panic st of
        Some msg \<Rightarrow> Some (Panic msg)
      | None \<Rightarrow>
          if eg_waiting st \<noteq> [] \<or> eg_running st \<noteq> [] then None
          else Some (Ret (case eg_err st of
                 Some err \<Rightarrow> (0, Some (Wrapf ''error downloading files'' err))
               | None \<Rightarrow> (totalSize st, None))))"

text \<open>\<open>DownloadFiles\<close> for one interleaving of the downloads.\<close>

definition DownloadFiles ::
  "archive_reader \<Rightarrow> 'f::zero getter \<Rightarrow> (bool \<Rightarrow> fetch) \<Rightarrow> ManifestEntry list \<Rightarrow> event list \<Rightarrow> file_system \<Rightarrow>
     ((int64 \<times> go_error option) outcome \<times> 'f group) option" where
  "DownloadFiles archive g Fetch manifest events fs =
     (case group_run archive g Fetch events (new_group manifest fs) of
        None \<Rightarrow> None
      | Some st \<Rightarrow> map_option (\<lambda>r. (r, st)) (group_result st))"

section \<open>The contract of a strategy\<close>

text \<open>
  \<open>ready m url content\<close> collects what a strategy needs of its surroundings to download the
  content behind a URL; then \<open>Fetch\<close> returns readers of the whole content and its size.
\<close>

locale download_strategy =
  fixes fetch :: "'m \<Rightarrow> fetch" and ready :: "'m \<Rightarrow> string \<Rightarrow> byte list \<Rightarrow> bool"
  assumes fetch_complete: "ready m url content \<Longrightarrow>
     \<exists>readers. fetch m url = Some (Ret (Inr (readers, int (length content)))) \<and>
       multi_read readers = Some (Ret (content, None))"
begin

text \<open>The getter hands the whole content to its consumer and returns what the consumer says.\<close>

lemma download_consumes:
  assumes "ready m url content"
  shows "DownloadFile archive g (fetch m) fs url dest =
     (case Consume archive (the_consumer g) fs (content, None) dest (int (length content)) of (e, fs') \<Rightarrow>
        Some (Ret ((int (length content), map_option (Wrapf ''error writing file'') e), fs',
          sendMetrics g url (int (length content))
            (if e = None then g_throughput g (int (length content)) else 0) e)))"
proof -
  obtain readers where "fetch m url = Some (Ret (Inr (readers, int (length content))))"
    "multi_read readers = Some (Ret (content, None))" using fetch_complete [OF assms] by blast
  then show ?thesis by (simp add: DownloadFile_def Let_def split: prod.split option.split)
qed

text \<open>A file that is downloaded without an error is complete.\<close>

lemma download_file_complete:
  assumes "ready m url content" "the_consumer g = FileWriter ow"
    and "ow \<or> read_file (snd (os_MkdirAll fs (filepath_Dir dest))) dest = None"
    and "fst (FileWriter_Consume ow fs (content, None) dest (int (length content))) = None"
  shows "\<exists>fs' ms. DownloadFile archive g (fetch m) fs url dest =
       Some (Ret ((int (length content), None), fs', ms)) \<and> read_file fs' dest = Some content"
proof -
  obtain fs' where c: "FileWriter_Consume ow fs (content, None) dest (int (length content)) = (None, fs')"
    using assms(4) by (metis prod.collapse)
  have "read_file fs' dest = Some content" using FileWriter_content [OF c] assms(3) by auto
  moreover have "DownloadFile archive g (fetch m) fs url dest =
      Some (Ret ((int (length content), None), fs',
        sendMetrics g url (int (length content)) (g_throughput g (int (length content))) None))"
    using download_consumes [OF assms(1), of archive g fs dest] c assms(2) by simp
  ultimately show ?thesis by blast
qed

end

section \<open>The two strategies\<close>

text \<open>
  The two strategies when a worker takes their jobs; the commands add the queue and its workers.
\<close>

type_synonym 'w bm_run = "'w net_env \<times> bufferMode \<times> go_ctx \<times> (nat \<Rightarrow> byte list) \<times> (nat \<Rightarrow> 'w)"

fun buffer_fetch :: "'w bm_run \<Rightarrow> fetch" where
  "buffer_fetch (env, m, ctx, bufs, ws) url = Some (Ret (fst (bm_Fetch env m ctx url bufs ws)))"

fun buffer_ready :: "'w bm_run \<Rightarrow> string \<Rightarrow> byte list \<Rightarrow> bool" where
  "buffer_ready (env, m, ctx, bufs, ws) url content \<longleftrightarrow>
     range_client plain_ctx (client_Do env) content \<and> plain_ctx ctx \<and>
     urls_parse env (effective_url env m url) \<and> bm_valid m (int (length content)) \<and>
     (\<forall>i. length (bufs i) = nat (chunkSize m))"

type_synonym 'w ch_run =
  "'w net_env \<times> CacheKey structure_hash \<times> jump_hash \<times> chMode \<times> go_ctx \<times> (nat \<Rightarrow> byte list) \<times> (nat \<Rightarrow> 'w)"

fun hashing_fetch :: "'w ch_run \<Rightarrow> fetch" where
  "hashing_fetch (env, hash, jump, m, ctx, bufs, ws) url =
     Some (case ch_Fetch env hash jump m ctx url bufs ws of Panic msg \<Rightarrow> Panic msg | Ret (r, m') \<Rightarrow> Ret r)"

fun hashing_ready :: "'w ch_run \<Rightarrow> string \<Rightarrow> byte list \<Rightarrow> bool" where
  "hashing_ready (env, hash, jump, m, ctx, bufs, ws) url content \<longleftrightarrow>
     cache_ready_for env hash jump m url \<and> cache_client (client_Do env) content \<and>
     range_client plain_ctx (client_Do env) content \<and> plain_ctx ctx \<and> urls_parse env url \<and>
     ch_valid m (int (length content)) \<and> ch_built m \<and>
     chunkSize (FallbackStrategy m) \<le> SliceSize (ch_opts m) \<and>
     (\<forall>i. length (bufs i) = nat (ch_chunkSize m))"

interpretation buffer_strategy: download_strategy buffer_fetch buffer_ready
proof unfold_locales
  fix m :: "'a bm_run" and url content
  assume r: "buffer_ready m url content"
  obtain env bm ctx bufs ws where m: "m = (env, bm, ctx, bufs, ws)" by (cases m) auto
  then have h: "range_client plain_ctx (client_Do env) content" "plain_ctx ctx"
    "urls_parse env (effective_url env bm url)" "bm_valid bm (int (length content))"
    "\<And>i. length (bufs i) = nat (chunkSize bm)" using r by auto
  obtain readers m' where "bm_Fetch env bm ctx url bufs ws = (Inr (readers, int (length content)), m')"
    "multi_read readers = Some (Ret (content, None))"
    using bm_Fetch_content [where bufs = bufs and ws = ws, OF h] by blast
  then show "\<exists>readers. buffer_fetch m url = Some (Ret (Inr (readers, int (length content)))) \<and>
      multi_read readers = Some (Ret (content, None))" using m by simp
qed

interpretation hashing_strategy: download_strategy hashing_fetch hashing_ready
proof unfold_locales
  fix m :: "'a ch_run" and url content
  assume r: "hashing_ready m url content"
  obtain env hash jump cm ctx bufs ws where m: "m = (env, hash, jump, cm, ctx, bufs, ws)" by (cases m) auto
  then have h: "cache_ready_for env hash jump cm url" "cache_client (client_Do env) content"
    "range_client plain_ctx (client_Do env) content" "plain_ctx ctx" "urls_parse env url"
    "ch_valid cm (int (length content))" "ch_built cm" "chunkSize (FallbackStrategy cm) \<le> SliceSize (ch_opts cm)"
    "\<And>i. length (bufs i) = nat (ch_chunkSize cm)" using r by auto
  obtain readers m' where "ch_Fetch env hash jump cm ctx url bufs ws = Ret (Inr (readers, int (length content)), m')"
    "multi_read readers = Some (Ret (content, None))"
    using ch_Fetch_content [where bufs = bufs and ws = ws, OF h] by blast
  then show "\<exists>readers. hashing_fetch m url = Some (Ret (Inr (readers, int (length content)))) \<and>
      multi_read readers = Some (Ret (content, None))" using m by simp
qed

section \<open>The group of downloads\<close>

lemma queue_download_cases:
  assumes "queue_download g st = Some st'"
  obtains e rest where "eg_waiting st = e # rest" "\<not> go_blocks g st"
    "st' = st\<lparr>eg_waiting := rest, eg_running := eg_running st @ [e]\<rparr>"
  using assms by (auto simp: queue_download_def split: list.splits if_splits)

lemma downloadAndMeasure_cases:
  assumes "downloadAndMeasure archive g F e st = Some st'"
  obtains msg where "st' = st\<lparr>eg_panic := Some msg\<rparr>"
  | n err fs' ms where "DownloadFile archive g F (eg_fs st) (me_URL e) (me_Dest e) = Some (Ret ((n, err), fs', ms))"
    "st' = st\<lparr>eg_finished := eg_finished st @ [(e, n, err)],
       totalSize := (if err = None then wrap64 (totalSize st + n) else totalSize st),
       eg_err := (if eg_err st = None then err else eg_err st),
       eg_fs := fs', eg_metrics := eg_metrics st @ ms\<rparr>"
  using assms by (auto simp: downloadAndMeasure_def split: option.splits outcome.splits prod.splits)

text \<open>The running downloads without the one that finishes, and the one that finishes.\<close>

lemma mset_remove_nth: "i < length xs \<Longrightarrow> add_mset (xs ! i) (mset (take i xs @ drop (Suc i) xs)) = mset xs"
  by (subst (3) id_take_nth_drop [of i xs]) auto

text \<open>
  The invariant: every entry of the manifest is waiting, running or finished, exactly once; the
  limit holds; the total is the wrapped sum of the sizes of the successful downloads and the
  error is the first one.
\<close>

definition ok_sizes :: "(ManifestEntry \<times> int64 \<times> go_error option) list \<Rightarrow> int64 list" where
  "ok_sizes rs = map (\<lambda>(e, n, err). n) (filter (\<lambda>(e, n, err). err = None) rs)"

definition errors_of :: "(ManifestEntry \<times> int64 \<times> go_error option) list \<Rightarrow> go_error list" where
  "errors_of rs = List.map_filter (\<lambda>(e, n, err). err) rs"

definition group_inv :: "'f getter \<Rightarrow> ManifestEntry list \<Rightarrow> 'f group \<Rightarrow> bool" where
  "group_inv g manifest st \<longleftrightarrow>
     (eg_panic st = None \<longrightarrow> mset (eg_waiting st) + mset (eg_running st) + mset (map fst (eg_finished st)) = mset manifest) \<and>
     (0 < g_MaxConcurrentFiles g \<longrightarrow> int (length (eg_running st)) \<le> g_MaxConcurrentFiles g) \<and>
     totalSize st = wrap64 (sum_list (ok_sizes (eg_finished st))) \<and>
     eg_err st = (case errors_of (eg_finished st) of [] \<Rightarrow> None | e # _ \<Rightarrow> Some e)"

lemma group_inv_new: "group_inv g manifest (new_group manifest fs)"
  by (simp add: group_inv_def new_group_def ok_sizes_def errors_of_def map_filter_def wrap64_nonneg)

lemma wrap64_add: "wrap64 (wrap64 x + y) = wrap64 (x + y)"
proof -
  have "wrap64 x + y + 2 ^ 63 = (x + 2 ^ 63) mod 2 ^ 64 + y" by (simp add: wrap64_def)
  moreover have "((x + 2 ^ 63) mod 2 ^ 64 + y) mod 2 ^ 64 = (x + y + 2 ^ 63) mod (2 ^ 64 :: int)"
    by (subst mod_add_left_eq) (simp add: algebra_simps)
  ultimately show ?thesis by (simp add: wrap64_def)
qed

lemma ok_sizes_snoc: "ok_sizes (rs @ [(e, n, err)]) = ok_sizes rs @ (if err = None then [n] else [])"
  by (simp add: ok_sizes_def)

lemma errors_of_snoc: "errors_of (rs @ [(e, n, err)]) = errors_of rs @ (case err of None \<Rightarrow> [] | Some x \<Rightarrow> [x])"
  by (simp add: errors_of_def map_filter_def split: option.split)

lemma group_inv_queue:
  assumes "group_inv g manifest st" "queue_download g st = Some st'"
  shows "group_inv g manifest st'"
  using assms(2)
proof (cases rule: queue_download_cases)
  case (1 e rest)
  then show ?thesis using assms(1) by (auto simp: group_inv_def go_blocks_def)
qed

lemma group_inv_finish:
  assumes "group_inv g manifest st" "eg_panic st = None" "i < length (eg_running st)"
    and "downloadAndMeasure archive g F (eg_running st ! i)
      (st\<lparr>eg_running := take i (eg_running st) @ drop (Suc i) (eg_running st)\<rparr>) = Some st'"
  shows "group_inv g manifest st'"
  using assms(4)
proof (cases rule: downloadAndMeasure_cases)
  case (1 msg)
  then show ?thesis using assms(1,3) by (auto simp: group_inv_def)
next
  case (2 n err fs' ms)
  have "mset (eg_running st) = add_mset (eg_running st ! i) (mset (take i (eg_running st) @ drop (Suc i) (eg_running st)))"
    using mset_remove_nth [OF assms(3)] by simp
  then show ?thesis using 2(2) assms(1-3)
    by (auto simp: group_inv_def ok_sizes_snoc errors_of_snoc wrap64_add split: list.splits option.splits)
qed

lemma group_inv_event:
  "group_inv g manifest st \<Longrightarrow> group_event archive g Fetch ev st = Some st' \<Longrightarrow> group_inv g manifest st'"
  by (cases ev) (auto simp: not_le intro: group_inv_queue group_inv_finish split: if_splits)

lemma group_inv_run:
  "group_inv g manifest st \<Longrightarrow> group_run archive g Fetch evs st = Some st' \<Longrightarrow> group_inv g manifest st'"
  by (induction evs arbitrary: st) (auto intro: group_inv_event split: option.splits)

text \<open>Where the results come from: each is that of the download of its entry.\<close>

definition results_from :: "archive_reader \<Rightarrow> 'f::zero getter \<Rightarrow> (bool \<Rightarrow> fetch) \<Rightarrow> 'f group \<Rightarrow> bool" where
  "results_from archive g Fetch st \<longleftrightarrow> (\<forall>(e, n, err) \<in> set (eg_finished st).
     \<exists>c fs fs' ms. DownloadFile archive g (Fetch c) fs (me_URL e) (me_Dest e) = Some (Ret ((n, err), fs', ms)))"

lemma results_from_event:
  assumes "results_from archive g Fetch st" "group_event archive g Fetch ev st = Some st'"
  shows "results_from archive g Fetch st'"
proof (cases ev)
  case Go
  with assms show ?thesis by (auto simp: results_from_def split: if_splits elim!: queue_download_cases)
next
  case (Finish i c)
  then have "downloadAndMeasure archive g (Fetch c) (eg_running st ! i)
      (st\<lparr>eg_running := take i (eg_running st) @ drop (Suc i) (eg_running st)\<rparr>) = Some st'"
    using assms(2) by (auto split: if_splits)
  then show ?thesis
    using assms(1) by (cases rule: downloadAndMeasure_cases) (auto simp: results_from_def)
qed

lemma results_from_run:
  "results_from archive g Fetch st \<Longrightarrow> group_run archive g Fetch evs st = Some st' \<Longrightarrow>
     results_from archive g Fetch st'"
  by (induction evs arbitrary: st) (auto intro: results_from_event split: option.splits)

text \<open>Every event brings the end closer.\<close>

definition work_left :: "'f group \<Rightarrow> nat" where
  "work_left st = 2 * length (eg_waiting st) + length (eg_running st)"

lemma work_left_event: "group_event archive g Fetch ev st = Some st' \<Longrightarrow> work_left st' < work_left st"
  by (cases ev)
     (auto simp: work_left_def split: if_splits elim!: queue_download_cases downloadAndMeasure_cases)

lemma work_left_run: "group_run archive g Fetch evs st = Some st' \<Longrightarrow> length evs + work_left st' \<le> work_left st"
  by (induction evs arbitrary: st) (fastforce dest: work_left_event split: option.splits)+

definition downloads_return ::
  "archive_reader \<Rightarrow> 'f::zero getter \<Rightarrow> (bool \<Rightarrow> fetch) \<Rightarrow> ManifestEntry list \<Rightarrow> bool" where
  "downloads_return archive g Fetch manifest \<longleftrightarrow>
     (\<forall>c fs. \<forall>e \<in> set manifest. DownloadFile archive g (Fetch c) fs (me_URL e) (me_Dest e) \<noteq> None)"

text \<open>A group whose downloads return can always go on, and so it can be run to its end.\<close>

lemma group_enabled:
  assumes "group_inv g manifest st" "group_result st = None"
    and "downloads_return archive g Fetch manifest"
  shows "\<exists>ev st'. group_event archive g Fetch ev st = Some st'"
proof -
  have p: "eg_panic st = None" using assms(2) by (auto simp: group_result_def split: option.splits)
  have "\<exists>ev. group_event archive g Fetch ev st \<noteq> None"
  proof (cases "eg_running st")
    case Nil
    then have "group_event archive g Fetch Go st \<noteq> None"
      using assms(2) p by (auto simp: group_result_def queue_download_def go_blocks_def split: if_splits list.splits)
    then show ?thesis by blast
  next
    case (Cons e es)
    have "mset (eg_waiting st) + mset (eg_running st) + mset (map fst (eg_finished st)) = mset manifest"
      using assms(1) p by (simp add: group_inv_def)
    then have "e \<in> set manifest" using Cons by (metis UnCI list.set_intros(1) set_mset_mset set_mset_union)
    then have "group_event archive g Fetch (Finish 0 False) st \<noteq> None"
      using assms(3) p Cons
      by (fastforce simp: downloads_return_def downloadAndMeasure_def split: option.splits outcome.splits)
    then show ?thesis by blast
  qed
  then show ?thesis by blast
qed

lemma group_completes:
  assumes "group_inv g manifest st"
    and "downloads_return archive g Fetch manifest"
  shows "\<exists>evs st'. group_run archive g Fetch evs st = Some st' \<and> group_result st' \<noteq> None"
  using assms(1)
proof (induction "work_left st" arbitrary: st rule: less_induct)
  case less
  show ?case
  proof (cases "group_result st")
    case None
    then obtain ev st1 where ev: "group_event archive g Fetch ev st = Some st1"
      using group_enabled [OF less.prems None assms(2)] by blast
    then obtain evs st' where "group_run archive g Fetch evs st1 = Some st'" "group_result st' \<noteq> None"
      using less.hyps [OF work_left_event [OF ev] group_inv_event [OF less.prems ev]] by blast
    then show ?thesis using ev by (intro exI [of _ "ev # evs"] exI [of _ st']) simp
  next
    case (Some r)
    then show ?thesis by (intro exI [of _ "[]"] exI [of _ st]) simp
  qed
qed

lemma group_run_append:
  "group_run archive g Fetch (evs @ later) st =
     (case group_run archive g Fetch evs st of None \<Rightarrow> None | Some st' \<Rightarrow> group_run archive g Fetch later st')"
  by (induction evs arbitrary: st) (auto split: option.split)

lemma DownloadFilesD:
  assumes "DownloadFiles archive g Fetch manifest events fs = Some (r, st)"
  shows "group_run archive g Fetch events (new_group manifest fs) = Some st \<and> group_result st = Some r"
  using assms by (auto simp: DownloadFiles_def split: option.splits)

text \<open>A group none of whose downloads returns never returns either, whatever happens.\<close>

lemma group_event_stuck:
  assumes "\<forall>c fs. \<forall>e \<in> set manifest. DownloadFile archive g (Fetch c) fs (me_URL e) (me_Dest e) = None"
    and "group_inv g manifest st" "eg_finished st = []" "eg_panic st = None"
    and "group_event archive g Fetch ev st = Some st'"
  shows "eg_finished st' = [] \<and> eg_panic st' = None"
proof (cases ev)
  case Go
  then show ?thesis using assms(3,4,5) by (auto split: if_splits elim!: queue_download_cases)
next
  case (Finish i c)
  then have i: "i < length (eg_running st)" and d: "downloadAndMeasure archive g (Fetch c) (eg_running st ! i)
      (st\<lparr>eg_running := take i (eg_running st) @ drop (Suc i) (eg_running st)\<rparr>) = Some st'"
    using assms(5) by (auto split: if_splits)
  have "mset (eg_waiting st) + mset (eg_running st) = mset manifest" using assms(2-4) by (simp add: group_inv_def)
  then have "eg_running st ! i \<in> set manifest" using i by (metis UnCI nth_mem set_mset_mset set_mset_union)
  then have "DownloadFile archive g (Fetch c) fs (me_URL (eg_running st ! i)) (me_Dest (eg_running st ! i)) = None" for fs
    using assms(1) by blast
  then show ?thesis using d by (simp add: downloadAndMeasure_def)
qed

lemma group_run_stuck:
  assumes "\<forall>c fs. \<forall>e \<in> set manifest. DownloadFile archive g (Fetch c) fs (me_URL e) (me_Dest e) = None"
  shows "group_inv g manifest st \<Longrightarrow> eg_finished st = [] \<Longrightarrow> eg_panic st = None \<Longrightarrow>
    group_run archive g Fetch evs st = Some st' \<Longrightarrow> eg_finished st' = [] \<and> eg_panic st' = None"
proof (induction evs arbitrary: st)
  case (Cons ev evs)
  then obtain st1 where ev: "group_event archive g Fetch ev st = Some st1" "group_run archive g Fetch evs st1 = Some st'"
    by (auto split: option.splits)
  have "eg_finished st1 = []" "eg_panic st1 = None" using group_event_stuck [OF assms Cons.prems(1-3) ev(1)] by auto
  then show ?case by (rule Cons.IH [OF group_inv_event [OF Cons.prems(1) ev(1)] _ _ ev(2)])
qed simp

lemma DownloadFiles_stuck:
  assumes "\<forall>c fs. \<forall>e \<in> set manifest. DownloadFile archive g (Fetch c) fs (me_URL e) (me_Dest e) = None" "manifest \<noteq> []"
  shows "DownloadFiles archive g Fetch manifest events fs = None"
proof (cases "group_run archive g Fetch events (new_group manifest fs)")
  case (Some st)
  then have "eg_finished st = [] \<and> eg_panic st = None"
    using group_run_stuck [OF assms(1) group_inv_new] by (fastforce simp: new_group_def)
  moreover from this have "mset (eg_waiting st) + mset (eg_running st) = mset manifest"
    using group_inv_run [OF group_inv_new Some] by (simp add: group_inv_def)
  then have "eg_waiting st \<noteq> [] \<or> eg_running st \<noteq> []" using assms(2) by auto
  ultimately show ?thesis using Some by (simp add: DownloadFiles_def group_result_def)
qed (simp add: DownloadFiles_def)

section \<open>Properties\<close>

text \<open>C18. However the downloads of a manifest interleave, when \<open>DownloadFiles\<close> returns every entry was
  downloaded exactly once; it returns no error exactly if every download succeeded, then with the
  sum of their sizes, and otherwise the error of the download that failed first.\<close>

theorem download_files_total:
  assumes "DownloadFiles archive g Fetch manifest events fs = Some (Ret (n, err), st)"
  shows "mset (map fst (eg_finished st)) = mset manifest \<and>
     n = (if errors_of (eg_finished st) = [] then wrap64 (sum_list (ok_sizes (eg_finished st))) else 0) \<and>
     err = (case errors_of (eg_finished st) of [] \<Rightarrow> None
              | e # _ \<Rightarrow> Some (Wrapf ''error downloading files'' e))"
proof -
  have r: "group_run archive g Fetch events (new_group manifest fs) = Some st" "group_result st = Some (Ret (n, err))"
    using DownloadFilesD [OF assms] by auto
  from group_inv_run [OF group_inv_new r(1)] have "group_inv g manifest st" .
  with r(2) show ?thesis by (auto simp: group_inv_def group_result_def split: option.splits if_splits list.splits)
qed

text \<open>A getter with a limit never has more downloads in flight than the limit allows.\<close>

theorem download_files_limit:
  assumes "group_run archive g Fetch events (new_group manifest fs) = Some st" "0 < g_MaxConcurrentFiles g"
  shows "int (length (eg_running st)) \<le> g_MaxConcurrentFiles g"
  using group_inv_run [OF group_inv_new assms(1)] assms(2) by (simp add: group_inv_def)

text \<open>C20. \<open>DownloadFiles\<close> cannot get stuck when every single download returns: no run has more than two
  steps per entry, and every run can be continued until \<open>DownloadFiles\<close> returns.\<close>

theorem download_files_progress:
  assumes "group_run archive g Fetch events (new_group manifest fs) = Some st"
    and "downloads_return archive g Fetch manifest"
  shows "length events \<le> 2 * length manifest \<and>
     (\<exists>later r st'. DownloadFiles archive g Fetch manifest (events @ later) fs = Some (r, st'))"
proof -
  have "length events \<le> 2 * length manifest"
    using work_left_run [OF assms(1)] by (simp add: work_left_def new_group_def)
  moreover obtain later st' where m: "group_run archive g Fetch later st = Some st'" "group_result st' \<noteq> None"
    using group_completes [OF group_inv_run [OF group_inv_new assms(1)] assms(2)] by blast
  then obtain r where "group_result st' = Some r" by blast
  with m(1) have "DownloadFiles archive g Fetch manifest (events @ later) fs = Some (r, st')"
    by (simp add: DownloadFiles_def group_run_append assms(1))
  ultimately show ?thesis by blast
qed

text \<open>A getter and a strategy to run the model on: every URL but the empty one names two bytes.\<close>

definition example_files_getter :: "int getter" where
  "example_files_getter = \<lparr>g_Consumer = Some NullWriter, g_MaxConcurrentFiles = 1, g_endpoint = ''http://m'',
     g_version = ''1'', g_throughput = (\<lambda>n. n), g_marshals = (\<lambda>_. True)\<rparr>"

definition example_fetch :: "bool \<Rightarrow> fetch" where
  "example_fetch cancelled url =
     Some (Ret (if cancelled then Inl (Sentinel Canceled)
      else if url = '''' then Inl (Errorf ''no URL'')
      else Inr ([Some (Ret ([1], None)), Some (Ret ([2], None))], 2)))"

definition example_entries :: "ManifestEntry list" where
  "example_entries = [\<lparr>me_URL = ''u'', me_Dest = ''a''\<rparr>, \<lparr>me_URL = '''', me_Dest = ''b''\<rparr>,
     \<lparr>me_URL = ''v'', me_Dest = ''c''\<rparr>]"

lemmas example_group = example_files_getter_def example_fetch_def example_entries_def DownloadFiles_def
  new_group_def queue_download_def go_blocks_def downloadAndMeasure_def DownloadFile_def
  the_consumer_def NullWriter_Consume_def sendMetrics_def group_result_def wrap64_def Let_def

abbreviation example_files :: "ManifestEntry list \<Rightarrow> event list \<Rightarrow> ((int64 \<times> go_error option) outcome \<times> int group) option" where
  "example_files m events \<equiv> DownloadFiles (\<lambda>_ _. Inl (Errorf '''')) example_files_getter example_fetch m events example_fs"

theorem download_files_total_witness:
  "\<exists>st. example_files example_entries [Go, Finish 0 False, Go, Finish 0 False, Go, Finish 0 True] =
       Some (Ret (0, Some (Wrapf ''error downloading files'' (Errorf ''no URL''))), st) \<and>
     mset (map fst (eg_finished st)) = mset example_entries"
proof -
  obtain n err st where r: "example_files example_entries
      [Go, Finish 0 False, Go, Finish 0 False, Go, Finish 0 True] = Some (Ret (n, err), st)"
    by (simp add: example_group)
  have "errors_of (eg_finished st) = [Errorf ''no URL'', Sentinel Canceled]"
    using r by (auto simp: example_group errors_of_def map_filter_def)
  with download_files_total [OF r] r show ?thesis by auto
qed

theorem download_files_limit_witness:
  "\<exists>st. group_run (\<lambda>_ _. Inl (Errorf '''')) example_files_getter example_fetch [Go]
       (new_group example_entries example_fs) = Some st \<and> int (length (eg_running st)) \<le> 1"
proof -
  obtain st where r: "group_run (\<lambda>_ _. Inl (Errorf '''')) example_files_getter example_fetch [Go]
       (new_group example_entries example_fs) = Some st" by (simp add: example_group)
  from download_files_limit [OF r] r show ?thesis by (simp add: example_files_getter_def)
qed

theorem download_files_progress_witness:
  "\<exists>later r st'. example_files example_entries ([Go] @ later) = Some (r, st')"
proof -
  obtain st where r: "group_run (\<lambda>_ _. Inl (Errorf '''')) example_files_getter example_fetch [Go]
       (new_group example_entries example_fs) = Some st" by (simp add: example_group)
  have "downloads_return (\<lambda>_ _. Inl (Errorf '''')) example_files_getter example_fetch example_entries"
    by (simp add: downloads_return_def example_group)
  with download_files_progress [OF r] show ?thesis by blast
qed

end
