(* ===== verification/File_Frame.thy ===== *)
theory File_Frame
  imports Consumers
begin

text \<open>
  What writing one file leaves alone. On a tree without symbolic links and without two names for
  one inode, a path names the place its components say, and writing a file changes the content
  at that place only, however many directories it makes.
\<close>

section \<open>The place a path names\<close>

fun lexical :: "loc \<Rightarrow> string list \<Rightarrow> loc" where
  "lexical cur [] = cur"
| "lexical cur (c # cs) =
     (if c = '''' \<or> c = ''.'' then lexical cur cs
      else if c = ''..'' then lexical (butlast cur) cs
      else lexical (cur @ [c]) cs)"

definition place :: "loc \<Rightarrow> string \<Rightarrow> loc" where
  "place cwd path = lexical (if rooted path then [] else cwd) (comps path)"

definition plain_fs :: "file_system \<Rightarrow> bool" where
  "plain_fs fs \<longleftrightarrow> (\<forall>p t. node_at fs p \<noteq> Some (Symlink t)) \<and>
     (\<forall>p i. node_at fs p = Some (File i) \<longrightarrow> i < fs_next fs) \<and>
     (\<forall>p q i. node_at fs p = Some (File i) \<longrightarrow> node_at fs q = Some (File i) \<longrightarrow> p = q)"

definition link_free :: "file_system \<Rightarrow> bool" where
  "link_free fs \<longleftrightarrow> (\<forall>p t. node_at fs p \<noteq> Some (Symlink t))"

lemma plain_fs_link_free: "plain_fs fs \<Longrightarrow> link_free fs"
  by (simp add: plain_fs_def link_free_def)

lemma plain_fs_links: "plain_fs fs \<Longrightarrow> node_at fs p \<noteq> Some (Symlink t)"
  by (simp add: plain_fs_def)

lemma walk_place:
  "link_free fs \<Longrightarrow> walk fs follow n cur cs = Inr p \<Longrightarrow> p = lexical cur cs"
proof (induction fs follow n cur cs rule: walk.induct)
  case (1 fs follow n cur)
  then show ?case by simp
next
  case (2 fs follow n cur c cs)
  have l: "node_at fs (cur @ [c]) \<noteq> Some (Symlink t)" for t using 2(5) by (simp add: link_free_def)
  show ?case using 2(6) 2(1-4) 2(5) l
    by (subst (asm) walk.simps(2)) (auto split: if_splits option.splits node.splits)
qed

lemma resolve_place_free: "link_free fs \<Longrightarrow> resolve fs follow path = Inr p \<Longrightarrow> p = place (fs_cwd fs) path"
  by (auto simp: resolve_def place_def dest: walk_place split: if_splits)

lemmas resolve_place = resolve_place_free [OF plain_fs_link_free]

text \<open>The content at a place.\<close>

definition file_at :: "file_system \<Rightarrow> loc \<Rightarrow> byte list option" where
  "file_at fs p = (case node_at fs p of Some (File i) \<Rightarrow> Some (fs_data fs i) | _ \<Rightarrow> None)"

lemma read_file_at: "plain_fs fs \<Longrightarrow> read_file fs path = Some c \<Longrightarrow> file_at fs (place (fs_cwd fs) path) = Some c"
  by (auto simp: read_file_def stat_node_def file_at_def dest: resolve_place split: sum.splits option.splits node.splits)

section \<open>Trees that only grow\<close>

definition grows :: "file_system \<Rightarrow> file_system \<Rightarrow> bool" where
  "grows fs fs' \<longleftrightarrow> fs_cwd fs' = fs_cwd fs \<and> (\<forall>p x. node_at fs p = Some x \<longrightarrow> node_at fs' p = Some x)"

lemma grows_refl [simp]: "grows fs fs"
  by (simp add: grows_def)

lemma grows_trans: "grows a b \<Longrightarrow> grows b c \<Longrightarrow> grows a c"
  by (simp add: grows_def)

lemma walk_grows:
  "grows fs fs' \<Longrightarrow> walk fs follow n cur cs = Inr p \<Longrightarrow> node_at fs p \<noteq> None \<Longrightarrow> walk fs' follow n cur cs = Inr p"
proof (induction fs follow n cur cs rule: walk.induct)
  case (1 fs follow n cur)
  then show ?case by simp
next
  case (2 fs follow n cur c cs)
  show ?case
  proof (cases "node_at fs (cur @ [c])")
    case None
    with 2 show ?thesis by (auto simp: walk.simps(2) split: if_splits)
  next
    case (Some x)
    with 2(5) have "node_at fs' (cur @ [c]) = Some x" by (simp add: grows_def)
    with Some 2 show ?thesis
      by (auto simp: walk.simps(2) split: if_splits node.splits nat.splits)
  qed
qed

lemma stat_grows:
  assumes "stat_node fs follow path = Inr x" "grows fs fs'"
  shows "stat_node fs' follow path = Inr x"
proof -
  obtain p where p: "resolve fs follow path = Inr p" "node_at fs p = Some x"
    using assms(1) by (auto simp: stat_node_def split: sum.splits option.splits)
  moreover have "fs_cwd fs' = fs_cwd fs" "node_at fs' p = Some x" using assms(2) p(2) by (auto simp: grows_def)
  moreover have "resolve fs' follow path = Inr p"
    using p walk_grows [OF assms(2)] calculation(3) assms(2) by (auto simp: resolve_def grows_def split: if_splits)
  ultimately show ?thesis by (simp add: stat_node_def)
qed

text \<open>Making directories adds directories and nothing else.\<close>

definition adds_dirs :: "file_system \<Rightarrow> file_system \<Rightarrow> bool" where
  "adds_dirs fs fs' \<longleftrightarrow> fs_cwd fs' = fs_cwd fs \<and> fs_data fs' = fs_data fs \<and> fs_next fs' = fs_next fs \<and>
     (\<forall>p. node_at fs' p = node_at fs p \<or> node_at fs p = None \<and> node_at fs' p = Some Dir)"

lemma adds_dirs_refl [simp]: "adds_dirs fs fs"
  by (simp add: adds_dirs_def)

lemma adds_dirs_trans: "adds_dirs a b \<Longrightarrow> adds_dirs b c \<Longrightarrow> adds_dirs a c"
  unfolding adds_dirs_def by metis

lemma adds_dirs_grows: "adds_dirs fs fs' \<Longrightarrow> grows fs fs'"
  unfolding adds_dirs_def grows_def by (metis option.distinct(1))

lemma adds_dirs_Mkdir: "adds_dirs fs (snd (os_Mkdir fs path))"
proof -
  have "adds_dirs fs (put_node fs p Dir)" if "node_at fs p = None" for p
  proof -
    have "p \<noteq> []" using that by (auto simp: node_at_def)
    then show ?thesis using that by (auto simp: adds_dirs_def put_node_def node_at_def split: if_splits)
  qed
  then show ?thesis by (simp add: os_Mkdir_def add_name_def split: sum.split)
qed

lemma adds_dirs_mkdir_all: "adds_dirs fs (snd (mkdir_all fs r rs))"
proof (induction fs r rs rule: mkdir_all.induct)
  case (1 fs r)
  then show ?case by simp
next
  case (2 fs r c rparents)
  obtain e1 fs1 where 1: "mkdir_all fs r rparents = (e1, fs1)" by fastforce
  let ?path = "if r then slash # join_slash (rev (c # rparents)) else join_slash (rev (c # rparents))"
  obtain e2 fs2 where 3: "os_Mkdir fs1 ?path = (e2, fs2)" by fastforce
  have s: "adds_dirs fs1 fs2" using adds_dirs_Mkdir [of fs1 ?path] 3 by simp
  show ?case
  proof (cases "stat_node fs True ?path")
    case (Inl e)
    then have "adds_dirs fs fs1" using 2 1 by (auto simp: Let_def)
    with s have "adds_dirs fs fs1 \<and> adds_dirs fs fs2" by (auto intro: adds_dirs_trans)
    with Inl 1 3 show ?thesis by (auto simp: Let_def split: option.splits)
  next
    case (Inr x)
    then show ?thesis by (auto simp: Let_def split: node.splits)
  qed
qed

lemma adds_dirs_MkdirAll: "adds_dirs fs (snd (os_MkdirAll fs path))"
  by (simp add: os_MkdirAll_def adds_dirs_mkdir_all)

lemma adds_dirs_file_at:
  assumes "adds_dirs fs fs'"
  shows "file_at fs' p = file_at fs p"
proof -
  from assms have "node_at fs' p = node_at fs p \<or> node_at fs p = None \<and> node_at fs' p = Some Dir"
    by (simp add: adds_dirs_def)
  moreover have "fs_data fs' = fs_data fs" using assms by (simp add: adds_dirs_def)
  ultimately show ?thesis by (cases "node_at fs p") (auto simp: file_at_def split: node.split)
qed

lemma adds_dirs_File: "adds_dirs fs fs' \<Longrightarrow> node_at fs' p = Some (File i) \<longleftrightarrow> node_at fs p = Some (File i)"
  unfolding adds_dirs_def by (metis node.distinct(1) option.distinct(1) option.inject)

lemma adds_dirs_plain:
  assumes "adds_dirs fs fs'" "plain_fs fs"
  shows "plain_fs fs'"
proof -
  have "node_at fs' p \<noteq> Some (Symlink t)" for p t
    using assms unfolding adds_dirs_def plain_fs_def by (metis node.distinct(3) option.inject)
  moreover have "fs_next fs' = fs_next fs" using assms(1) by (simp add: adds_dirs_def)
  ultimately show ?thesis using assms(2) unfolding plain_fs_def adds_dirs_File [OF assms(1)] by auto
qed

section \<open>Opening and writing a file\<close>

lemma OpenFile_frame:
  assumes "os_OpenFile fs path trunc = (r, fs')" "plain_fs fs"
  shows "plain_fs fs' \<and> grows fs fs' \<and> (\<forall>p. p \<noteq> place (fs_cwd fs) path \<longrightarrow> file_at fs' p = file_at fs p) \<and>
     (\<forall>i. r = Inr i \<longrightarrow> node_at fs' (place (fs_cwd fs) path) = Some (File i))"
proof (cases "resolve fs True path")
  case (Inl e)
  then show ?thesis using assms by (auto simp: os_OpenFile_def)
next
  case (Inr p)
  have p: "p = place (fs_cwd fs) path" using resolve_place [OF assms(2) Inr] .
  have inj: "node_at fs q = Some (File i) \<Longrightarrow> node_at fs p = Some (File i) \<Longrightarrow> q = p" for q i
    using assms(2) unfolding plain_fs_def by blast
  show ?thesis
  proof (cases "node_at fs p")
    case None
    then have n: "p \<noteq> []" by (auto simp: node_at_def)
    have fs': "r = Inr (fs_next fs)" "fs' = (put_node fs p (File (fs_next fs)))\<lparr>fs_data := (fs_data fs)(fs_next fs := []),
       fs_next := Suc (fs_next fs)\<rparr>" using assms(1) Inr None by (auto simp: os_OpenFile_def)
    then have at: "node_at fs' q = (if q = p then Some (File (fs_next fs)) else node_at fs q)" for q
      using node_at_put [OF n] by simp
    have lt: "node_at fs q = Some (File i) \<Longrightarrow> i < fs_next fs" for q i using assms(2) by (simp add: plain_fs_def)
    have "plain_fs fs'" unfolding plain_fs_def at
      using assms(2) fs'(2) lt by (auto simp: plain_fs_def less_Suc_eq)
    moreover have "fs_cwd fs' = fs_cwd fs" "fs_data fs' = (fs_data fs)(fs_next fs := [])" using fs'(2) by auto
    moreover have "grows fs fs'" using None calculation(2) by (auto simp: grows_def at)
    moreover have "file_at fs' q = file_at fs q" if "q \<noteq> p" for q
      using that calculation(3) by (auto simp: file_at_def at dest: lt split: option.split node.split)
    ultimately show ?thesis using p fs'(1) at by auto
  next
    case (Some x)
    show ?thesis
    proof (cases "\<exists>i. x = File i")
      case True
      then obtain i where i: "x = File i" by blast
      have fs': "r = Inr i" "fs' = (if trunc then fs\<lparr>fs_data := (fs_data fs)(i := [])\<rparr> else fs)"
        using assms(1) Inr Some i by (auto simp: os_OpenFile_def)
      have "plain_fs fs'" "grows fs fs'" using assms(2) fs'(2) by (auto simp: plain_fs_def grows_def)
      moreover have "file_at fs' q = file_at fs q" if "q \<noteq> p" for q
        using that inj [of q] Some i fs'(2) by (auto simp: file_at_def split: option.split node.split)
      ultimately show ?thesis using p fs' Some i by auto
    next
      case False
      then show ?thesis using assms Inr Some by (cases x) (auto simp: os_OpenFile_def)
    qed
  qed
qed

lemma write_frame:
  assumes "plain_fs fs" "node_at fs p = Some (File i)"
  shows "plain_fs (write_file fs i d) \<and> grows fs (write_file fs i d) \<and>
     (\<forall>q. q \<noteq> p \<longrightarrow> file_at (write_file fs i d) q = file_at fs q)"
proof -
  have "node_at fs q = Some (File i) \<Longrightarrow> q = p" for q using assms unfolding plain_fs_def by blast
  then show ?thesis using assms(1)
    by (auto simp: plain_fs_def grows_def write_file_def file_at_def split: option.split node.split)
qed

text \<open>A file writer changes the content of its destination only.\<close>

lemma FileWriter_frame:
  assumes "FileWriter_Consume ow fs reader dest n = (e, fs')" "plain_fs fs"
  shows "plain_fs fs' \<and> grows fs fs' \<and> (\<forall>p. p \<noteq> place (fs_cwd fs) dest \<longrightarrow> file_at fs' p = file_at fs p)"
proof -
  obtain e1 fs1 where 1: "os_MkdirAll fs (filepath_Dir dest) = (e1, fs1)" by fastforce
  have d: "adds_dirs fs fs1" using adds_dirs_MkdirAll [of fs "filepath_Dir dest"] 1 by simp
  have c: "fs_cwd fs1 = fs_cwd fs" using d by (simp add: adds_dirs_def)
  have p1: "plain_fs fs1" "grows fs fs1" "\<And>p. file_at fs1 p = file_at fs p"
    using d assms(2) by (auto intro: adds_dirs_plain adds_dirs_grows adds_dirs_file_at)
  obtain r fs2 where 2: "os_OpenFile fs1 dest ow = (r, fs2)" by fastforce
  note o = OpenFile_frame [OF 2 p1(1), unfolded c]
  have g2: "grows fs fs2" using o p1(2) by (auto intro: grows_trans)
  show ?thesis
  proof (cases "e1 = None \<and> (\<exists>i. r = Inr i)")
    case True
    then obtain i where i: "e1 = None" "r = Inr i" by blast
    then have f: "fs' = write_file fs2 i (fst reader)" using assms(1) 1 2
      by (auto simp: FileWriter_Consume_def Let_def split: option.splits if_splits)
    have "plain_fs fs2" "node_at fs2 (place (fs_cwd fs) dest) = Some (File i)" using o i by auto
    note w = write_frame [OF this, of "fst reader"]
    then show ?thesis using f o p1 g2 by (auto intro: grows_trans)
  next
    case False
    then have "fs' = fs1 \<or> fs' = fs2" using assms(1) 1 2
      by (auto simp: FileWriter_Consume_def split: option.splits sum.splits)
    then show ?thesis using o p1 g2 by auto
  qed
qed

lemma FileWriter_keeps_file:
  assumes "FileWriter_Consume ow fs reader dest n = (e, fs')" "plain_fs fs"
    and "read_file fs q = Some c" "place (fs_cwd fs) q \<noteq> place (fs_cwd fs) dest"
  shows "read_file fs' q = Some c"
proof -
  note f = FileWriter_frame [OF assms(1,2)]
  obtain i where i: "stat_node fs True q = Inr (File i)"
    using assms(3) by (auto simp: read_file_def split: sum.splits node.splits)
  then obtain i' where i': "stat_node fs' True q = Inr (File i')" using f stat_grows by blast
  then obtain c' where c': "read_file fs' q = Some c'" by (simp add: read_file_def)
  have "fs_cwd fs' = fs_cwd fs" using f by (simp add: grows_def)
  then show ?thesis
    using read_file_at [OF _ c'] read_file_at [OF assms(2,3)] f assms(4) c' by auto
qed

text \<open>A destination that holds no file before holds exactly the bytes of the reader afterwards.\<close>

lemma FileWriter_writes:
  assumes "FileWriter_Consume ow fs reader dest n = (None, fs')" "plain_fs fs"
    and "ow \<or> file_at fs (place (fs_cwd fs) dest) = None"
  shows "read_file fs' dest = Some (fst reader)"
proof -
  obtain fs1 where 1: "os_MkdirAll fs (filepath_Dir dest) = (None, fs1)"
    "read_file fs' dest = Some (fst reader @ drop (length (fst reader))
       (if ow then [] else case read_file fs1 dest of None \<Rightarrow> [] | Some old \<Rightarrow> old))"
    using FileWriter_content [OF assms(1)] by blast
  have d: "adds_dirs fs fs1" using adds_dirs_MkdirAll [of fs "filepath_Dir dest"] 1(1) by simp
  then have c: "fs_cwd fs1 = fs_cwd fs" by (simp add: adds_dirs_def)
  have "read_file fs1 dest = None" if "\<not> ow"
  proof (rule ccontr)
    assume "read_file fs1 dest \<noteq> None"
    then obtain x where "read_file fs1 dest = Some x" by blast
    then show False
      using read_file_at [OF adds_dirs_plain [OF d assms(2)]] adds_dirs_file_at [OF d] assms(3) c that by fastforce
  qed
  then show ?thesis using 1(2) by (cases ow) auto
qed

section \<open>Destinations that can be written\<close>

text \<open>An absolute path whose directory exists and that is free or names a file.\<close>

definition can_write :: "file_system \<Rightarrow> string \<Rightarrow> bool" where
  "can_write fs d \<longleftrightarrow> rooted d \<and> stat_node fs True (filepath_Dir d) = Inr Dir \<and>
     (\<exists>p. resolve fs True d = Inr p \<and> (node_at fs p = None \<or> (\<exists>i. node_at fs p = Some (File i))))"

lemma rooted_Dir:
  assumes "rooted d"
  obtains ds where "filepath_Dir d = render True ds" "list_all plain_comp ds"
proof -
  let ?e = "rev (dropWhile (\<lambda>c. c \<noteq> slash) (rev d))"
  obtain s where d: "d = slash # s" using assms by (cases d) (auto simp: rooted_def)
  have "rooted ?e" by (cases "slash \<in> set s") (auto simp: d rooted_def dropWhile_append1 dropWhile_append3 hd_append)
  then show ?thesis using that rooted_cases unfolding filepath_Dir_def by metis
qed

lemma MkdirAll_exists:
  assumes "list_all plain_comp ds" "stat_node fs True (render True ds) = Inr Dir"
  shows "os_MkdirAll fs (render True ds) = (None, fs)"
proof (cases "ds = []")
  case True
  then show ?thesis by (simp add: os_MkdirAll_def render_def path_simps rooted_def)
next
  case False
  have p: "\<forall>c \<in> set ds. c \<noteq> []" using assms(1) by (auto simp: list_all_iff plain_comp_def)
  then have "filter (\<lambda>c. c \<noteq> []) (comps (render True ds)) = ds"
    using False plain_no_slash [OF assms(1)] by (simp add: render_def path_simps filter_id_conv)
  moreover have "rev ds \<noteq> []" using False by simp
  then obtain c rp where c: "rev ds = c # rp" by (cases "rev ds") auto
  moreover have "rev (c # rp) = ds" using c by (metis rev_rev_ident)
  ultimately show ?thesis using assms(2) by (simp add: os_MkdirAll_def render_def rooted_def)
qed

lemma walk_grows_plain:
  "grows fs fs' \<Longrightarrow> plain_fs fs' \<Longrightarrow> walk fs follow n cur cs = Inr p \<Longrightarrow> walk fs' follow n cur cs = Inr p"
proof (induction fs follow n cur cs rule: walk.induct)
  case (1 fs follow n cur)
  then show ?case by simp
next
  case (2 fs follow n cur c cs)
  have l: "node_at fs' (cur @ [c]) \<noteq> Some (Symlink t)" for t using 2(6) by (simp add: plain_fs_links)
  show ?case
  proof (cases "node_at fs (cur @ [c])")
    case None
    with 2 l show ?thesis by (auto simp: walk.simps(2) split: if_splits option.splits node.splits)
  next
    case (Some x)
    with 2(5) have "node_at fs' (cur @ [c]) = Some x" by (simp add: grows_def)
    with Some 2 show ?thesis by (auto simp: walk.simps(2) split: if_splits node.splits nat.splits)
  qed
qed

lemma can_write_grows:
  assumes "can_write fs d" "plain_fs fs" "plain_fs fs'" "grows fs fs'"
    and "node_at fs' (place (fs_cwd fs) d) = node_at fs (place (fs_cwd fs) d)"
  shows "can_write fs' d"
proof -
  obtain p where p: "resolve fs True d = Inr p" "node_at fs p = None \<or> (\<exists>i. node_at fs p = Some (File i))"
    using assms(1) by (auto simp: can_write_def)
  have pl: "p = place (fs_cwd fs) d" using resolve_place [OF assms(2) p(1)] .
  have c: "fs_cwd fs' = fs_cwd fs" using assms(4) by (simp add: grows_def)
  from p(1) have d: "d \<noteq> []" "walk fs True 40 (if rooted d then [] else fs_cwd fs) (comps d) = Inr p"
      "rooted d \<or> node_at fs (fs_cwd fs) = Some Dir"
    by (auto simp: resolve_def split: if_splits)
  then have "rooted d \<or> node_at fs' (fs_cwd fs) = Some Dir" using assms(4) by (auto simp: grows_def)
  then have "resolve fs' True d = Inr p"
    using walk_grows_plain [OF assms(4,3) d(2)] d(1) c by (simp add: resolve_def split: if_splits)
  moreover have "stat_node fs' True (filepath_Dir d) = Inr Dir"
    using assms(1,4) stat_grows unfolding can_write_def by blast
  ultimately show ?thesis using assms(1,5) p(2) pl unfolding can_write_def by simp
qed

text \<open>Such a destination is written without an error, and no other name appears.\<close>

lemma FileWriter_succeeds:
  assumes "can_write fs d" "plain_fs fs" "n = int (length content)"
  obtains fs' where "FileWriter_Consume ow fs (content, None) d n = (None, fs')"
    "\<And>p. p \<noteq> place (fs_cwd fs) d \<Longrightarrow> node_at fs' p = node_at fs p"
proof -
  obtain ds where ds: "filepath_Dir d = render True ds" "list_all plain_comp ds"
    using rooted_Dir assms(1) by (auto simp: can_write_def)
  have m: "os_MkdirAll fs (filepath_Dir d) = (None, fs)"
    using MkdirAll_exists [OF ds(2)] ds(1) assms(1) by (simp add: can_write_def)
  obtain p where p: "resolve fs True d = Inr p" "node_at fs p = None \<or> (\<exists>i. node_at fs p = Some (File i))"
    using assms(1) by (auto simp: can_write_def)
  have pl: "p = place (fs_cwd fs) d" using resolve_place [OF assms(2) p(1)] .
  obtain i fs2 where o: "os_OpenFile fs d ow = (Inr i, fs2)" "\<And>q. q \<noteq> p \<Longrightarrow> node_at fs2 q = node_at fs q"
  proof (cases "node_at fs p")
    case None
    then have "p \<noteq> []" by (auto simp: node_at_def)
    with None p(1) that show ?thesis by (simp add: os_OpenFile_def node_at_put)
  next
    case (Some x)
    with p that show ?thesis by (auto simp: os_OpenFile_def)
  qed
  have "FileWriter_Consume ow fs (content, None) d n = (None, write_file fs2 i content)"
    using m o(1) assms(3) by (simp add: FileWriter_Consume_def)
  moreover have "node_at (write_file fs2 i content) q = node_at fs2 q" for q by (simp add: write_file_def)
  ultimately show ?thesis using that o(2) pl by simp
qed

end
