(* ===== verification/Multi_Download.thy ===== *)
theory Multi_Download
  imports Getter File_Frame
begin

text \<open>
  All files of a manifest on the disk: the group of downloads of pkg/rpget.go, a strategy that
  fulfils its contract, the file writer, and a file system on which the destinations are
  different places that can be written. Every interleaving of the downloads ends without an
  error and with every content at its destination.
\<close>

section \<open>The invariant of the run\<close>

definition places_differ :: "loc \<Rightarrow> ManifestEntry list \<Rightarrow> bool" where
  "places_differ cwd es \<longleftrightarrow> distinct (map (\<lambda>e. place cwd (me_Dest e)) es)"

text \<open>The entry can be downloaded: its destination is writable and holds nothing that would stay.\<close>

definition dest_free :: "bool \<Rightarrow> file_system \<Rightarrow> ManifestEntry \<Rightarrow> bool" where
  "dest_free ow fs e \<longleftrightarrow> can_write fs (me_Dest e) \<and> (ow \<or> file_at fs (place (fs_cwd fs) (me_Dest e)) = None)"

definition files_inv ::
  "(string \<Rightarrow> byte list) \<Rightarrow> bool \<Rightarrow> loc \<Rightarrow> 'f group \<Rightarrow> bool" where
  "files_inv content ow cwd st \<longleftrightarrow>
     eg_panic st = None \<and> eg_err st = None \<and> plain_fs (eg_fs st) \<and> fs_cwd (eg_fs st) = cwd \<and>
     places_differ cwd (eg_waiting st @ eg_running st @ map fst (eg_finished st)) \<and>
     (\<forall>e \<in> set (eg_waiting st) \<union> set (eg_running st). dest_free ow (eg_fs st) e) \<and>
     (\<forall>(e, n, err) \<in> set (eg_finished st). err = None \<and> n = int (length (content (me_URL e))) \<and>
        read_file (eg_fs st) (me_Dest e) = Some (content (me_URL e)))"

lemma places_differ_mset: "mset es = mset es' \<Longrightarrow> places_differ cwd es \<longleftrightarrow> places_differ cwd es'"
  unfolding places_differ_def by (metis mset_eq_imp_distinct_iff mset_map)

lemma places_differ_last:
  assumes "places_differ cwd (es @ [e])" "e' \<in> set es"
  shows "place cwd (me_Dest e') \<noteq> place cwd (me_Dest e)"
proof -
  have "place cwd (me_Dest e) \<notin> (\<lambda>e. place cwd (me_Dest e)) ` set es" using assms(1) by (simp add: places_differ_def)
  then show ?thesis using assms(2) by (metis imageI)
qed

text \<open>One more file is written: the other destinations stay as they are.\<close>

lemma dest_free_kept:
  assumes "dest_free ow fs e'" "plain_fs fs" "FileWriter_Consume ow fs reader d n = (err, fs')"
    and "\<And>p. p \<noteq> place (fs_cwd fs) d \<Longrightarrow> node_at fs' p = node_at fs p"
    and "place (fs_cwd fs) (me_Dest e') \<noteq> place (fs_cwd fs) d"
  shows "dest_free ow fs' e'"
proof -
  note f = FileWriter_frame [OF assms(3,2)]
  have "fs_cwd fs' = fs_cwd fs" using f by (simp add: grows_def)
  moreover have "can_write fs' (me_Dest e')"
    by (rule can_write_grows [OF _ assms(2)])
       (use f assms(1) assms(4) [OF assms(5)] in \<open>simp_all add: dest_free_def\<close>)
  moreover have "file_at fs' (place (fs_cwd fs) (me_Dest e')) = file_at fs (place (fs_cwd fs) (me_Dest e'))"
    using f assms(5) by blast
  ultimately show ?thesis using assms(1) by (simp add: dest_free_def)
qed

context download_strategy
begin

lemma download_returns:
  "ready m url content \<Longrightarrow> DownloadFile archive g (fetch m) fs url dest \<noteq> None"
  by (simp add: download_consumes split: prod.split)

lemma files_inv_finish:
  assumes inv: "files_inv content ow cwd st" and e: "e \<in> set (eg_running st)"
    and rest: "mset (eg_running st) = add_mset e (mset others)"
    and rd: "ready (mode (me_URL e)) (me_URL e) (content (me_URL e))"
    and F: "\<And>url. F url = fetch (mode url) url" and w: "the_consumer g = FileWriter ow"
    and step: "downloadAndMeasure archive g F e (st\<lparr>eg_running := others\<rparr>) = Some st'"
  shows "files_inv content ow cwd st'"
proof -
  let ?fs = "eg_fs st" and ?d = "me_Dest e" and ?c = "content (me_URL e)"
  have c: "fs_cwd ?fs = cwd" and p: "plain_fs ?fs" and df: "dest_free ow ?fs e"
    using inv e by (auto simp: files_inv_def)
  obtain fs' where fs': "FileWriter_Consume ow ?fs (?c, None) ?d (int (length ?c)) = (None, fs')"
    "\<And>q. q \<noteq> place (fs_cwd ?fs) ?d \<Longrightarrow> node_at fs' q = node_at ?fs q"
    using FileWriter_succeeds [where ow = ow, OF _ p refl] df unfolding dest_free_def by blast
  note frame = FileWriter_frame [OF fs'(1) p]
  have "Getter.DownloadFile archive g F ?fs (me_URL e) ?d =
      Getter.DownloadFile archive g (fetch (mode (me_URL e))) ?fs (me_URL e) ?d"
    by (simp add: DownloadFile_def F)
  then have st': "\<exists>ms. st' = st\<lparr>eg_running := others,
       eg_finished := eg_finished st @ [(e, int (length ?c), None)],
       totalSize := wrap64 (totalSize st + int (length ?c)), eg_err := None, eg_fs := fs', eg_metrics := eg_metrics st @ ms\<rparr>"
    using step download_consumes [OF rd, of archive g ?fs ?d] fs'(1) w inv
    by (auto simp: downloadAndMeasure_def files_inv_def)
  have m: "mset (eg_waiting st @ eg_running st @ map fst (eg_finished st)) =
      mset (eg_waiting st @ others @ map fst (eg_finished st @ [(e, int (length ?c), None)]))"
    using rest by simp
  have pd: "places_differ cwd (eg_waiting st @ others @ map fst (eg_finished st) @ [e])"
    using inv places_differ_mset [OF m] by (simp add: files_inv_def)
  have other: "place cwd (me_Dest e') \<noteq> place cwd ?d"
    if "e' \<in> set (eg_waiting st) \<union> set others \<union> fst ` set (eg_finished st)" for e'
    using places_differ_last [of cwd "eg_waiting st @ others @ map fst (eg_finished st)" e e'] pd that by auto
  have sub: "set others \<subseteq> set (eg_running st)" using rest by (metis insert_iff set_mset_add_mset_insert set_mset_mset subsetI)
  have "dest_free ow fs' e'" if "e' \<in> set (eg_waiting st) \<union> set others" for e'
    using dest_free_kept [OF _ p fs'(1) fs'(2)] other [of e'] that inv sub c by (auto simp: files_inv_def)
  moreover have "read_file fs' (me_Dest e') = Some x"
    if "(e', r) \<in> set (eg_finished st)" "read_file ?fs (me_Dest e') = Some x" for e' r x
    using FileWriter_keeps_file [OF fs'(1) p that(2)] other [of e'] that(1) c by force
  moreover have "read_file fs' ?d = Some ?c"
    using FileWriter_writes [OF fs'(1) p] df by (auto simp: dest_free_def)
  moreover have "fs_cwd fs' = cwd" "plain_fs fs'" using frame c by (auto simp: grows_def)
  ultimately show ?thesis using st' inv pd by (fastforce simp: files_inv_def)
qed

lemma files_inv_run:
  assumes "group_run archive g Fetch events st = Some st'" "files_inv content ow cwd st"
    and "\<forall>e \<in> set (eg_waiting st) \<union> set (eg_running st). ready (mode (me_URL e)) (me_URL e) (content (me_URL e))"
    and "\<And>url. Fetch False url = fetch (mode url) url" and "the_consumer g = FileWriter ow"
  shows "files_inv content ow cwd st'"
  using assms(1-3)
proof (induction events arbitrary: st)
  case Nil
  then show ?case by simp
next
  case (Cons ev events)
  obtain st1 where st1: "group_event archive g Fetch ev st = Some st1" "group_run archive g Fetch events st1 = Some st'"
    using Cons.prems(1) by (auto split: option.splits)
  show ?case
  proof (cases ev)
    case Go
    then have "queue_download g st = Some st1" using st1(1) by (auto split: if_splits)
    then show ?thesis
    proof (cases rule: queue_download_cases)
      case (1 e rest)
      have "places_differ cwd (rest @ (eg_running st @ [e]) @ map fst (eg_finished st)) \<longleftrightarrow>
          places_differ cwd (eg_waiting st @ eg_running st @ map fst (eg_finished st))"
        by (rule places_differ_mset) (simp add: 1(1))
      then have "files_inv content ow cwd st1" using Cons.prems(2) 1 by (auto simp: files_inv_def)
      then show ?thesis using Cons.IH [OF st1(2)] Cons.prems(3) 1 by auto
    qed
  next
    case (Finish i c)
    let ?e = "eg_running st ! i" and ?r = "take i (eg_running st) @ drop (Suc i) (eg_running st)"
    have c: "\<not> c" using st1(1) Finish Cons.prems(2) by (auto simp: files_inv_def)
    then have i: "i < length (eg_running st)"
      "downloadAndMeasure archive g (Fetch False) ?e (st\<lparr>eg_running := ?r\<rparr>) = Some st1"
      using st1(1) Finish by (auto split: if_splits)
    have m: "mset (eg_running st) = add_mset ?e (mset ?r)" using mset_remove_nth [OF i(1)] by simp
    have e: "?e \<in> set (eg_running st)" using i(1) by simp
    then have "files_inv content ow cwd st1"
      using files_inv_finish [OF Cons.prems(2) e m _ assms(4,5) i(2)] Cons.prems(3) by blast
    moreover have "set (eg_waiting st1) \<union> set (eg_running st1) \<subseteq> set (eg_waiting st) \<union> set (eg_running st)"
      using i(2) by (cases rule: downloadAndMeasure_cases) (auto dest: in_set_takeD in_set_dropD)
    ultimately show ?thesis using Cons.IH [OF st1(2)] Cons.prems(3) by blast
  qed
qed

lemma download_files_complete:
  assumes "DownloadFiles archive g Fetch manifest events fs = Some (r, st)"
    and "\<forall>e \<in> set manifest. ready (mode (me_URL e)) (me_URL e) (content (me_URL e)) \<and> dest_free ow fs e"
    and "plain_fs fs" "places_differ (fs_cwd fs) manifest"
    and "\<And>url. Fetch False url = fetch (mode url) url" and "the_consumer g = FileWriter ow"
  shows "r = Ret (wrap64 (\<Sum>e \<leftarrow> manifest. int (length (content (me_URL e)))), None) \<and>
     (\<forall>e \<in> set manifest. read_file (eg_fs st) (me_Dest e) = Some (content (me_URL e)))"
proof -
  have g: "group_run archive g Fetch events (new_group manifest fs) = Some st" "group_result st = Some r"
    using DownloadFilesD [OF assms(1)] by auto
  have "files_inv content ow (fs_cwd fs) (new_group manifest fs)"
    using assms(2-4) by (auto simp: files_inv_def new_group_def)
  then have inv: "files_inv content ow (fs_cwd fs) st"
    using files_inv_run [OF g(1) _ _ assms(5,6), of content "fs_cwd fs"] assms(2) by (simp add: new_group_def)
  have gi: "group_inv g manifest st" using group_inv_run [OF group_inv_new g(1)] .
  have ok: "\<forall>x \<in> set (eg_finished st). snd (snd x) = None \<and> fst (snd x) = int (length (content (me_URL (fst x))))"
    using inv by (auto simp: files_inv_def)
  have done': "eg_waiting st = []" "eg_running st = []" "r = Ret (totalSize st, None)"
    using g(2) inv by (auto simp: group_result_def files_inv_def split: if_splits)
  have m: "mset (map fst (eg_finished st)) = mset manifest" using gi done' inv by (simp add: group_inv_def files_inv_def)
  have "ok_sizes (eg_finished st) = map (\<lambda>e. int (length (content (me_URL e)))) (map fst (eg_finished st))"
    using ok by (auto simp: ok_sizes_def filter_id_conv split_beta map_eq_conv)
  moreover have "mset (map (\<lambda>e. int (length (content (me_URL e)))) (map fst (eg_finished st))) =
      mset (map (\<lambda>e. int (length (content (me_URL e)))) manifest)" using m by (metis mset_map)
  ultimately have "sum_list (ok_sizes (eg_finished st)) = (\<Sum>e \<leftarrow> manifest. int (length (content (me_URL e))))"
    by (metis sum_mset_sum_list)
  moreover have "read_file (eg_fs st) (me_Dest e) = Some (content (me_URL e))" if "e \<in> set manifest" for e
  proof -
    have "e \<in> fst ` set (eg_finished st)" using that m by (metis list.set_map mset_eq_setD)
    then show ?thesis using inv by (fastforce simp: files_inv_def)
  qed
  ultimately show ?thesis using done'(3) gi by (simp add: group_inv_def)
qed

end

section \<open>Properties\<close>

text \<open>In buffer mode, with servers that honour range requests and destinations that are different
  places on the disk that can be written, every interleaving of the downloads of a manifest
  returns without an error, with the total size, and leaves every content at its destination.\<close>

theorem buffer_files_on_disk:
  assumes "DownloadFiles archive g Fetch manifest events fs = Some (r, st)"
    and "\<forall>e \<in> set manifest. buffer_ready (mode (me_URL e)) (me_URL e) (content (me_URL e)) \<and> dest_free ow fs e"
    and "plain_fs fs" "places_differ (fs_cwd fs) manifest"
    and "\<And>url. Fetch False url = buffer_fetch (mode url) url" and "the_consumer g = FileWriter ow"
  shows "r = Ret (wrap64 (\<Sum>e \<leftarrow> manifest. int (length (content (me_URL e)))), None) \<and>
     (\<forall>e \<in> set manifest. read_file (eg_fs st) (me_Dest e) = Some (content (me_URL e)))"
  using buffer_strategy.download_files_complete [OF assms] .

text \<open>The same for consistent-hashing mode.\<close>

theorem hashing_files_on_disk:
  assumes "DownloadFiles archive g Fetch manifest events fs = Some (r, st)"
    and "\<forall>e \<in> set manifest. hashing_ready (mode (me_URL e)) (me_URL e) (content (me_URL e)) \<and> dest_free ow fs e"
    and "plain_fs fs" "places_differ (fs_cwd fs) manifest"
    and "\<And>url. Fetch False url = hashing_fetch (mode url) url" and "the_consumer g = FileWriter ow"
  shows "r = Ret (wrap64 (\<Sum>e \<leftarrow> manifest. int (length (content (me_URL e)))), None) \<and>
     (\<forall>e \<in> set manifest. read_file (eg_fs st) (me_Dest e) = Some (content (me_URL e)))"
  using hashing_strategy.download_files_complete [OF assms] .

section \<open>Two files\<close>

definition empty_fs :: file_system where
  "empty_fs = \<lparr>fs_tree = Map.empty, fs_data = (\<lambda>_. []), fs_next = 0, fs_cwd = []\<rparr>"

definition two_files :: "ManifestEntry list" where
  "two_files = [\<lparr>me_URL = ''weights.example.com/a'', me_Dest = ''/f''\<rparr>,
     \<lparr>me_URL = ''weights.example.com/b'', me_Dest = ''/g''\<rparr>]"

definition disk_getter :: "int getter" where
  "disk_getter = \<lparr>g_Consumer = None, g_MaxConcurrentFiles = 20, g_endpoint = '''',
     g_version = ''1'', g_throughput = (\<lambda>n. n), g_marshals = (\<lambda>_. True)\<rparr>"

lemma disk_getter_writes: "the_consumer disk_getter = FileWriter False"
  by (simp add: disk_getter_def the_consumer_def)

lemma empty_fs_plain: "plain_fs empty_fs"
  by (simp add: plain_fs_def empty_fs_def node_at_def)

lemma two_files_differ: "places_differ (fs_cwd empty_fs) two_files"
  by (simp add: places_differ_def two_files_def place_def rooted_def slash_def comps_def empty_fs_def)

lemma two_files_free: "\<forall>e \<in> set two_files. dest_free False empty_fs e"
proof -
  have d: "filepath_Dir ''/f'' = ''/''" "filepath_Dir ''/g'' = ''/''" by code_simp+
  have "can_write empty_fs ''/f''" "can_write empty_fs ''/g''"
    by (simp_all add: can_write_def d stat_node_def resolve_def rooted_def slash_def comps_def walk.simps(2)
          node_at_def empty_fs_def)
  then show ?thesis by (simp add: two_files_def dest_free_def file_at_def place_def rooted_def slash_def comps_def
        node_at_def empty_fs_def)
qed

lemma two_files_started:
  assumes "downloads_return archive disk_getter Fetch two_files"
  shows "\<exists>events r st. DownloadFiles archive disk_getter Fetch two_files ([Go, Go] @ events) empty_fs = Some (r, st)"
proof -
  obtain st where r: "group_run archive disk_getter Fetch [Go, Go] (new_group two_files empty_fs) = Some st"
    by (simp add: new_group_def two_files_def queue_download_def go_blocks_def disk_getter_def)
  obtain later st' where l: "group_run archive disk_getter Fetch later st = Some st'" "group_result st' \<noteq> None"
    using group_completes [OF group_inv_run [OF group_inv_new r] assms] by blast
  have "group_run archive disk_getter Fetch ([Go, Go] @ later) (new_group two_files empty_fs) = Some st'"
    unfolding group_run_append r using l(1) by simp
  then show ?thesis using l(2) unfolding DownloadFiles_def by (metis (no_types, lifting) not_None_eq option.map(2) option.simps(5))
qed

text \<open>Runs to apply the properties to: they exist because ready downloads return.\<close>

definition example_bm_run :: "unit bm_run" where
  "example_bm_run = (example_env [1, 2, 3, 4, 5, 6, 7] 2 (\<lambda>_. False), example_bufferMode 3, background,
     \<lambda>_. replicate 3 0, \<lambda>_. ())"

definition example_ch_run :: "unit ch_run" where
  "example_ch_run = (example_env [1, 2, 3, 4, 5, 6, 7] 2 (\<lambda>h. h = ''n1''), example_hash, example_jump,
     example_chMode 2 3 [''n0'', ''n1''], background, \<lambda>_. replicate 2 0, \<lambda>_. ())"

lemma example_bm_ready: "\<forall>e \<in> set two_files. buffer_ready example_bm_run (me_URL e) [1, 2, 3, 4, 5, 6, 7]"
  by (simp add: two_files_def example_bm_run_def example_facts example_modes)

lemma example_ch_ready: "\<forall>e \<in> set two_files. hashing_ready example_ch_run (me_URL e) [1, 2, 3, 4, 5, 6, 7]"
  by (simp add: two_files_def example_ch_run_def example_facts example_modes)

theorem buffer_files_on_disk_witness:
  "\<exists>events st. DownloadFiles (\<lambda>_ _. Inl (Errorf '''')) disk_getter (\<lambda>_. buffer_fetch example_bm_run) two_files
       ([Go, Go] @ events) empty_fs = Some (Ret (14, None), st) \<and>
     read_file (eg_fs st) ''/f'' = Some [1, 2, 3, 4, 5, 6, 7] \<and>
     read_file (eg_fs st) ''/g'' = Some [1, 2, 3, 4, 5, 6, 7]"
proof -
  have "downloads_return (\<lambda>_ _. Inl (Errorf '''')) disk_getter (\<lambda>_. buffer_fetch example_bm_run) two_files"
    unfolding downloads_return_def using buffer_strategy.download_returns example_bm_ready by blast
  then obtain events r st where d: "DownloadFiles (\<lambda>_ _. Inl (Errorf '''')) disk_getter
      (\<lambda>_. buffer_fetch example_bm_run) two_files ([Go, Go] @ events) empty_fs = Some (r, st)"
    using two_files_started by metis
  have "\<forall>e \<in> set two_files. buffer_ready example_bm_run (me_URL e) [1, 2, 3, 4, 5, 6, 7] \<and> dest_free False empty_fs e"
    using example_bm_ready two_files_free by blast
  from buffer_files_on_disk [OF d this empty_fs_plain two_files_differ refl disk_getter_writes] d
  show ?thesis by (auto simp: two_files_def wrap64_def)
qed

theorem hashing_files_on_disk_witness:
  "\<exists>events st. DownloadFiles (\<lambda>_ _. Inl (Errorf '''')) disk_getter (\<lambda>_. hashing_fetch example_ch_run) two_files
       ([Go, Go] @ events) empty_fs = Some (Ret (14, None), st) \<and>
     read_file (eg_fs st) ''/f'' = Some [1, 2, 3, 4, 5, 6, 7] \<and>
     read_file (eg_fs st) ''/g'' = Some [1, 2, 3, 4, 5, 6, 7]"
proof -
  have "downloads_return (\<lambda>_ _. Inl (Errorf '''')) disk_getter (\<lambda>_. hashing_fetch example_ch_run) two_files"
    unfolding downloads_return_def using hashing_strategy.download_returns example_ch_ready by blast
  then obtain events r st where d: "DownloadFiles (\<lambda>_ _. Inl (Errorf '''')) disk_getter
      (\<lambda>_. hashing_fetch example_ch_run) two_files ([Go, Go] @ events) empty_fs = Some (r, st)"
    using two_files_started by metis
  have "\<forall>e \<in> set two_files. hashing_ready example_ch_run (me_URL e) [1, 2, 3, 4, 5, 6, 7] \<and> dest_free False empty_fs e"
    using example_ch_ready two_files_free by blast
  from hashing_files_on_disk [OF d this empty_fs_plain two_files_differ refl disk_getter_writes] d
  show ?thesis by (auto simp: two_files_def wrap64_def)
qed

end
