(* ===== verification/Version_Info.thy ===== *)
theory Version_Info
  imports Go_Strings
begin

text \<open>
  Model of pkg/version/info.go and cmd/version/version.go: the version string that the version
  command prints and that every request carries in its User-Agent header. The build injects the
  eight variables, which form a record.
\<close>

record build_info =
  bi_Version :: string
  bi_CommitHash :: string
  bi_BuildTime :: string
  bi_Prerelease :: string
  bi_Snapshot :: string
  bi_OS :: string
  bi_Arch :: string
  bi_Branch :: string

definition makeVersionString ::
  "string \<Rightarrow> string \<Rightarrow> string \<Rightarrow> string \<Rightarrow> string \<Rightarrow> string \<Rightarrow> string \<Rightarrow> string \<Rightarrow> string" where
  "makeVersionString version commitHash buildtime prerelease snapshot os arch branch =
     (let v0 = version @ ''('' @ commitHash @ '')'';
          v1 = (if prerelease \<noteq> '''' then v0 @ ''-'' @ prerelease
                else if snapshot = ''true'' then v0 @ ''-'' @ ''snapshot'' else v0);
          v2 = (if branch \<noteq> '''' \<and> branch \<noteq> ''main'' \<and> branch \<noteq> ''HEAD''
                then v1 @ ''['' @ branch @ '']'' else v1)
      in if os \<noteq> '''' \<and> arch \<noteq> '''' then v2 @ ''/'' @ os @ ''-'' @ arch
         else if os \<noteq> '''' then v2 @ ''/'' @ os else v2)"

definition GetVersion :: "build_info \<Rightarrow> string" where
  "GetVersion b = makeVersionString (bi_Version b) (bi_CommitHash b) (bi_BuildTime b) (bi_Prerelease b)
     (bi_Snapshot b) (bi_OS b) (bi_Arch b) (bi_Branch b)"

text \<open>What the version command prints.\<close>

definition VersionCMD :: "build_info \<Rightarrow> string" where
  "VersionCMD b = ''rpget Version '' @ GetVersion b @ '' - Build Time '' @ bi_BuildTime b @ [CHR 0x0A]"

text \<open>A release build has neither a prerelease tag nor a branch in its version.\<close>

lemma release_version:
  "bi_Prerelease b = '''' \<Longrightarrow> bi_Snapshot b \<noteq> ''true'' \<Longrightarrow> bi_Branch b \<in> {'''', ''main'', ''HEAD''} \<Longrightarrow>
     bi_OS b \<noteq> '''' \<Longrightarrow> bi_Arch b \<noteq> '''' \<Longrightarrow>
     GetVersion b = bi_Version b @ ''('' @ bi_CommitHash b @ '')/'' @ bi_OS b @ ''-'' @ bi_Arch b"
  by (auto simp: GetVersion_def makeVersionString_def)

text \<open>The version and the commit always come first.\<close>

lemma version_starts_with:
  "\<exists>rest. GetVersion b = bi_Version b @ ''('' @ bi_CommitHash b @ '')'' @ rest"
  by (auto simp: GetVersion_def makeVersionString_def Let_def)

end
