(* ===== verification/Commands.thy ===== *)
theory Commands
  imports Multi_Download Version_Info
begin

text \<open>
  Model of cmd/root/root.go and cmd/multifile/multifile.go: what happens around a download. The
  flags on the chunk size are reconciled, the PID file is locked, the options become the settings
  of a client, a strategy and a consumer, and the getter is called with one URL or with the
  entries of a manifest. The values of the options come from the configuration library and are
  the record \<open>settings\<close>; whether a flag was given on the command line is a function of its name.
\<close>

section \<open>Before a command\<close>

definition chunkSizeDefault :: string where
  "chunkSizeDefault = ''125M''"

definition VersionCMDName :: string where
  "VersionCMDName = ''version''"

text \<open>\<open>getenv\<close> is the environment, \<open>goos\<close> the operating system the program was built for.\<close>

definition defaultPidFilePath :: "(string \<rightharpoonup> string) \<Rightarrow> string \<Rightarrow> string" where
  "defaultPidFilePath getenv goos =
     (case getenv ''XDG_RUNTIME_DIR'' of
        Some xdgPath \<Rightarrow> xdgPath @ ''/rpget.pid''
      | None \<Rightarrow>
          if goos = ''darwin''
          then (case getenv ''HOME'' of None \<Rightarrow> '''' | Some home \<Rightarrow> home) @ ''/.rpget.pid''
          else ''/run/rpget.pid'')"

text \<open>
  The values that the options have when neither the command line nor the environment sets them:
  the defaults of the flags, and the zero value for an option without a flag. \<open>gomaxprocs\<close> is the
  number of processors the runtime uses.
\<close>

definition default_settings :: "int64 \<Rightarrow> (string \<rightharpoonup> string) \<Rightarrow> string \<Rightarrow> settings" where
  "default_settings gomaxprocs getenv goos =
     \<lparr>GetString = (\<lambda>_. '''')(OptChunkSize := chunkSizeDefault, OptMinimumChunkSize := chunkSizeDefault,
        OptLoggingLevel := ''info'', OptOutputConsumer := ''file'', OptPIDFile := defaultPidFilePath getenv goos),
      GetBool = (\<lambda>_. False),
      GetInt = (\<lambda>_. 0)(OptConcurrency := wrap64 (gomaxprocs * 4), OptMaxChunks := wrap64 (gomaxprocs * 4),
        OptRetries := 5, OptMaxConnPerHost := 40),
      GetDuration = (\<lambda>_. 0)(OptConnTimeout := 5 * Second),
      GetStringSlice = (\<lambda>_. []), GetStringMapString = (\<lambda>_. [])\<rparr>"

text \<open>
  The variable \<open>pidFile\<close> is set once the lock was acquired. \<open>opened\<close> is the error of opening a path, if
  any, and \<open>sync\<close> that of flushing the file.
\<close>

definition pidFlock ::
  "(string \<Rightarrow> go_error option) \<Rightarrow> go_error option \<Rightarrow> int64 \<Rightarrow> string \<Rightarrow> pid_files \<Rightarrow>
     ((go_error option \<times> PIDFile option) \<times> pid_files) option" where
  "pidFlock opened sync pid pidFilePath files =
     (case NewPIDFile opened pidFilePath of
        Inl err \<Rightarrow> Some ((Some err, None), files)
      | Inr p \<Rightarrow>
          (case Acquire sync pid (files (pid_path p)) of
             None \<Rightarrow> None
           | Some (Some err, s) \<Rightarrow> Some ((Some err, None), files(pid_path p := s))
           | Some (None, s) \<Rightarrow> Some ((None, Some p), files(pid_path p := s))))"

text \<open>The two flags for the chunk size.\<close>

definition chunk_size_flags :: "(opt \<Rightarrow> bool) \<Rightarrow> settings \<Rightarrow> go_error + settings" where
  "chunk_size_flags changed cfg =
     (if changed OptMinimumChunkSize \<and> changed OptChunkSize
      then Inl (Errorf ''--minimum-chunk-size and --chunk-size cannot be used at the same time, use --chunk-size instead'')
      else let minChunkSizeEnv = GetString cfg OptMinimumChunkSize; chunkSizeEnv = GetString cfg OptChunkSize
           in if minChunkSizeEnv \<noteq> chunkSizeDefault \<and> minChunkSizeEnv \<noteq> chunkSizeEnv
              then (if chunkSizeEnv = chunkSizeDefault
                    then Inr (cfg\<lparr>GetString := (GetString cfg)(OptChunkSize := minChunkSizeEnv)\<rparr>)
                    else Inr cfg)
              else Inr cfg)"

text \<open>
  The hook before every command: the error, the settings and the log level it leaves, the variable
  \<open>pidFile\<close>, and the PID files; \<open>None\<close> while another process holds the lock.
\<close>

definition rootPersistentPreRunEFunc ::
  "string \<Rightarrow> (opt \<Rightarrow> bool) \<Rightarrow> (string \<Rightarrow> pid_files \<Rightarrow> ((go_error option \<times> PIDFile option) \<times> pid_files) option) \<Rightarrow>
     settings \<Rightarrow> pid_files \<Rightarrow> ((go_error option \<times> settings \<times> log_level \<times> PIDFile option) \<times> pid_files) option" where
  "rootPersistentPreRunEFunc calledAs changed flock cfg files =
     (case PersistentStartupProcessFlags cfg of (cfg1, level) \<Rightarrow>
        (case (if calledAs \<noteq> VersionCMDName then flock (GetString cfg1 OptPIDFile) files else Some ((None, None), files)) of
           None \<Rightarrow> None
         | Some ((Some err, p), files') \<Rightarrow> Some ((Some err, cfg1, level, p), files')
         | Some ((None, p), files') \<Rightarrow>
             (case chunk_size_flags changed cfg1 of
                Inl err \<Rightarrow> Some ((Some err, cfg1, level, p), files')
              | Inr cfg2 \<Rightarrow>
                  Some ((None,
                    if GetBool cfg2 OptExtract
                    then cfg2\<lparr>GetString := (GetString cfg2)(OptOutputConsumer := ''tar-extractor'')\<rparr> else cfg2,
                    level, p), files'))))"

text \<open>The hook after every command releases the PID file if it was locked.\<close>

definition rootPersistentPostRunEFunc ::
  "PIDFile option \<Rightarrow> go_error option \<Rightarrow> int64 \<Rightarrow> pid_files \<Rightarrow> (go_error option \<times> pid_files) option" where
  "rootPersistentPostRunEFunc pidFile close pid files =
     (case pidFile of
        None \<Rightarrow> Some (None, files)
      | Some p \<Rightarrow> map_option (\<lambda>(err, s). (err, files(pid_path p := s))) (Release close pid (files (pid_path p))))"

text \<open>The number of arguments of the root command, by \<open>cobra.RangeArgs\<close> and \<open>cobra.ExactArgs\<close>.\<close>

definition validateArgs :: "settings \<Rightarrow> string list \<Rightarrow> bool" where
  "validateArgs cfg args \<longleftrightarrow>
     (if GetString cfg OptOutputConsumer = ''null'' then 1 \<le> length args \<and> length args \<le> 2 else length args = 2)"

section \<open>Settings of a download\<close>

text \<open>
  What the commands call outside the repository: the parsers of sizes, addresses, address ranges
  and URLs, the DNS, and the number of processors.
\<close>

record 'ip command_env =
  ParseBytes :: "string \<Rightarrow> go_error + int"
  ParseIP :: "string \<Rightarrow> 'ip option"
  CIDRContains :: "string \<Rightarrow> 'ip \<Rightarrow> bool option"
  ParseURL :: "string \<Rightarrow> go_error + URL"
  LookupSRV :: "string \<Rightarrow> go_error + SRV list"
  NumCPU :: int64

text \<open>A strategy with its work queue, which the fallback strategy of the second one shares.\<close>

datatype downloader =
    Buffering bufferMode "unit priorityWorkQueue"
  | Hashing chMode "unit priorityWorkQueue"

fun downloader_queue :: "downloader \<Rightarrow> unit priorityWorkQueue" where
  "downloader_queue (Buffering m q) = q"
| "downloader_queue (Hashing m q) = q"

text \<open>The last step of building a strategy: its queue starts the workers.\<close>

definition start_queue :: "downloader \<Rightarrow> (go_error + downloader) outcome" where
  "start_queue d = (case wq_start (downloader_queue d) of Panic msg \<Rightarrow> Panic msg | Ret _ \<Rightarrow> Ret (Inr d))"

definition clientOpts :: "settings \<Rightarrow> (string \<rightharpoonup> string) option \<Rightarrow> client_Options" where
  "clientOpts cfg resolveOverrides =
     \<lparr>MaxRetries = GetInt cfg OptRetries, Transport = None,
      TransportOpts = \<lparr>ForceHTTP2 = GetBool cfg OptForceHTTP2,
        ResolveOverrides = (case resolveOverrides of None \<Rightarrow> Map.empty | Some m \<Rightarrow> m),
        MaxConnPerHost = GetInt cfg OptMaxConnPerHost, ConnectTimeout = GetDuration cfg OptConnTimeout\<rparr>\<rparr>"

definition downloadOpts :: "settings \<Rightarrow> int \<Rightarrow> client_Options \<Rightarrow> download_options" where
  "downloadOpts cfg chunkSz copts =
     \<lparr>MaxConcurrency = GetInt cfg OptConcurrency, SliceSize = 0, ChunkSize = wrap64 chunkSz, Client = copts,
      CacheableURIPrefixes = Map.empty, CacheUsePathProxy = False, CacheHosts = None,
      ForceCachePrefixRewrite = False\<rparr>"

text \<open>
  The choice of the strategy: cache nodes found by their SRV name, one cache host, or no cache.
  Only the root command passes on the option of the path proxy.
\<close>

definition choose_downloader ::
  "'ip command_env \<Rightarrow> bool \<Rightarrow> settings \<Rightarrow> download_options \<Rightarrow> (go_error + downloader) outcome" where
  "choose_downloader env usePathProxy cfg opts =
     (let srvName = GetCacheSRV (ParseIP env) (CIDRContains env) cfg;
          headers = GetStringMapString cfg OptHeaders;
          prefixes = CacheableURIPrefixes_opt (ParseURL env) cfg;
          rewrite = GetBool cfg OptForceCachePrefixRewrite
      in if srvName \<noteq> ''''
         then (case LookupCacheHosts (LookupSRV env) srvName of
                 Panic msg \<Rightarrow> Panic msg
               | Ret (Inl err) \<Rightarrow> Ret (Inl err)
               | Ret (Inr hosts) \<Rightarrow>
                   (case GetConsistentHashingMode headers (NumCPU env)
                       (opts\<lparr>SliceSize := 500 * 2 ^ 20, CacheableURIPrefixes := prefixes,
                          CacheUsePathProxy := usePathProxy, ForceCachePrefixRewrite := rewrite,
                          CacheHosts := Some hosts\<rparr>) of
                      Inl err \<Rightarrow> Ret (Inl err)
                    | Inr (m, q) \<Rightarrow> start_queue (Hashing m q)))
         else let cacheHostname = CacheServiceHostname (ParseURL env) cfg;
                  opts' = (if cacheHostname \<noteq> ''''
                    then opts\<lparr>CacheHosts := Some [cacheHostname], CacheableURIPrefixes := prefixes,
                           CacheUsePathProxy := usePathProxy, ForceCachePrefixRewrite := rewrite\<rparr>
                    else opts)
              in case GetBufferMode headers (NumCPU env) opts' of (m, q) \<Rightarrow> start_queue (Buffering m q))"

section \<open>What runs a download\<close>

text \<open>
  The surroundings of one download: URL functions and credentials, the HTTP library for a client,
  the version, the hash functions, the context, the buffers of the workers, the worlds of the
  jobs, whether an earlier download of the same strategy was redirected, and what the metrics need.
\<close>

record ('w, 'f) surroundings =
  su_env :: "'w net_env"
  su_http :: "RPGetHTTPClient \<Rightarrow> 'w http_client"
  su_version :: string
  su_hash :: "CacheKey structure_hash"
  su_jump :: jump_hash
  su_ctx :: go_ctx
  su_bufs :: "nat \<Rightarrow> byte list"
  su_ws :: "nat \<Rightarrow> 'w"
  su_redirected :: bool
  su_throughput :: "int64 \<Rightarrow> 'f"
  su_marshals :: "'f MetricsPayload \<Rightarrow> bool"

definition with_client :: "('w, 'f) surroundings \<Rightarrow> RPGetHTTPClient \<Rightarrow> 'w net_env" where
  "with_client su c = (su_env su)\<lparr>client_Do := client_call (su_http su c) (su_version su) (hc_headers c)\<rparr>"

text \<open>
  The buffer of a worker has the length that the queue was built with; \<open>b\<close> is what earlier jobs have
  left in it.
\<close>

definition worker_buffer :: "'a priorityWorkQueue \<Rightarrow> byte list \<Rightarrow> byte list" where
  "worker_buffer q b = take (nat (bufSize q)) (b @ replicate (nat (bufSize q)) 0)"

lemma length_worker_buffer [simp]: "length (worker_buffer q b) = nat (bufSize q)"
  by (simp add: worker_buffer_def)

definition buffer_run :: "('w, 'f) surroundings \<Rightarrow> bufferMode \<Rightarrow> 'a priorityWorkQueue \<Rightarrow> 'w bm_run" where
  "buffer_run su m q = (with_client su (bm_Client m), m\<lparr>redirected := su_redirected su\<rparr>, su_ctx su,
     \<lambda>i. worker_buffer q (su_bufs su i), su_ws su)"

definition hashing_run :: "('w, 'f) surroundings \<Rightarrow> chMode \<Rightarrow> 'a priorityWorkQueue \<Rightarrow> 'w ch_run" where
  "hashing_run su m q = (with_client su (ch_Client m), su_hash su, su_jump su,
     m\<lparr>FallbackStrategy := (FallbackStrategy m)\<lparr>redirected := su_redirected su\<rparr>\<rparr>, su_ctx su,
     \<lambda>i. worker_buffer q (su_bufs su i), su_ws su)"

text \<open>
  \<open>Fetch\<close> of a strategy with its queue: the first thing that both do after parsing the URL, where they
  do, is to submit a job, and without a worker the sender waits for ever.
\<close>

definition has_worker :: "'a priorityWorkQueue \<Rightarrow> bool" where
  "has_worker q \<longleftrightarrow> (case wq_start q of Panic _ \<Rightarrow> False | Ret ws \<Rightarrow> ws \<noteq> [])"

fun downloader_fetch :: "('w, 'f) surroundings \<Rightarrow> downloader \<Rightarrow> fetch" where
  "downloader_fetch su (Buffering m q) url =
     (if has_worker q then buffer_fetch (buffer_run su m q) url else None)"
| "downloader_fetch su (Hashing m q) url =
     (if has_worker q then hashing_fetch (hashing_run su m q) url
      else case url_parse (su_env su) url of Inl err \<Rightarrow> Some (Ret (Inl err)) | Inr _ \<Rightarrow> None)"

lemma has_worker_iff: "has_worker q \<longleftrightarrow> 0 < concurrency q \<and> 0 \<le> bufSize q"
  by (auto simp: has_worker_def wq_start_def)

definition command_getter :: "('w, 'f) surroundings \<Rightarrow> settings \<Rightarrow> int64 \<Rightarrow> consumer \<Rightarrow> 'f getter" where
  "command_getter su cfg maxFiles c =
     \<lparr>g_Consumer = Some c, g_MaxConcurrentFiles = maxFiles, g_endpoint = GetString cfg OptMetricsEndpoint,
      g_version = su_version su, g_throughput = su_throughput su, g_marshals = su_marshals su\<rparr>"
section \<open>One file\<close>

definition root_setup :: "'ip command_env \<Rightarrow> settings \<Rightarrow> (go_error + consumer \<times> downloader) outcome" where
  "root_setup env cfg =
     (case ParseBytes env (GetString cfg OptChunkSize) of
        Inl err \<Rightarrow> Ret (Inl (Wrapf ''error parsing chunk size'' err))
      | Inr chunkSz \<Rightarrow>
          (case ResolveOverridesToMap (\<lambda>s. ParseIP env s \<noteq> None) (GetStringSlice cfg OptResolve) of
             Inl err \<Rightarrow> Ret (Inl (Wrapf ''error parsing resolve overrides'' err))
           | Inr resolveOverrides \<Rightarrow>
               (case GetConsumer cfg of
                  Inl err \<Rightarrow> Ret (Inl err)
                | Inr c \<Rightarrow>
                    (case choose_downloader env (GetBool cfg OptCacheUsePathProxy) cfg
                            (downloadOpts cfg chunkSz (clientOpts cfg resolveOverrides)) of
                       Panic msg \<Rightarrow> Panic msg
                     | Ret (Inl err) \<Rightarrow> Ret (Inl err)
                     | Ret (Inr d) \<Rightarrow> Ret (Inr (c, d))))))"

text \<open>The error of the command, the file system and the metrics; \<open>None\<close> if it never returns.\<close>

definition rootExecute ::
  "'ip command_env \<Rightarrow> ('w, 'f::zero) surroundings \<Rightarrow> archive_reader \<Rightarrow> settings \<Rightarrow> file_system \<Rightarrow> string \<Rightarrow>
     string \<Rightarrow> (go_error option \<times> file_system \<times> 'f MetricsPayload list) outcome option" where
  "rootExecute env su archive cfg fs urlString dest =
     (case root_setup env cfg of
        Panic msg \<Rightarrow> Some (Panic msg)
      | Ret (Inl err) \<Rightarrow> Some (Ret (Some err, fs, []))
      | Ret (Inr (c, d)) \<Rightarrow>
          (case DownloadFile archive (command_getter su cfg 0 c) (downloader_fetch su d) fs urlString dest of
             None \<Rightarrow> None
           | Some (Panic msg) \<Rightarrow> Some (Panic msg)
           | Some (Ret ((fileSize, err), fs', ms)) \<Rightarrow> Some (Ret (err, fs', ms))))"

definition runRootCMD ::
  "'ip command_env \<Rightarrow> ('w, 'f::zero) surroundings \<Rightarrow> archive_reader \<Rightarrow> settings \<Rightarrow> file_system \<Rightarrow> string list \<Rightarrow>
     (go_error option \<times> file_system \<times> 'f MetricsPayload list) outcome option" where
  "runRootCMD env su archive cfg fs args =
     (case args of
        [] \<Rightarrow> Some (Panic ''index out of range'')
      | url # rest \<Rightarrow>
          let dest = (case rest of [] \<Rightarrow> '''' | d # _ \<Rightarrow> d)
          in case (if GetString cfg OptOutputConsumer \<noteq> ''null''
                   then EnsureDestinationNotExist cfg (os_Stat fs) dest else None) of
               Some err \<Rightarrow> Some (Ret (Some err, fs, []))
             | None \<Rightarrow> rootExecute env su archive cfg fs url dest)"

section \<open>Many files\<close>

definition multifilePreRunE :: "settings \<Rightarrow> go_error option" where
  "multifilePreRunE cfg =
     (if GetBool cfg OptExtract then Some (Errorf ''cannot use --extract with multifile mode'')
      else if GetString cfg OptOutputConsumer = ''tar-extractor''
      then Some (Errorf ''cannot use --output-consumer tar-extractor with multifile mode'') else None)"

definition maxConcurrentFiles :: "settings \<Rightarrow> int64" where
  "maxConcurrentFiles cfg =
     (let n = GetInt cfg OptMaxConcurrentFiles in if n = 0 then 20 else n)"

definition multifile_setup :: "'ip command_env \<Rightarrow> settings \<Rightarrow> (go_error + consumer \<times> downloader) outcome" where
  "multifile_setup env cfg =
     (case ParseBytes env (GetString cfg OptChunkSize) of
        Inl err \<Rightarrow> Ret (Inl err)
      | Inr chunkSz \<Rightarrow>
          (case ResolveOverridesToMap (\<lambda>s. ParseIP env s \<noteq> None) (GetStringSlice cfg OptResolve) of
             Inl err \<Rightarrow> Ret (Inl (Wrapf ''error parsing resolve overrides'' err))
           | Inr resolveOverrides \<Rightarrow>
               (case GetConsumer cfg of
                  Inl err \<Rightarrow> Ret (Inl (Wrapf ''error getting consumer'' err))
                | Inr c \<Rightarrow>
                    (case choose_downloader env False cfg
                            (downloadOpts cfg chunkSz (clientOpts cfg resolveOverrides)) of
                       Panic msg \<Rightarrow> Panic msg
                     | Ret (Inl err) \<Rightarrow> Ret (Inl err)
                     | Ret (Inr d) \<Rightarrow> Ret (Inr (c, d))))))"

text \<open>
  The command on a manifest, for one interleaving of its downloads. Each download has its own
  surroundings, which depend on its URL and on whether the group was cancelled.
\<close>

definition multifileExecute ::
  "'ip command_env \<Rightarrow> ('w, 'f::zero) surroundings \<Rightarrow> (bool \<Rightarrow> string \<Rightarrow> ('w, 'f) surroundings) \<Rightarrow> archive_reader \<Rightarrow>
     settings \<Rightarrow> ManifestEntry list \<Rightarrow> event list \<Rightarrow> file_system \<Rightarrow>
     (go_error option \<times> file_system \<times> 'f MetricsPayload list) outcome option" where
  "multifileExecute env su sus archive cfg manifest events fs =
     (case multifile_setup env cfg of
        Panic msg \<Rightarrow> Some (Panic msg)
      | Ret (Inl err) \<Rightarrow> Some (Ret (Some err, fs, []))
      | Ret (Inr (c, d)) \<Rightarrow>
          (case DownloadFiles archive (command_getter su cfg (maxConcurrentFiles cfg) c)
                  (\<lambda>cancelled url. downloader_fetch (sus cancelled url) d url) manifest events fs of
             None \<Rightarrow> None
           | Some (Panic msg, st) \<Rightarrow> Some (Panic msg)
           | Some (Ret (totalFileSize, err), st) \<Rightarrow> Some (Ret (err, eg_fs st, eg_metrics st))))"

text \<open>
  \<open>opened\<close> is the error of opening a path, and \<open>read_input\<close> the content of the standard input or of
  an opened file.
\<close>

definition runMultifileCMD ::
  "'ip command_env \<Rightarrow> ('w, 'f::zero) surroundings \<Rightarrow> (bool \<Rightarrow> string \<Rightarrow> ('w, 'f) surroundings) \<Rightarrow> archive_reader \<Rightarrow>
     settings \<Rightarrow> (string \<Rightarrow> go_error option) \<Rightarrow> (input \<Rightarrow> string) \<Rightarrow> event list \<Rightarrow> file_system \<Rightarrow> string list \<Rightarrow>
     (go_error option \<times> file_system \<times> 'f MetricsPayload list) outcome option" where
  "runMultifileCMD env su sus archive cfg opened read_input events fs args =
     (case args of
        [] \<Rightarrow> Some (Panic ''index out of range'')
      | manifestPath # _ \<Rightarrow>
          (case manifestFile (os_Stat fs) opened manifestPath of
             Inl err \<Rightarrow> Some (Ret (Some err, fs, []))
           | Inr file \<Rightarrow>
               (case parseManifest (ParseURL env) cfg (os_Stat fs) (read_input file) of
                  Inl err \<Rightarrow> Some (Ret (Some (Wrapf (''error processing manifest file '' @ manifestPath) err), fs, []))
                | Inr manifest \<Rightarrow> multifileExecute env su sus archive cfg manifest events fs)))"

section \<open>Facts on the set-up\<close>

lemma start_queueD: "start_queue d = Ret (Inr d') \<Longrightarrow> d' = d"
  by (auto simp: start_queue_def split: outcome.splits)

lemma start_queue_not_Inl [simp]: "start_queue d \<noteq> Ret (Inl e)"
  by (auto simp: start_queue_def split: outcome.splits)

lemma choose_downloader_hashing:
  assumes "choose_downloader env p cfg opts = Ret (Inr (Hashing m q))"
  shows "ch_built m \<and> SliceSize (ch_opts m) = 500 * 2 ^ 20 \<and> ChunkSize (ch_opts m) = ChunkSize opts \<and>
     CacheUsePathProxy (ch_opts m) = p \<and>
     concurrency q = maxConcurrency (NumCPU env) opts \<and> bufSize q = ch_chunkSize m \<and>
     (\<exists>hosts. LookupCacheHosts (LookupSRV env) (GetCacheSRV (ParseIP env) (CIDRContains env) cfg) = Ret (Inr hosts) \<and>
        CacheHosts (ch_opts m) = Some hosts)"
proof -
  obtain hosts where
    l: "LookupCacheHosts (LookupSRV env) (GetCacheSRV (ParseIP env) (CIDRContains env) cfg) = Ret (Inr hosts)" and
    g: "GetConsistentHashingMode (GetStringMapString cfg OptHeaders) (NumCPU env)
       (opts\<lparr>SliceSize := 500 * 2 ^ 20, CacheableURIPrefixes := CacheableURIPrefixes_opt (ParseURL env) cfg,
          CacheUsePathProxy := p, ForceCachePrefixRewrite := GetBool cfg OptForceCachePrefixRewrite,
          CacheHosts := Some hosts\<rparr>) = Inr (m, q)"
    using assms
    by (auto simp: choose_downloader_def Let_def split: outcome.splits sum.splits if_splits prod.splits dest!: start_queueD)
  have "concurrency q = maxConcurrency (NumCPU env) opts \<and> bufSize q = ch_chunkSize m"
    using g by (auto simp: GetConsistentHashingMode_def newWorkQueue_def maxConcurrency_def Let_def split: if_splits)
  with GetConsistentHashingMode_built [OF g] l show ?thesis by auto
qed

lemma choose_downloader_buffering:
  assumes "choose_downloader env p cfg opts = Ret (Inr (Buffering m q))"
  shows "ChunkSize (bm_opts m) = ChunkSize opts \<and> \<not> redirected m \<and>
     concurrency q = maxConcurrency (NumCPU env) opts \<and> bufSize q = chunkSize m"
  using assms
  by (auto simp: choose_downloader_def GetBufferMode_def newWorkQueue_def maxConcurrency_def Let_def
      split: outcome.splits sum.splits if_splits prod.splits dest!: start_queueD)

lemma choose_downloader_workers:
  "choose_downloader env p cfg opts = Ret (Inr d) \<Longrightarrow> concurrency (downloader_queue d) = maxConcurrency (NumCPU env) opts"
  by (cases d) (auto dest: choose_downloader_hashing choose_downloader_buffering)

lemma root_setup_cases:
  assumes "root_setup env cfg = Ret (Inr (c, d))"
  obtains chunkSz o' where "ParseBytes env (GetString cfg OptChunkSize) = Inr chunkSz" "GetConsumer cfg = Inr c"
    "choose_downloader env (GetBool cfg OptCacheUsePathProxy) cfg (downloadOpts cfg chunkSz (clientOpts cfg o')) = Ret (Inr d)"
  using assms by (auto simp: root_setup_def split: sum.splits outcome.splits)

lemma multifile_setup_cases:
  assumes "multifile_setup env cfg = Ret (Inr (c, d))"
  obtains chunkSz o' where "ParseBytes env (GetString cfg OptChunkSize) = Inr chunkSz" "GetConsumer cfg = Inr c"
    "choose_downloader env False cfg (downloadOpts cfg chunkSz (clientOpts cfg o')) = Ret (Inr d)"
  using assms by (auto simp: multifile_setup_def split: sum.splits outcome.splits)

text \<open>
  Without any options the root command downloads without a cache, in chunks of the default size,
  to a new file.
\<close>

lemma default_setup:
  assumes "ParseBytes env chunkSizeDefault = Inr n" "0 < n" "n < 2 ^ 63" "ParseIP env '''' = None"
    and "ParseURL env '''' = Inr u"
  shows "\<exists>m q. root_setup env (default_settings gomaxprocs getenv goos) = Ret (Inr (FileWriter False, Buffering m q)) \<and>
     chunkSize m = n \<and> CacheHosts (bm_opts m) = None \<and> RetryMax (bm_Client m) = 5 \<and> bufSize q = n"
proof -
  have "wrap64 n = n" using assms(2,3) by (intro wrap64_nonneg) auto
  then show ?thesis using assms
    by (simp add: root_setup_def default_settings_def ResolveOverridesToMap_def GetConsumer_def choose_downloader_def
        GetCacheSRV_def CacheServiceHostname_def GetBufferMode_def downloadOpts_def clientOpts_def NewHTTPClient_def
        chunkSize_def start_queue_def newWorkQueue_def wq_start_def Let_def)
qed

section \<open>The strategy of a command fulfils the contract\<close>

text \<open>
  What a strategy needs: at least one worker; a server that honours range requests, or cache nodes
  that serve ranges or fail over to the fallback strategy; URLs that parse; sizes that do not
  overflow; and for the fallback strategy chunks that are no longer than a slice.
\<close>

fun downloader_ready :: "('w, 'f) surroundings \<Rightarrow> downloader \<Rightarrow> string \<Rightarrow> byte list \<Rightarrow> bool" where
  "downloader_ready su (Buffering m q) url content \<longleftrightarrow>
     (let env = with_client su (bm_Client m)
      in 0 < concurrency q \<and> range_client plain_ctx (client_Do env) content \<and> plain_ctx (su_ctx su) \<and>
         urls_parse env (effective_url env m url) \<and> bm_valid m (int (length content)))"
| "downloader_ready su (Hashing m q) url content \<longleftrightarrow>
     (let env = with_client su (ch_Client m)
      in 0 < concurrency q \<and> cache_ready_for env (su_hash su) (su_jump su) m url \<and>
         cache_client (client_Do env) content \<and> range_client plain_ctx (client_Do env) content \<and>
         plain_ctx (su_ctx su) \<and> urls_parse env url \<and> ch_valid m (int (length content)) \<and>
         chunkSize (FallbackStrategy m) \<le> SliceSize (ch_opts m))"

text \<open>The buffers of the workers have the size that the strategy counts on.\<close>

fun downloader_built :: "downloader \<Rightarrow> bool" where
  "downloader_built (Buffering m q) \<longleftrightarrow> bufSize q = chunkSize m"
| "downloader_built (Hashing m q) \<longleftrightarrow> ch_built m \<and> bufSize q = ch_chunkSize m"

lemma choose_downloader_built: "choose_downloader env p cfg opts = Ret (Inr d) \<Longrightarrow> downloader_built d"
  by (cases d) (auto dest: choose_downloader_hashing choose_downloader_buffering)

lemma setup_built:
  "root_setup env cfg = Ret (Inr (c, d)) \<Longrightarrow> downloader_built d"
  "multifile_setup env cfg = Ret (Inr (c, d)) \<Longrightarrow> downloader_built d"
  by (auto elim!: root_setup_cases multifile_setup_cases dest: choose_downloader_built)

text \<open>The flag for redirects has no part in what a strategy needs.\<close>

lemma redirected_irrelevant [simp]:
  "chunkSize (m\<lparr>redirected := r\<rparr>) = chunkSize m" "effective_url env (m\<lparr>redirected := r\<rparr>) url = effective_url env m url"
  "bm_valid (m\<lparr>redirected := r\<rparr>) sz = bm_valid m sz"
  by (simp_all add: chunkSize_def effective_url_def bm_valid_def rewriteUrlForCache_def rewritePrefix_def [abs_def]
      split: option.split list.split sum.split)

lemma fallback_irrelevant [simp]:
  "ch_chunkSize (m\<lparr>FallbackStrategy := fb\<rparr>) = ch_chunkSize m" "ch_valid (m\<lparr>FallbackStrategy := fb\<rparr>) sz = ch_valid m sz"
  "cache_ready_for env hash jump (m\<lparr>FallbackStrategy := fb\<rparr>) url = cache_ready_for env hash jump m url"
  by (simp_all add: ch_chunkSize_def ch_valid_def cache_ready_for_def cache_ready_def cache_hosts_def Let_def)

interpretation command_strategy: download_strategy
  "\<lambda>(su, d). downloader_fetch su d" "\<lambda>(su, d) url content. downloader_built d \<and> downloader_ready su d url content"
proof unfold_locales
  fix m :: "('a, 'b) surroundings \<times> downloader" and url content
  obtain su d where m: "m = (su, d)" by fastforce
  assume "(case m of (su, d) \<Rightarrow> \<lambda>url content. downloader_built d \<and> downloader_ready su d url content) url content"
  then have r: "downloader_built d" "downloader_ready su d url content" using m by auto
  show "\<exists>readers. (case m of (su, d) \<Rightarrow> downloader_fetch su d) url =
      Some (Ret (Inr (readers, int (length content)))) \<and> multi_read readers = Some (Ret (content, None))"
  proof (cases d)
    case (Buffering b q)
    then have "buffer_ready (buffer_run su b q) url content" "has_worker q"
      using r by (simp_all add: buffer_run_def Let_def has_worker_iff bm_valid_def)
    then show ?thesis using buffer_strategy.fetch_complete [of "buffer_run su b q" url content] m Buffering by simp
  next
    case (Hashing b q)
    then have "hashing_ready (hashing_run su b q) url content" "has_worker q"
      using r by (simp_all add: hashing_run_def Let_def has_worker_iff ch_valid_def ch_built_def)
    then show ?thesis using hashing_strategy.fetch_complete [of "hashing_run su b q" url content] m Hashing by simp
  qed
qed

text \<open>Without a worker nothing is fetched, whatever the servers answer.\<close>

lemma downloader_fetch_stuck:
  assumes "concurrency (downloader_queue d) \<le> 0" "url_parse (su_env su) url = Inr u"
  shows "downloader_fetch su d url = None"
  using assms by (cases d) (simp_all add: has_worker_iff)

text \<open>A destination that can be written exists exactly if it holds a file.\<close>

lemma can_write_stat:
  assumes "can_write fs d" "plain_fs fs"
  shows "(os_Stat fs d = None \<longleftrightarrow> file_at fs (place (fs_cwd fs) d) \<noteq> None) \<and>
     (\<forall>e. os_Stat fs d = Some e \<longrightarrow> errors_is e ErrNotExist)"
proof -
  obtain p where p: "resolve fs True d = Inr p" "node_at fs p = None \<or> (\<exists>i. node_at fs p = Some (File i))"
    using assms(1) by (auto simp: can_write_def)
  then show ?thesis using resolve_place [OF assms(2) p(1)]
    by (auto simp: os_Stat_def stat_node_def file_at_def not_exist_def)
qed

lemma EnsureDestination_can_write:
  assumes "can_write fs d" "plain_fs fs"
  shows "EnsureDestinationNotExist cfg (os_Stat fs) d =
     (if \<not> GetBool cfg OptForce \<and> file_at fs (place (fs_cwd fs) d) \<noteq> None
      then Some (Errorf (''destination '' @ d @ '' already exists'')) else None)"
proof (cases "os_Stat fs d")
  case None
  then show ?thesis using can_write_stat [OF assms] by (simp add: EnsureDestinationNotExist_def)
next
  case (Some e)
  then show ?thesis using can_write_stat [OF assms] by (auto simp: EnsureDestinationNotExist_def)
qed

lemma GetConsumer_file:
  "GetString cfg OptOutputConsumer = ''file'' \<Longrightarrow> GetConsumer cfg = Inr (FileWriter (GetBool cfg OptForce))"
  by (simp add: GetConsumer_def)

lemma accepted_destinations:
  assumes "parseManifest parse cfg stat content = Inr es" "GetString cfg OptOutputConsumer \<noteq> ''null''" "e \<in> set es"
  shows "EnsureDestinationNotExist cfg stat (me_Dest e) = None"
proof -
  have "manifest_loop parse cfg stat (scan_lines content) (seen_of []) [] = Inr es"
    using assms(1) by (simp add: parseManifest_def seen_of_def)
  from manifest_loop_ok [OF assms(2) this] assms(3) show ?thesis by simp
qed

lemma rootExecute_writes:
  assumes "root_setup env cfg = Ret (Inr (c, d))" "GetString cfg OptOutputConsumer = ''file''"
    and "downloader_ready su d url content" "plain_fs fs" "can_write fs dest"
    and "GetBool cfg OptForce \<or> file_at fs (place (fs_cwd fs) dest) = None"
  shows "\<exists>fs' ms. rootExecute env su archive cfg fs url dest = Some (Ret (None, fs', ms)) \<and>
     read_file fs' dest = Some content \<and>
     (\<forall>p. p \<noteq> place (fs_cwd fs) dest \<longrightarrow> file_at fs' p = file_at fs p)"
proof -
  have c: "c = FileWriter (GetBool cfg OptForce)"
    using assms(1) GetConsumer_file [OF assms(2)] by (auto elim: root_setup_cases)
  obtain fs' where w: "FileWriter_Consume (GetBool cfg OptForce) fs (content, None) dest (int (length content)) = (None, fs')"
    using FileWriter_succeeds [OF assms(5,4) refl] by blast
  have "read_file fs' dest = Some content" using FileWriter_writes [OF w assms(4)] assms(6) by simp
  moreover have "\<forall>p. p \<noteq> place (fs_cwd fs) dest \<longrightarrow> file_at fs' p = file_at fs p"
    using FileWriter_frame [OF w assms(4)] by blast
  moreover have "\<exists>ms. rootExecute env su archive cfg fs url dest = Some (Ret (None, fs', ms))"
    using command_strategy.download_consumes [of "(su, d)" url content archive "command_getter su cfg 0 c" fs dest]
      assms(1,3) setup_built(1) [OF assms(1)] w c by (simp add: rootExecute_def command_getter_def the_consumer_def)
  ultimately show ?thesis by blast
qed

section \<open>No worker, no download\<close>

text \<open>The number of workers that the option asks for; for 0 there are four for every processor.\<close>

definition option_workers :: "'ip command_env \<Rightarrow> settings \<Rightarrow> int64" where
  "option_workers env cfg =
     (if GetInt cfg OptConcurrency = 0 then wrap64 (NumCPU env * 4) else GetInt cfg OptConcurrency)"

lemma setup_workers:
  "root_setup env cfg = Ret (Inr (c, d)) \<Longrightarrow> concurrency (downloader_queue d) = option_workers env cfg"
  "multifile_setup env cfg = Ret (Inr (c, d)) \<Longrightarrow> concurrency (downloader_queue d) = option_workers env cfg"
  by (auto elim!: root_setup_cases multifile_setup_cases dest!: choose_downloader_workers
      simp: option_workers_def maxConcurrency_def downloadOpts_def)

lemma rootExecute_stuck:
  assumes "root_setup env cfg = Ret (Inr (c, d))" "option_workers env cfg \<le> 0" "url_parse (su_env su) url = Inr u"
  shows "rootExecute env su archive cfg fs url dest = None"
proof -
  have "downloader_fetch su d url = None"
    by (rule downloader_fetch_stuck [where su = su and url = url, OF _ assms(3)]) (simp add: setup_workers(1) [OF assms(1)] assms(2))
  then show ?thesis using assms(1) by (simp add: rootExecute_def DownloadFile_def)
qed

lemma multifileExecute_stuck:
  assumes "multifile_setup env cfg = Ret (Inr (c, d))" "option_workers env cfg \<le> 0" "manifest \<noteq> []"
    and "\<forall>c. \<forall>e \<in> set manifest. \<exists>u. url_parse (su_env (sus c (me_URL e))) (me_URL e) = Inr u"
  shows "multifileExecute env su sus archive cfg manifest events fs = None"
proof -
  let ?F = "\<lambda>cancelled url. downloader_fetch (sus cancelled url) d url"
  have w: "concurrency (downloader_queue d) \<le> 0" using setup_workers(2) [OF assms(1)] assms(2) by simp
  have "?F c (me_URL e) = None" if "e \<in> set manifest" for c e
    using assms(4) that downloader_fetch_stuck [OF w] by blast
  then have "\<forall>cancelled fs. \<forall>e \<in> set manifest. DownloadFile archive (command_getter su cfg (maxConcurrentFiles cfg) c)
      (?F cancelled) fs (me_URL e) (me_Dest e) = None"
    by (simp add: DownloadFile_def)
  from DownloadFiles_stuck [OF this assms(3)] show ?thesis using assms(1) by (simp add: multifileExecute_def)
qed

section \<open>The client's headers\<close>

text \<open>
  The headers that the client adds do not change which range is asked for, unless the user
  configures a Range header; so what holds of the HTTP library holds of the client.
\<close>

definition no_range_header :: "(string \<times> string) list \<Rightarrow> bool" where
  "no_range_header hs \<longleftrightarrow> list_all (\<lambda>(k, v). canonical_key k \<noteq> ''Range'') hs"

lemma set_headers_range:
  assumes "no_range_header hs"
  shows "header_get (req_Header (set_headers version hs req)) ''Range'' = header_get (req_Header req) ''Range'' \<and>
     req_Ctx (set_headers version hs req) = req_Ctx req"
proof -
  have "map_of (rev (map (\<lambda>(k, v). (canonical_key k, v)) hs)) ''Range'' = None"
    using assms by (auto simp: map_of_eq_None_iff no_range_header_def list_all_iff)
  moreover have "canonical_key ''Range'' = ''Range''" by code_simp
  ultimately show ?thesis by (simp add: set_headers_eq header_get_def map_add_def)
qed

lemma client_call_range:
  assumes "range_client C http content" "no_range_header hs"
  shows "range_client C (client_call http version hs) content"
  using assms(1) set_headers_range [OF assms(2)] by (simp add: range_client_def client_call_def)

lemma client_call_cache:
  assumes "cache_client http content" "no_range_header hs"
  shows "cache_client (client_call http version hs) content"
  using assms(1) set_headers_range [OF assms(2)] by (simp add: cache_client_def client_call_def)

section \<open>Properties\<close>

text \<open>The root command with the default consumer, with a server (or cache nodes) that can deliver the
  file and a destination that can be written: it refuses an existing destination unless it is
  told to overwrite it, and then changes nothing; otherwise it returns without an error, the
  destination holds exactly the content, and no other file has changed.\<close>

theorem root_command_writes_file:
  assumes "root_setup env cfg = Ret (Inr (c, d))" "GetString cfg OptOutputConsumer = ''file''"
    and "downloader_ready su d url content" "plain_fs fs" "can_write fs dest"
  shows "if \<not> GetBool cfg OptForce \<and> os_Stat fs dest = None
     then runRootCMD env su archive cfg fs [url, dest] =
       Some (Ret (Some (Errorf (''destination '' @ dest @ '' already exists'')), fs, []))
     else \<exists>fs' ms. runRootCMD env su archive cfg fs [url, dest] = Some (Ret (None, fs', ms)) \<and>
       read_file fs' dest = Some content \<and>
       (\<forall>p. p \<noteq> place (fs_cwd fs) dest \<longrightarrow> file_at fs' p = file_at fs p)"
  using rootExecute_writes [OF assms, of archive] can_write_stat [OF assms(5,4)] assms(2)
    EnsureDestination_can_write [OF assms(5,4), of cfg]
  by (auto simp: runRootCMD_def)

text \<open>C33. With cache nodes, both commands build one work queue with as many workers as the option says (four
  for every processor if it is 0), whose buffers hold the chunk size but at most 500 MiB. Every range
  that the strategy asks the nodes for fits into such a buffer, whatever the size of the file; every
  range of the fallback strategy, whose jobs use the same buffers, does exactly if the configured
  chunk size is at most 500 MiB.\<close>

theorem hashing_setup_bounds:
  assumes "Ret (Inr (c, Hashing m q)) \<in> {root_setup env cfg, multifile_setup env cfg}"
    and "ParseBytes env (GetString cfg OptChunkSize) = Inr n" "0 < n" "n < 2 ^ 63"
  shows "concurrency q = option_workers env cfg \<and>
     bufSize q = min n (500 * 2 ^ 20) \<and>
     (\<forall>sz. ch_valid m sz \<longrightarrow> (\<forall>(a, b) \<in> set (ch_plan m sz). min (b + 1) sz - a \<le> bufSize q)) \<and>
     ((\<forall>sz. bm_valid (FallbackStrategy m) sz \<longrightarrow>
         (\<forall>(a, b) \<in> set (bm_plan (FallbackStrategy m) sz). min (b + 1) sz - a \<le> bufSize q)) \<longleftrightarrow> n \<le> 500 * 2 ^ 20)"
proof -
  obtain p o' where d: "choose_downloader env p cfg (downloadOpts cfg n (clientOpts cfg o')) = Ret (Inr (Hashing m q))"
    using assms(1,2) by (fastforce elim!: root_setup_cases [OF sym] multifile_setup_cases [OF sym])
  note h = choose_downloader_hashing [OF d]
  have "wrap64 n = n" using assms(3,4) by (intro wrap64_nonneg) auto
  then have c: "ChunkSize (ch_opts m) = n" "ch_built m" "SliceSize (ch_opts m) = 500 * 2 ^ 20"
    using h by (auto simp: downloadOpts_def)
  have b: "bufSize q = min n (500 * 2 ^ 20)" "chunkSize (FallbackStrategy m) = n"
    using h c assms(3) by (auto simp: ch_chunkSize_def chunkSize_def ch_built_def Let_def)
  have v: "bm_valid (FallbackStrategy m) n" using b(2) assms(3,4) by (simp add: bm_valid_def in64_def)
  have "(0, n - 1) \<in> set (bm_plan (FallbackStrategy m) n)" using b(2) assms(3,4) by (simp add: bm_plan_def wrap64_nonneg)
  then have "(\<forall>sz. bm_valid (FallbackStrategy m) sz \<longrightarrow>
      (\<forall>(a, b) \<in> set (bm_plan (FallbackStrategy m) sz). min (b + 1) sz - a \<le> bufSize q)) \<longleftrightarrow> n \<le> 500 * 2 ^ 20"
    using v b bm.plan_limit [of "FallbackStrategy m"] by fastforce
  moreover have "\<forall>sz. ch_valid m sz \<longrightarrow> (\<forall>(a, b) \<in> set (ch_plan m sz). min (b + 1) sz - a \<le> bufSize q)"
    using h ch.plan_limit [of m] by auto
  ultimately show ?thesis using h b(1) by (simp add: maxConcurrency_def downloadOpts_def option_workers_def)
qed

text \<open>The multifile command on a manifest that it accepts, with servers or cache nodes that can deliver
  the files and destinations that are different places that can be written: whatever the
  interleaving of the downloads, when it returns there is no error and every destination holds
  exactly the content of its URL.\<close>

theorem multifile_command_writes_files:
  assumes "runMultifileCMD env su sus archive cfg opened read_input events fs [path] = Some r"
    and "manifestFile (os_Stat fs) opened path = Inr file"
    and "parseManifest (ParseURL env) cfg (os_Stat fs) (read_input file) = Inr manifest"
    and "multifile_setup env cfg = Ret (Inr (c, d))" "GetString cfg OptOutputConsumer = ''file''"
    and "\<forall>e \<in> set manifest. downloader_ready (sus False (me_URL e)) d (me_URL e) (content (me_URL e)) \<and>
           can_write fs (me_Dest e)"
    and "plain_fs fs" "places_differ (fs_cwd fs) manifest"
  shows "\<exists>fs' ms. r = Ret (None, fs', ms) \<and>
     (\<forall>e \<in> set manifest. read_file fs' (me_Dest e) = Some (content (me_URL e)))"
proof -
  let ?ow = "GetBool cfg OptForce" and ?g = "command_getter su cfg (maxConcurrentFiles cfg) c"
  let ?F = "\<lambda>cancelled url. downloader_fetch (sus cancelled url) d url"
  have c: "c = FileWriter ?ow" using assms(4) GetConsumer_file [OF assms(5)] by (auto elim: multifile_setup_cases)
  have "\<forall>e \<in> set manifest. EnsureDestinationNotExist cfg (os_Stat fs) (me_Dest e) = None"
    using accepted_destinations assms(3,5) by fastforce
  then have free: "\<forall>e \<in> set manifest. downloader_ready (sus False (me_URL e)) d (me_URL e) (content (me_URL e)) \<and>
      dest_free ?ow fs e"
    using assms(6) EnsureDestination_can_write [OF _ assms(7)] by (fastforce simp: dest_free_def split: if_splits)
  obtain res st where D: "DownloadFiles archive ?g ?F manifest events fs = Some (res, st)"
    and r: "r = (case res of Panic msg \<Rightarrow> Panic msg | Ret (n, err) \<Rightarrow> Ret (err, eg_fs st, eg_metrics st))"
    using assms(1-4) by (auto simp: runMultifileCMD_def multifileExecute_def split: option.splits outcome.splits)
  have "res = Ret (wrap64 (\<Sum>e \<leftarrow> manifest. int (length (content (me_URL e)))), None) \<and>
     (\<forall>e \<in> set manifest. read_file (eg_fs st) (me_Dest e) = Some (content (me_URL e)))"
    by (rule command_strategy.download_files_complete [OF D _ assms(7,8), where mode = "\<lambda>url. (sus False url, d)" and ow = ?ow])
       (use free c setup_built(2) [OF assms(4)] in \<open>simp_all add: command_getter_def the_consumer_def\<close>)
  with r show ?thesis by auto
qed

text \<open>The multifile command never uses the path of the original host on a cache, whatever the option
  says, while the root command passes the option on: on the same configuration the two commands
  ask the same cache nodes for different paths.\<close>

theorem multifile_ignores_path_proxy:
  assumes "multifile_setup env cfg = Ret (Inr (c, Hashing m q))" "root_setup env cfg = Ret (Inr (c', Hashing m' q'))"
  shows "\<not> CacheUsePathProxy (ch_opts m) \<and> CacheUsePathProxy (ch_opts m') = GetBool cfg OptCacheUsePathProxy \<and>
     CacheHosts (ch_opts m) = CacheHosts (ch_opts m')"
  using assms
  by (elim root_setup_cases multifile_setup_cases) (auto dest!: choose_downloader_hashing)

section \<open>The commands on examples\<close>

definition example_command_env :: "unit command_env" where
  "example_command_env = \<lparr>ParseBytes = (\<lambda>_. Inr 3), ParseIP = (\<lambda>_. None), CIDRContains = (\<lambda>_ _. None),
     ParseURL = example_parse,
     LookupSRV = (\<lambda>_. Inr [\<lparr>srv_Target = ''c-1.x.'', srv_Port = 80\<rparr>, \<lparr>srv_Target = ''c-0.x.'', srv_Port = 80\<rparr>]),
     NumCPU = 4\<rparr>"

definition cached_settings :: settings where
  "cached_settings = (example_settings ''file'')\<lparr>GetString := (GetString (example_settings ''file''))
     (OptCacheNodesSRVName := ''cache''), GetBool := (\<lambda>_. False)(OptCacheUsePathProxy := True)\<rparr>"

definition example_surroundings :: "(unit, int) surroundings" where
  "example_surroundings = \<lparr>su_env = example_env [1, 2, 3, 4, 5, 6, 7] 2 (\<lambda>_. False),
     su_http = (\<lambda>_. file_server [1, 2, 3, 4, 5, 6, 7] 2 (\<lambda>_. False)), su_version = ''1'', su_hash = example_hash,
     su_jump = example_jump, su_ctx = background, su_bufs = (\<lambda>_. replicate 3 0), su_ws = (\<lambda>_. ()),
     su_redirected = False, su_throughput = (\<lambda>n. n), su_marshals = (\<lambda>_. True)\<rparr>"

lemma example_root_setup:
  "\<exists>m q. root_setup example_command_env (example_settings ''file'') = Ret (Inr (FileWriter False, Buffering m q)) \<and>
     multifile_setup example_command_env (example_settings ''file'') = Ret (Inr (FileWriter False, Buffering m q)) \<and>
     ChunkSize (bm_opts m) = 3 \<and> CacheHosts (bm_opts m) = None \<and> hc_headers (bm_Client m) = [] \<and> concurrency q = 16"
  by (simp add: root_setup_def multifile_setup_def example_command_env_def example_settings_def ResolveOverridesToMap_def
      GetConsumer_def choose_downloader_def GetCacheSRV_def CacheServiceHostname_def example_parse_def GetBufferMode_def
      downloadOpts_def wrap64_def NewHTTPClient_def start_queue_def newWorkQueue_def wq_start_def chunkSize_def
      maxConcurrency_def Let_def)

lemma example_buffering_ready:
  assumes "ChunkSize (bm_opts m) = 3" "CacheHosts (bm_opts m) = None" "hc_headers (bm_Client m) = []" "concurrency q = 16"
  shows "downloader_ready example_surroundings (Buffering m q) url [1, 2, 3, 4, 5, 6, 7]"
proof -
  have "range_client plain_ctx (client_call (file_server [1, 2, 3, 4, 5, 6, 7] 2 (\<lambda>_. False)) ''1'' []) [1, 2, 3, 4, 5, 6, 7]"
    by (rule client_call_range [OF file_server_range_client]) (simp_all add: no_range_header_def)
  then show ?thesis using assms
    by (simp add: buffer_run_def with_client_def example_surroundings_def example_plain_ctx urls_parse_def example_env_def
        example_parse_def bm_valid_def chunkSize_def in64_def)
qed

lemma example_two_entries:
  "parseManifest example_parse (example_settings ''file'') (os_Stat empty_fs) (print_manifest two_files) = Inr two_files"
proof -
  have p: "list_all printable two_files" 
    by (simp add: two_files_def printable_def token_def graph_char_def print_entry_def fits_buffer_def)
  have "\<forall>e \<in> set two_files. EnsureDestinationNotExist (example_settings ''file'') (os_Stat empty_fs) (me_Dest e) = None"
    using two_files_free EnsureDestination_can_write [OF _ empty_fs_plain, of _ "example_settings ''file''"]
    by (auto simp: dest_free_def)
  then have "manifest_loop example_parse (example_settings ''file'') (os_Stat empty_fs) (map print_entry two_files)
      (seen_of []) [] = Inr ([] @ two_files)"
    using p by (intro manifest_loop_print) (auto simp: example_parse_def example_settings_def two_files_def)
  then show ?thesis by (simp add: parseManifest_def scan_lines_print [OF p] seen_of_def)
qed

theorem root_command_writes_file_witness:
  "\<exists>fs' ms. runRootCMD example_command_env example_surroundings (\<lambda>_ _. Inl (Errorf '''')) (example_settings ''file'')
       empty_fs [''weights.example.com/a'', ''/f''] = Some (Ret (None, fs', ms)) \<and>
     read_file fs' ''/f'' = Some [1, 2, 3, 4, 5, 6, 7]"
proof -
  obtain m q where m: "root_setup example_command_env (example_settings ''file'') = Ret (Inr (FileWriter False, Buffering m q))"
    "ChunkSize (bm_opts m) = 3" "CacheHosts (bm_opts m) = None" "hc_headers (bm_Client m) = []" "concurrency q = 16"
    using example_root_setup by blast
  have w: "can_write empty_fs ''/f''" using two_files_free by (simp add: two_files_def dest_free_def)
  have f: "file_at empty_fs p = None" for p by (cases "p = []") (simp_all add: file_at_def node_at_def empty_fs_def)
  have s: "GetString (example_settings ''file'') OptOutputConsumer = ''file''" by (simp add: example_settings_def)
  show ?thesis
    using root_command_writes_file [OF m(1) s example_buffering_ready [OF m(2-5)] empty_fs_plain w,
        of "\<lambda>_ _. Inl (Errorf '''')" "''weights.example.com/a''"] can_write_stat [OF w empty_fs_plain] f by auto
qed

theorem multifile_command_writes_files_witness:
  "\<exists>events fs' ms. runMultifileCMD example_command_env example_surroundings (\<lambda>_ _. example_surroundings)
       (\<lambda>_ _. Inl (Errorf '''')) (example_settings ''file'') (\<lambda>_. None) (\<lambda>_. print_manifest two_files) events
       empty_fs [''-''] = Some (Ret (None, fs', ms)) \<and>
     read_file fs' ''/f'' = Some [1, 2, 3, 4, 5, 6, 7] \<and> read_file fs' ''/g'' = Some [1, 2, 3, 4, 5, 6, 7]"
proof -
  obtain m q where m: "multifile_setup example_command_env (example_settings ''file'') =
      Ret (Inr (FileWriter False, Buffering m q))"
    "ChunkSize (bm_opts m) = 3" "CacheHosts (bm_opts m) = None" "hc_headers (bm_Client m) = []" "concurrency q = 16"
    using example_root_setup by blast
  let ?g = "command_getter example_surroundings (example_settings ''file'')
      (maxConcurrentFiles (example_settings ''file'')) (FileWriter False)"
  let ?F = "\<lambda>cancelled :: bool. \<lambda>url. downloader_fetch example_surroundings (Buffering m q) url"
  note rd = example_buffering_ready [OF m(2-5)]
  have "downloads_return (\<lambda>_ _. Inl (Errorf '''')) ?g ?F two_files"
    unfolding downloads_return_def
  proof (intro allI ballI)
    fix fs e
    show "DownloadFile (\<lambda>_ _. Inl (Errorf '''')) ?g (downloader_fetch example_surroundings (Buffering m q)) fs
        (me_URL e) (me_Dest e) \<noteq> None"
      using command_strategy.download_returns [of "(example_surroundings, Buffering m q)" "me_URL e"
          "[1, 2, 3, 4, 5, 6, 7]"] setup_built(2) [OF m(1)] rd [of "me_URL e"] by simp
  qed
  then obtain events st where "group_run (\<lambda>_ _. Inl (Errorf '''')) ?g ?F events (new_group two_files empty_fs) = Some st"
    "group_result st \<noteq> None" using group_completes [OF group_inv_new] by blast
  moreover from this obtain y where "group_result st = Some y" by blast
  moreover have env: "ParseURL example_command_env = example_parse" by (simp add: example_command_env_def)
  moreover have mf: "manifestFile (os_Stat empty_fs) (\<lambda>_. None) ''-'' = Inr Stdin" by (simp add: manifestFile_def)
  ultimately obtain r where r: "runMultifileCMD example_command_env example_surroundings (\<lambda>_ _. example_surroundings)
       (\<lambda>_ _. Inl (Errorf '''')) (example_settings ''file'') (\<lambda>_. None) (\<lambda>_. print_manifest two_files) events
       empty_fs [''-''] = Some r"
    using m(1) example_two_entries
    by (cases y) (auto simp: runMultifileCMD_def multifileExecute_def DownloadFiles_def)
  have e: "parseManifest (ParseURL example_command_env) (example_settings ''file'') (os_Stat empty_fs)
      ((\<lambda>_. print_manifest two_files) Stdin) = Inr two_files" using env example_two_entries by simp
  have s: "GetString (example_settings ''file'') OptOutputConsumer = ''file''" by (simp add: example_settings_def)
  have a: "\<forall>e \<in> set two_files. downloader_ready ((\<lambda>_ _. example_surroundings) False (me_URL e)) (Buffering m q) (me_URL e)
      ((\<lambda>_. [1, 2, 3, 4, 5, 6, 7]) (me_URL e)) \<and> can_write empty_fs (me_Dest e)"
    using rd two_files_free by (auto simp: dest_free_def)
  from multifile_command_writes_files [OF r mf e m(1) s a empty_fs_plain two_files_differ] r
  show ?thesis by (fastforce simp: two_files_def)
qed

lemma cached_setup:
  "\<exists>m q m' q'. root_setup example_command_env cached_settings = Ret (Inr (FileWriter False, Hashing m q)) \<and>
     multifile_setup example_command_env cached_settings = Ret (Inr (FileWriter False, Hashing m' q'))"
proof -
  let ?opts = "downloadOpts cached_settings 3 (clientOpts cached_settings None)"
  have "LookupCacheHosts (LookupSRV example_command_env) ''cache'' = Ret (Inr [''c-0.x'', ''c-1.x''])"
    unfolding LookupCacheHosts_def example_command_env_def by simp code_simp
  moreover have "GetCacheSRV (ParseIP example_command_env) (CIDRContains example_command_env) cached_settings = ''cache''"
    by (simp add: GetCacheSRV_def cached_settings_def example_settings_def)
  ultimately have h: "\<exists>m q. choose_downloader example_command_env p cached_settings ?opts = Ret (Inr (Hashing m q))" for p
    by (simp add: choose_downloader_def GetConsistentHashingMode_def start_queue_def newWorkQueue_def wq_start_def
        ch_chunkSize_def downloadOpts_def wrap64_def Let_def)
  have b: "ParseBytes example_command_env s = Inr 3" for s by (simp add: example_command_env_def)
  have o: "ResolveOverridesToMap isIP (GetStringSlice cached_settings OptResolve) = Inr None" for isIP
    by (simp add: ResolveOverridesToMap_def cached_settings_def example_settings_def)
  have c: "GetConsumer cached_settings = Inr (FileWriter False)"
    by (simp add: GetConsumer_def cached_settings_def example_settings_def)
  obtain m q where m: "choose_downloader example_command_env (GetBool cached_settings OptCacheUsePathProxy) cached_settings
      ?opts = Ret (Inr (Hashing m q))" using h by blast
  obtain m' q' where m': "choose_downloader example_command_env False cached_settings ?opts = Ret (Inr (Hashing m' q'))"
    using h by blast
  show ?thesis unfolding root_setup_def multifile_setup_def b o c using m m' by simp
qed

theorem hashing_setup_bounds_witness:
  "\<exists>m q. root_setup example_command_env cached_settings = Ret (Inr (FileWriter False, Hashing m q)) \<and>
     concurrency q = 16 \<and> bufSize q = 3"
proof -
  obtain m q where m: "root_setup example_command_env cached_settings = Ret (Inr (FileWriter False, Hashing m q))"
    using cached_setup by blast
  then have "Ret (Inr (FileWriter False, Hashing m q)) \<in>
      {root_setup example_command_env cached_settings, multifile_setup example_command_env cached_settings}" by simp
  from hashing_setup_bounds [OF this, of 3] m show ?thesis
    by (auto simp: example_command_env_def cached_settings_def example_settings_def wrap64_def option_workers_def)
qed

theorem multifile_ignores_path_proxy_witness:
  "\<exists>m q m' q'. multifile_setup example_command_env cached_settings = Ret (Inr (FileWriter False, Hashing m q)) \<and>
     root_setup example_command_env cached_settings = Ret (Inr (FileWriter False, Hashing m' q')) \<and>
     \<not> CacheUsePathProxy (ch_opts m) \<and> CacheUsePathProxy (ch_opts m')"
proof -
  obtain m q m' q' where m: "root_setup example_command_env cached_settings = Ret (Inr (FileWriter False, Hashing m' q'))"
    "multifile_setup example_command_env cached_settings = Ret (Inr (FileWriter False, Hashing m q))"
    using cached_setup by blast
  from multifile_ignores_path_proxy [OF m(2,1)] m show ?thesis by (auto simp: cached_settings_def)
qed

text \<open>Destinations are compared as strings: a manifest with two URLs for one place, written in two ways, is
  accepted.\<close>

definition two_aliases :: "ManifestEntry list" where
  "two_aliases = [\<lparr>me_URL = ''weights.example.com/a'', me_Dest = ''/f''\<rparr>,
     \<lparr>me_URL = ''weights.example.com/b'', me_Dest = ''/./f''\<rparr>]"

lemma aliases_accepted:
  "parseManifest example_parse (example_settings ''file'') (os_Stat empty_fs) (print_manifest two_aliases) = Inr two_aliases \<and>
   place (fs_cwd empty_fs) ''/f'' = place (fs_cwd empty_fs) ''/./f''"
proof -
  have p: "list_all printable two_aliases"
    by (simp add: two_aliases_def printable_def token_def graph_char_def print_entry_def fits_buffer_def)
  have "\<exists>e. os_Stat empty_fs ''/f'' = Some e \<and> errors_is e ErrNotExist" "\<exists>e. os_Stat empty_fs ''/./f'' = Some e \<and> errors_is e ErrNotExist"
    by (simp_all add: os_Stat_def not_exist_def stat_node_def resolve_def rooted_def slash_def comps_def walk.simps(2) node_at_def empty_fs_def)
  then have "\<forall>e \<in> set two_aliases. EnsureDestinationNotExist (example_settings ''file'') (os_Stat empty_fs) (me_Dest e) = None"
    by (auto simp: two_aliases_def EnsureDestinationNotExist_def)
  then have "manifest_loop example_parse (example_settings ''file'') (os_Stat empty_fs) (map print_entry two_aliases)
      (seen_of []) [] = Inr ([] @ two_aliases)"
    using p by (intro manifest_loop_print) (auto simp: example_parse_def example_settings_def two_aliases_def)
  moreover have "place [] ''/f'' = place [] ''/./f''" by code_simp
  ultimately show ?thesis by (simp add: parseManifest_def scan_lines_print [OF p] seen_of_def empty_fs_def)
qed

end
