(* ===== verification/Command_Flags.thy ===== *)
theory Command_Flags
  imports Commands
begin

text \<open>
  Model of how the commands and their flags are declared: the functions \<open>GetCommand\<close>,
  \<open>persistentFlags\<close> and \<open>hideAndDeprecateFlags\<close> of cmd/root/root.go, \<open>GetCommand\<close> of
  cmd/multifile/multifile.go, and \<open>HideFlags\<close>, \<open>DeprecateFlags\<close> and \<open>ViperInit\<close> of
  pkg/config/config.go. The libraries for commands, flags and configuration are parameters with
  their documented behaviour as named hypotheses. The properties say which flags a command has and
  shows, and which chunk size results from the command line and the environment.
\<close>

section \<open>Declarations of flags\<close>

datatype flag_default =
    IntFlag int64 | DurationFlag int64 | StringFlag string | BoolFlag bool | StringSliceFlag "string list"

text \<open>A flag is stored in a variable of the package if it was declared with one.\<close>

datatype package_var = Var_concurrency | Var_chunkSize

record flag_decl =
  fl_var :: "package_var option"
  fl_name :: string
  fl_short :: string
  fl_default :: flag_default
  fl_usage :: string

abbreviation flag_named :: "opt \<Rightarrow> string \<Rightarrow> flag_default \<Rightarrow> string \<Rightarrow> flag_decl" where
  "flag_named o' short v usage \<equiv>
     \<lparr>fl_var = None, fl_name = opt_name o', fl_short = short, fl_default = v, fl_usage = usage\<rparr>"

abbreviation flag_in :: "package_var \<Rightarrow> opt \<Rightarrow> string \<Rightarrow> flag_default \<Rightarrow> string \<Rightarrow> flag_decl" where
  "flag_in x o' short v usage \<equiv>
     \<lparr>fl_var = Some x, fl_name = opt_name o', fl_short = short, fl_default = v, fl_usage = usage\<rparr>"

text \<open>The flag of the root command alone, and those that its subcommands inherit.\<close>

definition root_local_flags :: "flag_decl list" where
  "root_local_flags = [flag_named OptExtract ''x'' (BoolFlag False) ''Extract archive after download'']"

definition root_persistent_flags :: "int64 \<Rightarrow> (string \<rightharpoonup> string) \<Rightarrow> string \<Rightarrow> flag_decl list" where
  "root_persistent_flags gomaxprocs getenv goos =
     [flag_in Var_concurrency OptConcurrency ''c'' (IntFlag (wrap64 (gomaxprocs * 4)))
        ''Maximum number of concurrent downloads/maximum number of chunks for a given file'',
      flag_in Var_concurrency OptMaxChunks '''' (IntFlag (wrap64 (gomaxprocs * 4)))
        ''Maximum number of chunks for a given file'',
      flag_named OptConnTimeout '''' (DurationFlag (5 * Second))
        ''Timeout for establishing a connection, format is <number><unit>, e.g. 10s'',
      flag_in Var_chunkSize OptChunkSize ''m'' (StringFlag chunkSizeDefault)
        ''Chunk size (in bytes) to use when downloading a file (e.g. 10M)'',
      flag_in Var_chunkSize OptMinimumChunkSize '''' (StringFlag chunkSizeDefault)
        ''Minimum chunk size (in bytes) to use when downloading a file (e.g. 10M)'',
      flag_named OptForce ''f'' (BoolFlag False) ''Force download, overwriting existing file'',
      flag_named OptResolve '''' (StringSliceFlag []) ''Resolve hostnames to specific IPs'',
      flag_named OptRetries ''r'' (IntFlag 5) ''Number of retries when attempting to retrieve a file'',
      flag_named OptVerbose ''v'' (BoolFlag False) ''Verbose mode (equivalent to --log-level debug)'',
      flag_named OptLoggingLevel '''' (StringFlag ''info'') ''Log level (debug, info, warn, error)'',
      flag_named OptForceHTTP2 '''' (BoolFlag False) ''Force HTTP/2'',
      flag_named OptMaxConnPerHost '''' (IntFlag 40)
        ''Maximum number of (global) concurrent connections per host'',
      flag_named OptOutputConsumer ''o'' (StringFlag ''file'') ''Output Consumer (file, tar, null)'',
      flag_named OptPIDFile '''' (StringFlag (defaultPidFilePath getenv goos)) ''PID file path'']"

section \<open>The library of commands and flags\<close>

text \<open>
  What the program calls on a command under construction and on the global configuration, whose
  joint state has the type \<open>'s\<close>: a new command, declaring a flag of its own or one that subcommands
  inherit (which panics on a name or a letter in use), looking a flag up, marking one that is in
  \<open>Flags()\<close> or in \<open>PersistentFlags()\<close>, and handing these sets of flags to the configuration.
\<close>

record 's flag_library =
  NewCommand :: 's
  AddFlag :: "flag_decl \<Rightarrow> 's \<Rightarrow> 's outcome"
  AddPersistentFlag :: "flag_decl \<Rightarrow> 's \<Rightarrow> 's outcome"
  Flag :: "string \<Rightarrow> 's \<Rightarrow> bool"
  MarkHidden :: "string \<Rightarrow> 's \<Rightarrow> go_error option \<times> 's"
  PersistentMarkHidden :: "string \<Rightarrow> 's \<Rightarrow> go_error option \<times> 's"
  MarkDeprecated :: "string \<Rightarrow> string \<Rightarrow> 's \<Rightarrow> go_error option \<times> 's"
  PersistentMarkDeprecated :: "string \<Rightarrow> string \<Rightarrow> 's \<Rightarrow> go_error option \<times> 's"
  BindPFlags :: "'s \<Rightarrow> go_error option \<times> 's"
  BindPersistentPFlags :: "'s \<Rightarrow> go_error option \<times> 's"

fun HideFlags :: "'s flag_library \<Rightarrow> string list \<Rightarrow> 's \<Rightarrow> go_error option \<times> 's" where
  "HideFlags lib [] s = (None, s)"
| "HideFlags lib (flag # flags) s =
     (if \<not> Flag lib flag s then (Some (Errorf (''flag '' @ flag @ '' does not exist'')), s)
      else case MarkHidden lib flag s of
             (None, s') \<Rightarrow> HideFlags lib flags s'
           | (Some err, s') \<Rightarrow> HideFlags lib flags (snd (PersistentMarkHidden lib flag s')))"

record DeprecatedFlag =
  df_Flag :: string
  df_Msg :: string

fun DeprecateFlags :: "'s flag_library \<Rightarrow> DeprecatedFlag list \<Rightarrow> 's \<Rightarrow> go_error option \<times> 's" where
  "DeprecateFlags lib [] s = (None, s)"
| "DeprecateFlags lib (d # deprecations) s =
     (if \<not> Flag lib (df_Flag d) s then (Some (Errorf (''flag '' @ df_Flag d @ '' does not exist'')), s)
      else case MarkDeprecated lib (df_Flag d) (df_Msg d) s of
             (None, s') \<Rightarrow> DeprecateFlags lib deprecations s'
           | (Some _, s') \<Rightarrow>
               (case PersistentMarkDeprecated lib (df_Flag d) (df_Msg d) s' of
                  (None, s'') \<Rightarrow> DeprecateFlags lib deprecations s''
                | (Some err, s'') \<Rightarrow> (Some (Wrapf ''failed to mark flag as deprecated'' err), s'')))"

definition hidden_flags :: "string list" where
  "hidden_flags = map opt_name [OptForceHTTP2, OptMaxConnPerHost, OptOutputConsumer]"

definition deprecated_flags :: "DeprecatedFlag list" where
  "deprecated_flags =
     [\<lparr>df_Flag = opt_name OptMaxChunks, df_Msg = ''use --'' @ opt_name OptConcurrency @ '' instead''\<rparr>,
      \<lparr>df_Flag = opt_name OptMinimumChunkSize, df_Msg = ''use --'' @ opt_name OptChunkSize @ '' instead''\<rparr>]"

definition hideAndDeprecateFlags :: "'s flag_library \<Rightarrow> 's \<Rightarrow> go_error option \<times> 's" where
  "hideAndDeprecateFlags lib s =
     (case HideFlags lib hidden_flags s of
        (Some err, s') \<Rightarrow> (Some err, s')
      | (None, s') \<Rightarrow> DeprecateFlags lib deprecated_flags s')"

fun add_flags :: "(flag_decl \<Rightarrow> 's \<Rightarrow> 's outcome) \<Rightarrow> flag_decl list \<Rightarrow> 's \<Rightarrow> 's outcome" where
  "add_flags add [] s = Ret s"
| "add_flags add (d # ds) s = (case add d s of Panic msg \<Rightarrow> Panic msg | Ret s' \<Rightarrow> add_flags add ds s')"

definition persistentFlags ::
  "'s flag_library \<Rightarrow> int64 \<Rightarrow> (string \<rightharpoonup> string) \<Rightarrow> string \<Rightarrow> 's \<Rightarrow> (go_error option \<times> 's) outcome" where
  "persistentFlags lib gomaxprocs getenv goos s =
     (case add_flags (AddPersistentFlag lib) (root_persistent_flags gomaxprocs getenv goos) s of
        Panic msg \<Rightarrow> Panic msg
      | Ret s' \<Rightarrow> Ret (hideAndDeprecateFlags lib s'))"

text \<open>
  How the configuration finds the environment variable of an option. \<open>strings.NewReplacer\<close> with one
  pair of characters replaces each occurrence of the first.
\<close>

record viper_env =
  env_prefix :: string
  env_key_replacer :: "string \<Rightarrow> string"
  automatic_env :: bool

definition viperEnvPrefix :: string where
  "viperEnvPrefix = ''RPGET''"

definition ViperInit :: viper_env where
  "ViperInit = \<lparr>env_prefix = viperEnvPrefix, env_key_replacer = map (\<lambda>c. if c = CHR ''-'' then CHR ''_'' else c),
     automatic_env = True\<rparr>"

text \<open>
  The root command. An error, \<open>Inl\<close>, is printed and ends the process with status 1. The texts of
  the command and the template of its usage message are left out.
\<close>

definition root_GetCommand ::
  "'s flag_library \<Rightarrow> int64 \<Rightarrow> (string \<rightharpoonup> string) \<Rightarrow> string \<Rightarrow> (go_error + 's \<times> viper_env) outcome" where
  "root_GetCommand lib gomaxprocs getenv goos =
     (case add_flags (AddFlag lib) root_local_flags (NewCommand lib) of
        Panic msg \<Rightarrow> Panic msg
      | Ret s \<Rightarrow>
          (case persistentFlags lib gomaxprocs getenv goos s of
             Panic msg \<Rightarrow> Panic msg
           | Ret (Some err, s1) \<Rightarrow> Ret (Inl err)
           | Ret (None, s1) \<Rightarrow>
               (case BindPersistentPFlags lib s1 of
                  (Some err, s2) \<Rightarrow> Ret (Inl err)
                | (None, s2) \<Rightarrow>
                    (case BindPFlags lib s2 of
                       (Some err, s3) \<Rightarrow> Ret (Inl err)
                     | (None, s3) \<Rightarrow> Ret (Inr (s3, ViperInit))))))"

text \<open>The command for manifests has no flags of its own.\<close>

definition multifile_GetCommand :: "'s flag_library \<Rightarrow> go_error + 's" where
  "multifile_GetCommand lib =
     (case BindPersistentPFlags lib (NewCommand lib) of (Some err, s) \<Rightarrow> Inl err | (None, s) \<Rightarrow> Inr s)"

section \<open>What the library promises\<close>

text \<open>
  What is known of a flag that a command can use: a command finds its own flags, those that it
  declared for itself and its subcommands, and those of its parents.
\<close>

datatype flag_scope = Own | Persistent | Inherited

record flag_info =
  fi_decl :: flag_decl
  fi_scope :: flag_scope
  fi_hidden :: bool
  fi_deprecated :: string

type_synonym flag_view = "string \<rightharpoonup> flag_info"

definition hide :: "flag_info \<Rightarrow> flag_info" where
  "hide f = f\<lparr>fi_hidden := True\<rparr>"

definition deprecate :: "string \<Rightarrow> flag_info \<Rightarrow> flag_info" where
  "deprecate msg f = f\<lparr>fi_hidden := True, fi_deprecated := msg\<rparr>"

definition new_flag :: "flag_scope \<Rightarrow> flag_decl \<Rightarrow> flag_info" where
  "new_flag sc d = \<lparr>fi_decl = d, fi_scope = sc, fi_hidden = False, fi_deprecated = ''''\<rparr>"

lemma flag_updates [simp]:
  "fi_scope (hide f) = fi_scope f" "fi_scope (deprecate m f) = fi_scope f" "fi_scope (new_flag sc d) = sc"
  "fi_hidden (hide f)" "fi_hidden (deprecate m f)" "\<not> fi_hidden (new_flag sc d)"
  "fi_decl (hide f) = fi_decl f" "fi_decl (deprecate m f) = fi_decl f" "fi_decl (new_flag sc d) = d"
  "fi_deprecated (hide f) = fi_deprecated f" "fi_deprecated (deprecate m f) = m" "fi_deprecated (new_flag sc d) = ''''"
  by (simp_all add: hide_def deprecate_def new_flag_def)

text \<open>Marking a flag of a set: the flag must be in that set, otherwise there is an error.\<close>

definition marks ::
  "('s \<Rightarrow> flag_view) \<Rightarrow> flag_scope \<Rightarrow> (flag_info \<Rightarrow> flag_info) \<Rightarrow> string \<Rightarrow> ('s \<Rightarrow> go_error option \<times> 's) \<Rightarrow> bool" where
  "marks view sc upd n mark \<longleftrightarrow>
     (\<forall>s. (\<forall>f. view s n = Some f \<and> fi_scope f = sc \<longrightarrow>
             (\<exists>s'. mark s = (None, s') \<and> view s' = (view s)(n \<mapsto> upd f))) \<and>
          ((\<forall>f. view s n = Some f \<longrightarrow> fi_scope f \<noteq> sc) \<longrightarrow> (\<exists>e. mark s = (Some e, s))))"

text \<open>Declaring a flag whose name and letter are not in use.\<close>

definition adds :: "('s \<Rightarrow> flag_view) \<Rightarrow> flag_scope \<Rightarrow> (flag_decl \<Rightarrow> 's \<Rightarrow> 's outcome) \<Rightarrow> bool" where
  "adds view sc add \<longleftrightarrow>
     (\<forall>d s. view s (fl_name d) = None \<and> (fl_short d \<noteq> '''' \<longrightarrow> (\<forall>f \<in> ran (view s). fl_short (fi_decl f) \<noteq> fl_short d)) \<longrightarrow>
        (\<exists>s'. add d s = Ret s' \<and> view s' = (view s)(fl_name d \<mapsto> new_flag sc d)))"

definition flag_laws :: "'s flag_library \<Rightarrow> ('s \<Rightarrow> flag_view) \<Rightarrow> bool" where
  "flag_laws lib view \<longleftrightarrow>
     view (NewCommand lib) = Map.empty \<and> (\<forall>n s. Flag lib n s \<longleftrightarrow> view s n \<noteq> None) \<and>
     adds view Own (AddFlag lib) \<and> adds view Persistent (AddPersistentFlag lib) \<and>
     (\<forall>n. marks view Own hide n (MarkHidden lib n) \<and> marks view Persistent hide n (PersistentMarkHidden lib n)) \<and>
     (\<forall>n m. m \<noteq> '''' \<longrightarrow> marks view Own (deprecate m) n (MarkDeprecated lib n m) \<and>
        marks view Persistent (deprecate m) n (PersistentMarkDeprecated lib n m)) \<and>
     (\<forall>s. \<exists>s'. BindPFlags lib s = (None, s') \<and> view s' = view s) \<and>
     (\<forall>s. \<exists>s'. BindPersistentPFlags lib s = (None, s') \<and> view s' = view s)"

lemma marks_hit:
  "marks view sc upd n mark \<Longrightarrow> view s n = Some f \<Longrightarrow> fi_scope f = sc \<Longrightarrow>
     \<exists>s'. mark s = (None, s') \<and> view s' = (view s)(n \<mapsto> upd f)"
  unfolding marks_def by blast

lemma marks_miss:
  "marks view sc upd n mark \<Longrightarrow> view s n = Some f \<Longrightarrow> fi_scope f \<noteq> sc \<Longrightarrow> \<exists>e. mark s = (Some e, s)"
  unfolding marks_def by (metis option.inject)

section \<open>Hiding and deprecating\<close>

text \<open>A flag of a parent is found, but it is in neither of the two sets, so it stays as it is.\<close>

definition hide_own :: "flag_info \<Rightarrow> flag_info" where
  "hide_own f = (if fi_scope f = Inherited then f else hide f)"

definition hide_all :: "string list \<Rightarrow> flag_view \<Rightarrow> flag_view" where
  "hide_all ns v n = (if n \<in> set ns then map_option hide_own (v n) else v n)"

lemma hide_idem [simp]: "hide_own (hide_own f) = hide_own f"
  by (simp add: hide_own_def hide_def)

lemma hide_all_Cons: "v n = Some f \<Longrightarrow> hide_all ns (v(n \<mapsto> hide_own f)) = hide_all (n # ns) v"
  by (auto simp: hide_all_def fun_eq_iff)

lemma HideFlags_step:
  assumes "flag_laws lib view" "view s n = Some f"
  shows "\<exists>s'. HideFlags lib (n # ns) s = HideFlags lib ns s' \<and> view s' = (view s)(n \<mapsto> hide_own f)"
proof -
  have laws: "Flag lib n s" "marks view Own hide n (MarkHidden lib n)"
    "marks view Persistent hide n (PersistentMarkHidden lib n)"
    using assms by (simp_all add: flag_laws_def)
  show ?thesis
  proof (cases "fi_scope f")
    case Own
    then show ?thesis using laws(1) marks_hit [OF laws(2) assms(2)] by (auto simp: hide_own_def)
  next
    case Persistent
    then show ?thesis using laws(1) marks_miss [OF laws(2) assms(2)] marks_hit [OF laws(3) assms(2)]
      by (auto simp: hide_own_def)
  next
    case Inherited
    then have "HideFlags lib (n # ns) s = HideFlags lib ns s"
      using laws(1) marks_miss [OF laws(2) assms(2)] marks_miss [OF laws(3) assms(2)] by auto
    then show ?thesis using Inherited assms(2) by (intro exI [of _ s]) (simp add: hide_own_def map_upd_triv)
  qed
qed

lemma HideFlags_view:
  assumes "flag_laws lib view"
  shows "fst (HideFlags lib ns s) = map_option (\<lambda>n. Errorf (''flag '' @ n @ '' does not exist''))
       (find (\<lambda>n. view s n = None) ns) \<and>
     view (snd (HideFlags lib ns s)) = hide_all (takeWhile (\<lambda>n. view s n \<noteq> None) ns) (view s)"
proof (induction ns arbitrary: s)
  case Nil
  then show ?case by (simp add: hide_all_def fun_eq_iff)
next
  case (Cons n ns)
  show ?case
  proof (cases "view s n")
    case None
    then show ?thesis using assms by (simp add: flag_laws_def hide_all_def fun_eq_iff)
  next
    case (Some f)
    obtain s' where s': "HideFlags lib (n # ns) s = HideFlags lib ns s'" "view s' = (view s)(n \<mapsto> hide_own f)"
      using HideFlags_step [OF assms Some] by blast
    have dom: "view s' m = None \<longleftrightarrow> view s m = None" for m using s'(2) Some by simp
    have "hide_all ns (view s') = hide_all (n # ns) (view s)" for ns
      unfolding s'(2) by (rule hide_all_Cons) (rule Some)
    then show ?thesis using Cons.IH [of s'] unfolding dom s'(1) by (simp add: Some)
  qed
qed

definition deprecate_all :: "DeprecatedFlag list \<Rightarrow> flag_view \<Rightarrow> flag_view" where
  "deprecate_all ds v n =
     (case find (\<lambda>d. df_Flag d = n) ds of None \<Rightarrow> v n | Some d \<Rightarrow> map_option (deprecate (df_Msg d)) (v n))"

lemma DeprecateFlags_step:
  assumes "flag_laws lib view" "view s (df_Flag d) = Some f" "fi_scope f \<noteq> Inherited" "df_Msg d \<noteq> ''''"
  shows "\<exists>s'. DeprecateFlags lib (d # ds) s = DeprecateFlags lib ds s' \<and>
     view s' = (view s)(df_Flag d \<mapsto> deprecate (df_Msg d) f)"
proof -
  have laws: "Flag lib (df_Flag d) s" "marks view Own (deprecate (df_Msg d)) (df_Flag d) (MarkDeprecated lib (df_Flag d) (df_Msg d))"
    "marks view Persistent (deprecate (df_Msg d)) (df_Flag d) (PersistentMarkDeprecated lib (df_Flag d) (df_Msg d))"
    using assms by (simp_all add: flag_laws_def)
  show ?thesis
  proof (cases "fi_scope f = Own")
    case True
    then show ?thesis using laws(1) marks_hit [OF laws(2) assms(2)] by auto
  next
    case False
    then have "fi_scope f = Persistent" using assms(3) by (cases "fi_scope f") auto
    then show ?thesis
      using False laws(1) marks_miss [OF laws(2) assms(2)] marks_hit [OF laws(3) assms(2)] by auto
  qed
qed

lemma DeprecateFlags_view:
  assumes "flag_laws lib view" "distinct (map df_Flag ds)"
    and "\<forall>d \<in> set ds. df_Msg d \<noteq> '''' \<and> (\<exists>f. view s (df_Flag d) = Some f \<and> fi_scope f \<noteq> Inherited)"
  shows "fst (DeprecateFlags lib ds s) = None \<and> view (snd (DeprecateFlags lib ds s)) = deprecate_all ds (view s)"
  using assms(2,3)
proof (induction ds arbitrary: s)
  case Nil
  then show ?case by (simp add: deprecate_all_def fun_eq_iff)
next
  case (Cons d ds)
  obtain f where f: "view s (df_Flag d) = Some f" "fi_scope f \<noteq> Inherited" "df_Msg d \<noteq> ''''"
    using Cons.prems by auto
  obtain s' where s': "DeprecateFlags lib (d # ds) s = DeprecateFlags lib ds s'"
    "view s' = (view s)(df_Flag d \<mapsto> deprecate (df_Msg d) f)"
    using DeprecateFlags_step [OF assms(1) f] by blast
  have "\<forall>e \<in> set ds. df_Flag e \<noteq> df_Flag d" using Cons.prems(1) by (metis distinct.simps(2) image_eqI list.set_map list.simps(9))
  then have "\<forall>e \<in> set ds. df_Msg e \<noteq> '''' \<and> (\<exists>f. view s' (df_Flag e) = Some f \<and> fi_scope f \<noteq> Inherited)"
    using Cons.prems s'(2) by auto
  then have ih: "fst (DeprecateFlags lib ds s') = None \<and> view (snd (DeprecateFlags lib ds s')) = deprecate_all ds (view s')"
    using Cons by simp
  have "find (\<lambda>e. df_Flag e = df_Flag d) ds = None"
    using \<open>\<forall>e \<in> set ds. df_Flag e \<noteq> df_Flag d\<close> by (auto simp: find_None_iff)
  then have "deprecate_all ds (view s') = deprecate_all (d # ds) (view s)"
    using s'(2) f(1) by (auto simp: deprecate_all_def fun_eq_iff split: option.splits)
  then show ?case using s'(1) ih by (simp del: DeprecateFlags.simps)
qed

section \<open>The root command\<close>

text \<open>The settings without command line and environment are the defaults of the declarations.\<close>

fun has_default :: "settings \<Rightarrow> opt \<Rightarrow> flag_default \<Rightarrow> bool" where
  "has_default cfg o' (IntFlag n) \<longleftrightarrow> GetInt cfg o' = n"
| "has_default cfg o' (DurationFlag t) \<longleftrightarrow> GetDuration cfg o' = t"
| "has_default cfg o' (StringFlag v) \<longleftrightarrow> GetString cfg o' = v"
| "has_default cfg o' (BoolFlag b) \<longleftrightarrow> GetBool cfg o' = b"
| "has_default cfg o' (StringSliceFlag vs) \<longleftrightarrow> GetStringSlice cfg o' = vs"

lemma default_settings_declared:
  assumes "d \<in> set (root_local_flags @ root_persistent_flags p getenv goos)" "fl_name d = opt_name o'"
  shows "has_default (default_settings p getenv goos) o' (fl_default d)"
proof -
  have "\<forall>d \<in> set (root_local_flags @ root_persistent_flags p getenv goos).
      fl_name d = opt_name o' \<longrightarrow> has_default (default_settings p getenv goos) o' (fl_default d)"
    by (simp add: root_local_flags_def root_persistent_flags_def default_settings_def option_names_distinct del: opt_name.simps)
  with assms show ?thesis by blast
qed

definition declared :: "flag_scope \<Rightarrow> flag_decl list \<Rightarrow> flag_view" where
  "declared sc ds n = map_option (new_flag sc) (find (\<lambda>d. fl_name d = n) ds)"

lemma declared_simps [simp]:
  "declared sc [] = Map.empty"
  "declared sc (d # ds) = (declared sc ds)(fl_name d \<mapsto> new_flag sc d)"
  by (simp_all add: declared_def fun_eq_iff)

text \<open>Flags with new and different names and letters are all declared.\<close>

definition fresh_flags :: "flag_view \<Rightarrow> flag_decl list \<Rightarrow> bool" where
  "fresh_flags v ds \<longleftrightarrow> distinct (map fl_name ds) \<and> distinct (filter (\<lambda>x. x \<noteq> '''') (map fl_short ds)) \<and>
     (\<forall>d \<in> set ds. v (fl_name d) = None \<and> (fl_short d \<noteq> '''' \<longrightarrow> (\<forall>f \<in> ran v. fl_short (fi_decl f) \<noteq> fl_short d)))"

lemma add_flags_view:
  assumes "adds view sc add" "fresh_flags (view s) ds"
  shows "\<exists>s'. add_flags add ds s = Ret s' \<and> view s' = view s ++ declared sc ds"
  using assms(2)
proof (induction ds arbitrary: s)
  case Nil
  then show ?case by simp
next
  case (Cons d ds)
  have n: "view s (fl_name d) = None" using Cons.prems by (simp add: fresh_flags_def)
  obtain s1 where s1: "add d s = Ret s1" "view s1 = (view s)(fl_name d \<mapsto> new_flag sc d)"
    using assms(1) Cons.prems unfolding adds_def fresh_flags_def by (metis list.set_intros(1))
  have d: "fl_name e \<noteq> fl_name d" "fl_short e \<noteq> '''' \<longrightarrow> fl_short e \<noteq> fl_short d" if "e \<in> set ds" for e
    using Cons.prems that by (auto simp: fresh_flags_def image_iff split: if_splits)
  have "ran (view s1) = insert (new_flag sc d) (ran (view s))" using n s1(2) by simp
  then have "fresh_flags (view s1) ds"
    using Cons.prems s1(2) d by (auto simp: fresh_flags_def split: if_splits)
  then obtain s' where "add_flags add ds s1 = Ret s'" "view s' = view s1 ++ declared sc ds"
    using Cons.IH by blast
  moreover have "declared sc ds (fl_name d) = None"
    using d(1) by (auto simp: declared_def find_None_iff)
  ultimately show ?case using s1 by (auto simp: fun_eq_iff map_add_def split: option.splits)
qed

lemma root_local_fresh: "fresh_flags Map.empty root_local_flags"
  by (simp add: fresh_flags_def root_local_flags_def)

lemma root_persistent_fresh:
  "fresh_flags (declared Own root_local_flags) (root_persistent_flags gomaxprocs getenv goos)"
  by (simp add: fresh_flags_def root_local_flags_def root_persistent_flags_def option_names_distinct del: opt_name.simps)

lemma HideFlags_all:
  assumes "flag_laws lib view" "\<forall>n \<in> set ns. view s n \<noteq> None"
  shows "\<exists>s'. HideFlags lib ns s = (None, s') \<and> view s' = hide_all ns (view s)"
proof -
  obtain e s1 where H: "HideFlags lib ns s = (e, s1)" by fastforce
  have "find (\<lambda>n. view s n = None) ns = None" "takeWhile (\<lambda>n. view s n \<noteq> None) ns = ns"
    using assms(2) by (auto simp only: find_None_iff takeWhile_eq_all_conv)
  then show ?thesis
    using HideFlags_view [OF assms(1), of ns s] by (simp only: H fst_conv snd_conv option.map) simp
qed

text \<open>Hiding, then deprecating, flags that the command itself declared for its subcommands.\<close>

lemma hideAndDeprecateFlags_view:
  assumes "flag_laws lib view"
    and "\<forall>n \<in> set (hidden_flags @ map df_Flag deprecated_flags). \<exists>f. view s n = Some f \<and> fi_scope f = Persistent"
  shows "\<exists>s'. hideAndDeprecateFlags lib s = (None, s') \<and>
     view s' = deprecate_all deprecated_flags (hide_all hidden_flags (view s))"
proof -
  have "\<forall>n \<in> set hidden_flags. view s n \<noteq> None" using assms(2) by auto
  then obtain s1 where s1: "HideFlags lib hidden_flags s = (None, s1)" "view s1 = hide_all hidden_flags (view s)"
    using HideFlags_all [OF assms(1)] by blast
  have "\<exists>f. view s1 (df_Flag d) = Some f \<and> fi_scope f \<noteq> Inherited" if "d \<in> set deprecated_flags" for d
  proof -
    have "df_Flag d \<in> set (hidden_flags @ map df_Flag deprecated_flags)" using that by simp
    then obtain f where "view s (df_Flag d) = Some f" "fi_scope f = Persistent" using assms(2) by blast
    then show ?thesis by (simp add: s1(2) hide_all_def hide_own_def)
  qed
  moreover have "distinct (map df_Flag deprecated_flags)" "\<forall>d \<in> set deprecated_flags. df_Msg d \<noteq> ''''"
    by (simp_all add: deprecated_flags_def)
  ultimately have "fst (DeprecateFlags lib deprecated_flags s1) = None \<and>
      view (snd (DeprecateFlags lib deprecated_flags s1)) = deprecate_all deprecated_flags (view s1)"
    using DeprecateFlags_view [OF assms(1), of deprecated_flags s1] by blast
  then show ?thesis
    by (cases "DeprecateFlags lib deprecated_flags s1") (simp add: hideAndDeprecateFlags_def s1)
qed

text \<open>What becomes of a newly declared flag.\<close>

lemma marked_flag:
  assumes "v n = Some (new_flag sc d)" "sc \<noteq> Inherited"
  shows "\<exists>f. deprecate_all ds (hide_all ns v) n = Some f \<and> fi_decl f = d \<and> fi_scope f = sc \<and>
     (fi_hidden f \<longleftrightarrow> n \<in> set ns \<union> df_Flag ` set ds) \<and>
     fi_deprecated f = (case find (\<lambda>x. df_Flag x = n) ds of None \<Rightarrow> '''' | Some x \<Rightarrow> df_Msg x)"
proof -
  let ?f = "if n \<in> set ns then hide (new_flag sc d) else new_flag sc d"
  have f: "hide_all ns v n = Some ?f" using assms by (simp add: hide_all_def hide_own_def)
  show ?thesis
  proof (cases "find (\<lambda>x. df_Flag x = n) ds")
    case None
    then have "n \<notin> df_Flag ` set ds" by (auto simp: find_None_iff)
    then show ?thesis using f None by (simp add: deprecate_all_def)
  next
    case (Some x)
    then have "n \<in> df_Flag ` set ds" by (auto simp: find_Some_iff)
    then show ?thesis using f Some by (simp add: deprecate_all_def)
  qed
qed

lemma deprecate_hide_dom: "dom (deprecate_all ds (hide_all ns v)) = dom v"
  by (auto simp: dom_def deprecate_all_def hide_all_def split: option.splits if_splits)

lemma declared_hit: "distinct (map fl_name ds) \<Longrightarrow> d \<in> set ds \<Longrightarrow> declared sc ds (fl_name d) = Some (new_flag sc d)"
  by (induction ds) (auto simp: image_iff)

lemma declared_miss: "n \<notin> fl_name ` set ds \<Longrightarrow> declared sc ds n = None"
  by (induction ds) auto

lemma declared_dom: "dom (declared sc ds) = fl_name ` set ds"
proof -
  have "declared sc ds n \<noteq> None \<longleftrightarrow> n \<in> fl_name ` set ds" for n
    by (subst declared_def) (auto simp: find_None_iff)
  then show ?thesis unfolding dom_def by (simp only:) simp
qed

definition root_view :: "int64 \<Rightarrow> (string \<rightharpoonup> string) \<Rightarrow> string \<Rightarrow> flag_view" where
  "root_view gomaxprocs getenv goos =
     declared Own root_local_flags ++ declared Persistent (root_persistent_flags gomaxprocs getenv goos)"

lemma root_view_persistent:
  "d \<in> set (root_persistent_flags p getenv goos) \<Longrightarrow> root_view p getenv goos (fl_name d) = Some (new_flag Persistent d)"
  using root_persistent_fresh [of p getenv goos] by (auto simp: root_view_def fresh_flags_def declared_hit)

lemma root_view_own:
  assumes "d \<in> set root_local_flags"
  shows "root_view p getenv goos (fl_name d) = Some (new_flag Own d)"
proof -
  have own: "declared Own root_local_flags (fl_name d) = Some (new_flag Own d)"
    using assms root_local_fresh by (simp add: fresh_flags_def declared_hit)
  then have "fl_name d \<notin> fl_name ` set (root_persistent_flags p getenv goos)"
    using root_persistent_fresh [of p getenv goos] by (force simp: fresh_flags_def)
  with own show ?thesis by (auto simp: root_view_def map_add_def declared_miss)
qed

lemma marked_are_persistent:
  "n \<in> set (hidden_flags @ map df_Flag deprecated_flags) \<Longrightarrow>
     n \<in> fl_name ` set (root_persistent_flags p getenv goos)"
  by (auto simp: hidden_flags_def deprecated_flags_def root_persistent_flags_def simp del: opt_name.simps)

lemma root_GetCommand_view:
  assumes "flag_laws lib view"
  shows "\<exists>s. root_GetCommand lib p getenv goos = Ret (Inr (s, ViperInit)) \<and>
     view s = deprecate_all deprecated_flags (hide_all hidden_flags (root_view p getenv goos))"
proof -
  have laws: "view (NewCommand lib) = Map.empty" "adds view Own (AddFlag lib)" "adds view Persistent (AddPersistentFlag lib)"
    using assms by (simp_all add: flag_laws_def)
  obtain s1 where s1: "add_flags (AddFlag lib) root_local_flags (NewCommand lib) = Ret s1"
    "view s1 = declared Own root_local_flags"
    using add_flags_view [OF laws(2), of "NewCommand lib" root_local_flags] root_local_fresh by (auto simp: laws(1))
  obtain s2 where s2: "add_flags (AddPersistentFlag lib) (root_persistent_flags p getenv goos) s1 = Ret s2"
    "view s2 = root_view p getenv goos"
    using add_flags_view [OF laws(3), of s1 "root_persistent_flags p getenv goos"] root_persistent_fresh s1(2)
    by (auto simp: root_view_def)
  have "\<forall>n \<in> set (hidden_flags @ map df_Flag deprecated_flags). \<exists>f. view s2 n = Some f \<and> fi_scope f = Persistent"
    using marked_are_persistent [of _ p getenv goos] root_view_persistent [of _ p getenv goos] s2(2) by fastforce
  then obtain s3 where s3: "hideAndDeprecateFlags lib s2 = (None, s3)"
    "view s3 = deprecate_all deprecated_flags (hide_all hidden_flags (view s2))"
    using hideAndDeprecateFlags_view [OF assms] by blast
  obtain s4 where s4: "BindPersistentPFlags lib s3 = (None, s4)" "view s4 = view s3"
    using assms unfolding flag_laws_def by blast
  obtain s5 where s5: "BindPFlags lib s4 = (None, s5)" "view s5 = view s4"
    using assms unfolding flag_laws_def by blast
  show ?thesis using s1 s2 s3 s4 s5 by (simp add: root_GetCommand_def persistentFlags_def)
qed

section \<open>The value of an option\<close>

text \<open>\<open>strings.ToUpper\<close> on ASCII text.\<close>

definition ToUpper :: "string \<Rightarrow> string" where
  "ToUpper = map (\<lambda>c. if is_lower c then char_of (of_char c - (32::int)) else c)"

text \<open>
  Where the configuration finds a value: it was set by the program, there is a flag with that name
  (given on the command line or not, with the current content of its variable), or the environment
  has it.
\<close>

record value_sources =
  vs_set :: "string \<rightharpoonup> string"
  vs_flags :: "string \<rightharpoonup> bool \<times> string"
  vs_environ :: "string \<rightharpoonup> string"

definition env_var :: "viper_env \<Rightarrow> string \<Rightarrow> string" where
  "env_var conf key = ToUpper (env_prefix conf @ ''_'' @ env_key_replacer conf key)"

text \<open>An environment variable that is empty counts as not set.\<close>

definition from_env :: "viper_env \<Rightarrow> value_sources \<Rightarrow> string \<Rightarrow> string option" where
  "from_env conf src key =
     (case vs_environ src (env_var conf key) of None \<Rightarrow> None | Some v \<Rightarrow> if v = '''' then None else Some v)"

text \<open>
  The documented order of the sources: a value that was set, a flag that was given, the
  environment, and the value of a flag that was not given.
\<close>

definition viper_order :: "(viper_env \<Rightarrow> value_sources \<Rightarrow> string \<Rightarrow> string) \<Rightarrow> bool" where
  "viper_order get \<longleftrightarrow>
     (\<forall>conf src key. automatic_env conf \<longrightarrow>
        (\<forall>v. vs_set src key = Some v \<longrightarrow> get conf src key = v) \<and>
        (vs_set src key = None \<longrightarrow>
           (\<forall>v. vs_flags src key = Some (True, v) \<longrightarrow> get conf src key = v) \<and>
           (\<forall>v. vs_flags src key = Some (False, v) \<longrightarrow>
              get conf src key = (case from_env conf src key of None \<Rightarrow> v | Some e \<Rightarrow> e))))"

text \<open>
  The command line as the flags with their values, in order. Flags that were declared with the same
  variable overwrite each other: the variable holds what was given last, to whichever of them.
\<close>

definition same_store :: "flag_decl list \<Rightarrow> flag_decl \<Rightarrow> string \<Rightarrow> bool" where
  "same_store ds d n \<longleftrightarrow>
     n = fl_name d \<or> (\<exists>e \<in> set ds. fl_name e = n \<and> fl_var d \<noteq> None \<and> fl_var e = fl_var d)"

definition given_value :: "flag_decl list \<Rightarrow> (string \<times> string) list \<Rightarrow> flag_decl \<Rightarrow> string option" where
  "given_value ds given d = map_option snd (find (\<lambda>(n, v). same_store ds d n) (rev given))"

definition flags_parsed :: "flag_decl list \<Rightarrow> (string \<times> string) list \<Rightarrow> value_sources \<Rightarrow> bool" where
  "flags_parsed ds given src \<longleftrightarrow>
     (\<forall>d \<in> set ds. \<forall>v. fl_default d = StringFlag v \<longrightarrow>
        vs_flags src (fl_name d) =
          Some (fl_name d \<in> fst ` set given, case given_value ds given d of None \<Rightarrow> v | Some w \<Rightarrow> w))"

text \<open>\<open>Changed\<close> on the flags that a command declared itself for its subcommands.\<close>

definition own_changed :: "flag_decl list \<Rightarrow> (string \<times> string) list \<Rightarrow> opt \<Rightarrow> bool" where
  "own_changed ds given o' \<longleftrightarrow> opt_name o' \<in> fl_name ` set ds \<and> opt_name o' \<in> fst ` set given"

section \<open>The chunk size\<close>

definition last_given :: "opt list \<Rightarrow> (string \<times> string) list \<Rightarrow> string option" where
  "last_given os given = map_option snd (find (\<lambda>(n, v). n \<in> opt_name ` set os) (rev given))"

text \<open>The rules in the comment of \<open>rootPersistentPreRunEFunc\<close>, when at most one of the flags is given.\<close>

definition documented_chunk_size :: "(string \<times> string) list \<Rightarrow> value_sources \<Rightarrow> string" where
  "documented_chunk_size given src =
     (case last_given [OptChunkSize] given of
        Some v \<Rightarrow> v
      | None \<Rightarrow> (case last_given [OptMinimumChunkSize] given of
          Some v \<Rightarrow> v
        | None \<Rightarrow> (case from_env ViperInit src (opt_name OptChunkSize) of
            Some v \<Rightarrow> v
          | None \<Rightarrow> (case from_env ViperInit src (opt_name OptMinimumChunkSize) of
              Some v \<Rightarrow> v
            | None \<Rightarrow> chunkSizeDefault))))"

text \<open>
  When the code departs from them: the default is asked for by name while the environment has
  another value for the deprecated option, or the deprecated flag is given while the environment
  has another value for the option.
\<close>

definition chunk_size_conflict :: "(string \<times> string) list \<Rightarrow> value_sources \<Rightarrow> bool" where
  "chunk_size_conflict given src \<longleftrightarrow>
     (let envC = from_env ViperInit src (opt_name OptChunkSize);
          envM = from_env ViperInit src (opt_name OptMinimumChunkSize)
      in (case last_given [OptMinimumChunkSize] given of
            Some v \<Rightarrow> envC \<notin> {None, Some chunkSizeDefault, Some v}
          | None \<Rightarrow> envM \<notin> {None, Some chunkSizeDefault} \<and>
              (case last_given [OptChunkSize] given of Some v \<Rightarrow> Some v | None \<Rightarrow> envC) = Some chunkSizeDefault))"

lemma last_given_None: "last_given os given = None \<longleftrightarrow> (\<forall>o' \<in> set os. opt_name o' \<notin> fst ` set given)"
proof -
  have "last_given os given = None \<longleftrightarrow> (\<forall>x \<in> set given. fst x \<notin> opt_name ` set os)"
    by (auto simp only: last_given_def find_None_iff set_rev option.map_disc_iff split_beta)
  also have "\<dots> \<longleftrightarrow> (\<forall>o' \<in> set os. opt_name o' \<notin> fst ` set given)" by (simp only: image_iff) metis
  finally show ?thesis .
qed

lemma find_conv: "(\<And>x. x \<in> set xs \<Longrightarrow> P x = Q x) \<Longrightarrow> find P xs = find Q xs"
  by (induction xs) auto

lemma last_given_other:
  "opt_name b \<notin> fst ` set given \<Longrightarrow> last_given [a, b] given = last_given [a] given"
  "opt_name a \<notin> fst ` set given \<Longrightarrow> last_given [a, b] given = last_given [b] given"
  unfolding last_given_def
  by (rule arg_cong [where f = "map_option snd"], rule find_conv, force)+

text \<open>The flag for one of two options that share a variable, when the other flag is not given.\<close>

lemma last_given_one:
  assumes "opt_name a \<in> fst ` set given" "opt_name b \<notin> fst ` set given"
  shows "\<exists>v. last_given [a] given = Some v \<and> last_given [b] given = None \<and>
     last_given [a, b] given = Some v \<and> last_given [b, a] given = Some v"
proof -
  have "last_given [a] given \<noteq> None" "last_given [b] given = None" using assms by (simp_all add: last_given_None)
  then show ?thesis using last_given_other(1) [OF assms(2)] last_given_other(2) [OF assms(2)] by auto
qed

lemma given_cases:
  assumes "\<not> (opt_name a \<in> fst ` set given \<and> opt_name b \<in> fst ` set given)"
  obtains v where "opt_name a \<in> fst ` set given" "opt_name b \<notin> fst ` set given"
      "last_given [a] given = Some v" "last_given [b] given = None" "last_given [a, b] given = Some v"
    | v where "opt_name a \<notin> fst ` set given" "opt_name b \<in> fst ` set given"
      "last_given [a] given = None" "last_given [b] given = Some v" "last_given [a, b] given = Some v"
    | "opt_name a \<notin> fst ` set given" "opt_name b \<notin> fst ` set given"
      "last_given [a] given = None" "last_given [b] given = None" "last_given [a, b] given = None"
proof (cases "opt_name a \<in> fst ` set given \<or> opt_name b \<in> fst ` set given")
  case True
  then show thesis using assms last_given_one [of a given b] last_given_one [of b given a] that(1,2) by metis
next
  case False
  then show thesis by (intro that(3)) (simp_all add: last_given_None)
qed

lemma chunk_var:
  assumes "d \<in> set (root_persistent_flags p getenv goos)"
  shows "(fl_var d = Some Var_chunkSize \<longleftrightarrow> fl_name d \<in> opt_name ` set [OptChunkSize, OptMinimumChunkSize]) \<and>
     (fl_var d = Some Var_chunkSize \<longrightarrow> fl_default d = StringFlag chunkSizeDefault)"
proof -
  have "\<forall>d \<in> set (root_persistent_flags p getenv goos).
      (fl_var d = Some Var_chunkSize \<longleftrightarrow> fl_name d \<in> opt_name ` set [OptChunkSize, OptMinimumChunkSize]) \<and>
      (fl_var d = Some Var_chunkSize \<longrightarrow> fl_default d = StringFlag chunkSizeDefault)"
    by (simp add: root_persistent_flags_def option_names_distinct del: opt_name.simps)
  then show ?thesis using assms by blast
qed

lemma chunk_flag_declared:
  "o' \<in> set [OptChunkSize, OptMinimumChunkSize] \<Longrightarrow>
     \<exists>d \<in> set (root_persistent_flags p getenv goos). fl_name d = opt_name o'"
proof -
  have "\<forall>o' \<in> set [OptChunkSize, OptMinimumChunkSize]. opt_name o' \<in> set (map fl_name (root_persistent_flags p getenv goos))"
    by (simp add: root_persistent_flags_def option_names_distinct del: opt_name.simps)
  then show "o' \<in> set [OptChunkSize, OptMinimumChunkSize] \<Longrightarrow> ?thesis" by fastforce
qed

lemma chunk_store:
  assumes "d \<in> set (root_persistent_flags p getenv goos)" "fl_name d \<in> opt_name ` set [OptChunkSize, OptMinimumChunkSize]"
  shows "same_store (root_persistent_flags p getenv goos) d n \<longleftrightarrow> n \<in> opt_name ` set [OptChunkSize, OptMinimumChunkSize]"
    (is "?L \<longleftrightarrow> ?R")
proof
  have v: "fl_var d = Some Var_chunkSize" using chunk_var [OF assms(1)] assms(2) by blast
  show "?L \<Longrightarrow> ?R" using v assms(2) chunk_var unfolding same_store_def by metis
  show "?R \<Longrightarrow> ?L" using v chunk_flag_declared [of _ p getenv goos] chunk_var unfolding same_store_def
    by (metis (no_types, lifting) imageE option.distinct(1) image_eqI)
qed

lemma chunk_flag_value:
  assumes "flags_parsed (root_persistent_flags p getenv goos) given src" "o' \<in> set [OptChunkSize, OptMinimumChunkSize]"
  shows "vs_flags src (opt_name o') = Some (opt_name o' \<in> fst ` set given,
     case last_given [OptChunkSize, OptMinimumChunkSize] given of None \<Rightarrow> chunkSizeDefault | Some w \<Rightarrow> w)"
proof -
  let ?ds = "root_persistent_flags p getenv goos"
  obtain d where d: "d \<in> set ?ds" "fl_name d = opt_name o'" using chunk_flag_declared [OF assms(2)] by blast
  have n: "fl_name d \<in> opt_name ` set [OptChunkSize, OptMinimumChunkSize]" unfolding d(2) using assms(2) by (rule imageI)
  have "given_value ?ds given d = last_given [OptChunkSize, OptMinimumChunkSize] given"
    by (simp only: given_value_def last_given_def chunk_store [OF d(1) n])
  moreover have "fl_default d = StringFlag chunkSizeDefault" using chunk_var [OF d(1)] n by blast
  ultimately show ?thesis using assms(1) d unfolding flags_parsed_def by metis
qed

text \<open>What the configuration returns for the two options before the hook.\<close>

lemma chunk_option_value:
  assumes "viper_order get" "flags_parsed (root_persistent_flags p getenv goos) given src"
    and "o' \<in> set [OptChunkSize, OptMinimumChunkSize]" "vs_set src (opt_name o') = None"
  shows "get ViperInit src (opt_name o') =
     (if opt_name o' \<in> fst ` set given then the (last_given [OptChunkSize, OptMinimumChunkSize] given)
      else case from_env ViperInit src (opt_name o') of
             Some e \<Rightarrow> e
           | None \<Rightarrow> (case last_given [OptChunkSize, OptMinimumChunkSize] given of None \<Rightarrow> chunkSizeDefault | Some w \<Rightarrow> w))"
proof -
  have g: "last_given [OptChunkSize, OptMinimumChunkSize] given \<noteq> None" if "opt_name o' \<in> fst ` set given"
    using that assms(3) last_given_None by blast
  have "automatic_env ViperInit" by (simp add: ViperInit_def)
  then have r: "(\<forall>v. vs_flags src (opt_name o') = Some (True, v) \<longrightarrow> get ViperInit src (opt_name o') = v) \<and>
      (\<forall>v. vs_flags src (opt_name o') = Some (False, v) \<longrightarrow> get ViperInit src (opt_name o') =
         (case from_env ViperInit src (opt_name o') of None \<Rightarrow> v | Some e \<Rightarrow> e))"
    using assms(1,4) unfolding viper_order_def by blast
  note f = chunk_flag_value [OF assms(2,3)]
  show ?thesis
  proof (cases "opt_name o' \<in> fst ` set given")
    case True
    then show ?thesis using r f g by (auto split: option.splits)
  next
    case False
    then show ?thesis using r f by (simp split: option.splits)
  qed
qed

lemma own_changed_root:
  "o' \<in> set [OptChunkSize, OptMinimumChunkSize] \<Longrightarrow>
     own_changed (root_persistent_flags p getenv goos) given o' \<longleftrightarrow> opt_name o' \<in> fst ` set given"
  using chunk_flag_declared [of o' p getenv goos] unfolding own_changed_def by (metis image_eqI)

lemma chunk_size_flags_value:
  assumes "\<not> (changed OptMinimumChunkSize \<and> changed OptChunkSize)"
  shows "\<exists>cfg'. chunk_size_flags changed cfg = Inr cfg' \<and>
     GetString cfg' OptChunkSize = (if GetString cfg OptChunkSize = chunkSizeDefault
        then GetString cfg OptMinimumChunkSize else GetString cfg OptChunkSize)"
  using assms by (auto simp: chunk_size_flags_def Let_def)

section \<open>Properties\<close>

text \<open>C22. The root command is always built: no declaration clashes with another, no marking fails. It has
  exactly the declared flags; five of them are hidden, two of these because they are deprecated.\<close>

theorem root_command_built:
  assumes "flag_laws lib view"
  shows "\<exists>s. root_GetCommand lib p getenv goos = Ret (Inr (s, ViperInit)) \<and>
     dom (view s) = fl_name ` set (root_local_flags @ root_persistent_flags p getenv goos) \<and>
     (\<forall>(sc, d) \<in> set (map (Pair Own) root_local_flags @ map (Pair Persistent) (root_persistent_flags p getenv goos)).
        \<exists>f. view s (fl_name d) = Some f \<and> fi_decl f = d \<and> fi_scope f = sc \<and>
          (fi_hidden f \<longleftrightarrow> fl_name d \<in>
             {''force-http2'', ''max-conn-per-host'', ''output'', ''max-chunks'', ''minimum-chunk-size''}) \<and>
          fi_deprecated f = (if fl_name d = ''max-chunks'' then ''use --concurrency instead''
             else if fl_name d = ''minimum-chunk-size'' then ''use --chunk-size instead'' else ''''))"
proof -
  obtain s where s: "root_GetCommand lib p getenv goos = Ret (Inr (s, ViperInit))"
    "view s = deprecate_all deprecated_flags (hide_all hidden_flags (root_view p getenv goos))"
    using root_GetCommand_view [OF assms] by blast
  have dom: "dom (view s) = fl_name ` set (root_local_flags @ root_persistent_flags p getenv goos)"
    by (simp only: s(2) deprecate_hide_dom root_view_def dom_map_add declared_dom set_append image_Un Un_commute)
  have marked: "set hidden_flags \<union> df_Flag ` set deprecated_flags =
      {''force-http2'', ''max-conn-per-host'', ''output'', ''max-chunks'', ''minimum-chunk-size''}"
    by (auto simp: hidden_flags_def deprecated_flags_def)
  have msg: "(case find (\<lambda>x. df_Flag x = n) deprecated_flags of None \<Rightarrow> '''' | Some x \<Rightarrow> df_Msg x) =
      (if n = ''max-chunks'' then ''use --concurrency instead''
       else if n = ''minimum-chunk-size'' then ''use --chunk-size instead'' else '''')" for n
    by (simp add: deprecated_flags_def)
  note flag = marked_flag [of "root_view p getenv goos" _ _ _ deprecated_flags hidden_flags,
      unfolded marked msg, folded s(2)]
  have "\<exists>f. view s (fl_name d) = Some f \<and> fi_decl f = d \<and> fi_scope f = sc \<and>
      (fi_hidden f \<longleftrightarrow> fl_name d \<in> {''force-http2'', ''max-conn-per-host'', ''output'', ''max-chunks'', ''minimum-chunk-size''}) \<and>
      fi_deprecated f = (if fl_name d = ''max-chunks'' then ''use --concurrency instead''
         else if fl_name d = ''minimum-chunk-size'' then ''use --chunk-size instead'' else '''')"
    if "(sc, d) \<in> set (map (Pair Own) root_local_flags @ map (Pair Persistent) (root_persistent_flags p getenv goos))" for sc d
  proof -
    have "root_view p getenv goos (fl_name d) = Some (new_flag sc d)" "sc \<noteq> Inherited"
      using that root_view_own root_view_persistent by auto
    then show ?thesis by (rule flag)
  qed
  then show ?thesis using s(1) dom by blast
qed

text \<open>C34. The chunk size of the root command for every combination of the command line and the environment: both
  flags together are refused, and otherwise the size is the documented one exactly if there is no
  conflict of the kind above.\<close>

theorem chunk_size_documented:
  assumes "viper_order get" "flags_parsed (root_persistent_flags p getenv goos) given src"
    and "vs_set src (opt_name OptChunkSize) = None" "vs_set src (opt_name OptMinimumChunkSize) = None"
    and "\<And>o'. GetString cfg o' = get ViperInit src (opt_name o')"
  shows "case chunk_size_flags (own_changed (root_persistent_flags p getenv goos) given) cfg of
      Inl _ \<Rightarrow> {opt_name OptChunkSize, opt_name OptMinimumChunkSize} \<subseteq> fst ` set given
    | Inr cfg' \<Rightarrow> \<not> {opt_name OptChunkSize, opt_name OptMinimumChunkSize} \<subseteq> fst ` set given \<and>
        (GetString cfg' OptChunkSize = documented_chunk_size given src \<longleftrightarrow> \<not> chunk_size_conflict given src)"
proof -
  let ?ds = "root_persistent_flags p getenv goos" and ?C = "opt_name OptChunkSize" and ?M = "opt_name OptMinimumChunkSize"
  let ?both = "last_given [OptChunkSize, OptMinimumChunkSize] given"
  note nosimp = opt_name.simps
  have ch: "own_changed ?ds given OptChunkSize \<longleftrightarrow> ?C \<in> fst ` set given"
    "own_changed ?ds given OptMinimumChunkSize \<longleftrightarrow> ?M \<in> fst ` set given"
    by (rule own_changed_root, simp)+
  have vC: "GetString cfg OptChunkSize = (if ?C \<in> fst ` set given then the ?both
      else case from_env ViperInit src ?C of Some e \<Rightarrow> e | None \<Rightarrow> (case ?both of None \<Rightarrow> chunkSizeDefault | Some w \<Rightarrow> w))"
    unfolding assms(5) by (rule chunk_option_value [OF assms(1,2) _ assms(3)]) simp
  have vM: "GetString cfg OptMinimumChunkSize = (if ?M \<in> fst ` set given then the ?both
      else case from_env ViperInit src ?M of Some e \<Rightarrow> e | None \<Rightarrow> (case ?both of None \<Rightarrow> chunkSizeDefault | Some w \<Rightarrow> w))"
    unfolding assms(5) by (rule chunk_option_value [OF assms(1,2) _ assms(4)]) simp
  show ?thesis
  proof (cases "?C \<in> fst ` set given \<and> ?M \<in> fst ` set given")
    case True
    then show ?thesis using ch by (simp add: chunk_size_flags_def del: nosimp)
  next
    case False
    obtain cfg' where c: "chunk_size_flags (own_changed ?ds given) cfg = Inr cfg'" "GetString cfg' OptChunkSize =
        (if GetString cfg OptChunkSize = chunkSizeDefault then GetString cfg OptMinimumChunkSize else GetString cfg OptChunkSize)"
      using chunk_size_flags_value [of "own_changed ?ds given" cfg] False ch by blast
    from False have "GetString cfg' OptChunkSize = documented_chunk_size given src \<longleftrightarrow> \<not> chunk_size_conflict given src"
      by (cases rule: given_cases) (auto simp: c(2) vC vM documented_chunk_size_def chunk_size_conflict_def Let_def
        simp del: nosimp split: option.splits)
    then show ?thesis using c(1) False by (simp del: nosimp)
  qed
qed

text \<open>The subcommand for manifests declares no flags itself, so the check for both flags, which looks at the
  flags that the executed command declared, never fires there: both flags are accepted, and the one
  given last is used.\<close>

theorem multifile_takes_both_flags:
  assumes "viper_order get" "flags_parsed (root_persistent_flags p getenv goos) given src"
    and "vs_set src (opt_name OptChunkSize) = None" "vs_set src (opt_name OptMinimumChunkSize) = None"
    and "\<And>o'. GetString cfg o' = get ViperInit src (opt_name o')"
    and "{opt_name OptChunkSize, opt_name OptMinimumChunkSize} \<subseteq> fst ` set given"
  shows "chunk_size_flags (own_changed [] given) cfg = Inr cfg \<and>
     Some (GetString cfg OptChunkSize) = last_given [OptChunkSize, OptMinimumChunkSize] given"
proof -
  have "last_given [OptChunkSize, OptMinimumChunkSize] given \<noteq> None"
    using assms(6) by (simp add: last_given_None del: opt_name.simps)
  moreover have "GetString cfg OptChunkSize = the (last_given [OptChunkSize, OptMinimumChunkSize] given)"
    unfolding assms(5) using assms(6)
    by (subst chunk_option_value [OF assms(1,2) _ assms(3)]) (simp_all del: opt_name.simps)
  moreover have "GetString cfg OptMinimumChunkSize = the (last_given [OptChunkSize, OptMinimumChunkSize] given)"
    unfolding assms(5) using assms(6)
    by (subst chunk_option_value [OF assms(1,2) _ assms(4)]) (simp_all del: opt_name.simps)
  ultimately show ?thesis by (auto simp: chunk_size_flags_def own_changed_def)
qed

text \<open>The comments and warnings write \<open>rpget_CHUNK_SIZE\<close>; the variables that are read have the prefix in
  capitals.\<close>

lemma chunk_size_variables:
  "env_var ViperInit (opt_name OptChunkSize) = ''RPGET_CHUNK_SIZE''"
  "env_var ViperInit (opt_name OptMinimumChunkSize) = ''RPGET_MINIMUM_CHUNK_SIZE''"
  by code_simp+

text \<open>\<open>HideFlags\<close> fails at the first flag that the command cannot find, and the flags before it are hidden,
  except those of a parent command: these are found but stay as they are, without an error.\<close>

theorem hide_flags_exact:
  assumes "flag_laws lib view" "HideFlags lib flags s = (err, s')"
  shows "err = map_option (\<lambda>n. Errorf (''flag '' @ n @ '' does not exist'')) (find (\<lambda>n. view s n = None) flags) \<and>
     (\<forall>n. view s' n =
        (if n \<in> set (takeWhile (\<lambda>n. view s n \<noteq> None) flags)
         then map_option (\<lambda>f. if fi_scope f = Inherited then f else f\<lparr>fi_hidden := True\<rparr>) (view s n) else view s n))"
proof -
  have h: "hide_own = (\<lambda>f. if fi_scope f = Inherited then f else f\<lparr>fi_hidden := True\<rparr>)"
    by (simp add: fun_eq_iff hide_own_def hide_def)
  show ?thesis using HideFlags_view [OF assms(1), of flags s]
    by (simp only: assms(2) fst_conv snd_conv hide_all_def h) simp
qed

section \<open>Examples\<close>

text \<open>The simplest library with the documented behaviour.\<close>

definition example_mark ::
  "flag_scope \<Rightarrow> (flag_info \<Rightarrow> flag_info) \<Rightarrow> string \<Rightarrow> flag_view \<Rightarrow> go_error option \<times> flag_view" where
  "example_mark sc upd n v =
     (case v n of
        None \<Rightarrow> (Some (Errorf ''no such flag''), v)
      | Some f \<Rightarrow> if fi_scope f = sc then (None, v(n \<mapsto> upd f)) else (Some (Errorf ''no such flag''), v))"

definition example_add :: "flag_scope \<Rightarrow> flag_decl \<Rightarrow> flag_view \<Rightarrow> flag_view outcome" where
  "example_add sc d v =
     (if v (fl_name d) = None then Ret (v(fl_name d \<mapsto> new_flag sc d)) else Panic ''flag redefined'')"

definition example_library :: "flag_view flag_library" where
  "example_library =
     \<lparr>NewCommand = Map.empty, AddFlag = example_add Own, AddPersistentFlag = example_add Persistent,
      Flag = (\<lambda>n v. v n \<noteq> None), MarkHidden = example_mark Own hide, PersistentMarkHidden = example_mark Persistent hide,
      MarkDeprecated = (\<lambda>n m. if m = '''' then (\<lambda>v. (Some (Errorf ''no message''), v)) else example_mark Own (deprecate m) n),
      PersistentMarkDeprecated =
        (\<lambda>n m. if m = '''' then (\<lambda>v. (Some (Errorf ''no message''), v)) else example_mark Persistent (deprecate m) n),
      BindPFlags = (\<lambda>v. (None, v)), BindPersistentPFlags = (\<lambda>v. (None, v))\<rparr>"

lemma example_marks: "marks (\<lambda>v. v) sc upd n (example_mark sc upd n)"
  by (auto simp: marks_def example_mark_def split: option.splits)

lemma example_flag_laws: "flag_laws example_library (\<lambda>v. v)"
  using example_marks by (simp add: flag_laws_def example_library_def adds_def example_add_def)

definition example_viper :: "viper_env \<Rightarrow> value_sources \<Rightarrow> string \<Rightarrow> string" where
  "example_viper conf src key =
     (case vs_set src key of Some v \<Rightarrow> v
      | None \<Rightarrow> (case vs_flags src key of
          Some (True, v) \<Rightarrow> v
        | Some (False, v) \<Rightarrow> (case from_env conf src key of None \<Rightarrow> v | Some e \<Rightarrow> e)
        | None \<Rightarrow> (case from_env conf src key of None \<Rightarrow> '''' | Some e \<Rightarrow> e)))"

lemma example_viper_order: "viper_order example_viper"
  by (simp add: viper_order_def example_viper_def)

definition example_sources :: "(string \<times> string) list \<Rightarrow> (string \<rightharpoonup> string) \<Rightarrow> value_sources" where
  "example_sources given environ =
     (let ds = root_persistent_flags 4 Map.empty ''linux'' in
      \<lparr>vs_set = Map.empty,
       vs_flags = (\<lambda>n. map_option (\<lambda>d. (n \<in> fst ` set given,
          case given_value ds given d of Some w \<Rightarrow> w
          | None \<Rightarrow> (case fl_default d of StringFlag v \<Rightarrow> v | _ \<Rightarrow> ''''))) (find (\<lambda>d. fl_name d = n) ds)),
       vs_environ = environ\<rparr>)"

definition example_flag_settings :: "(string \<times> string) list \<Rightarrow> (string \<rightharpoonup> string) \<Rightarrow> settings" where
  "example_flag_settings given environ =
     (default_settings 4 Map.empty ''linux'')\<lparr>GetString := \<lambda>o'. example_viper ViperInit (example_sources given environ) (opt_name o')\<rparr>"

lemma example_parsed: "flags_parsed (root_persistent_flags 4 Map.empty ''linux'') given (example_sources given environ)"
proof -
  let ?ds = "root_persistent_flags 4 Map.empty ''linux''"
  have "find (\<lambda>e. fl_name e = fl_name d) ?ds = Some d" if "d \<in> set ?ds" for d
    using declared_hit [OF _ that, of Own] root_persistent_fresh [of 4 Map.empty "''linux''"]
    by (auto simp: fresh_flags_def declared_def new_flag_def)
  then show ?thesis by (simp add: flags_parsed_def example_sources_def Let_def split: option.splits)
qed

theorem root_command_built_witness:
  "\<exists>s. root_GetCommand example_library 4 Map.empty ''linux'' = Ret (Inr (s, ViperInit)) \<and>
     map_option fi_hidden (s ''extract'') = Some False"
proof -
  have d: "(Own, hd root_local_flags) \<in> set (map (Pair Own) root_local_flags @
      map (Pair Persistent) (root_persistent_flags 4 Map.empty ''linux''))" by (simp add: root_local_flags_def)
  have n: "fl_name (hd root_local_flags) = ''extract''" by (simp add: root_local_flags_def)
  show ?thesis using root_command_built [OF example_flag_laws, of 4 Map.empty "''linux''"] d n by fastforce
qed

theorem chunk_size_documented_witness:
  "\<exists>cfg'. chunk_size_flags (own_changed (root_persistent_flags 4 Map.empty ''linux'') [(''minimum-chunk-size'', ''10M'')])
       (example_flag_settings [(''minimum-chunk-size'', ''10M'')] [''RPGET_CHUNK_SIZE'' \<mapsto> ''20M'']) = Inr cfg' \<and>
     GetString cfg' OptChunkSize \<noteq> ''10M''"
proof -
  let ?given = "[(''minimum-chunk-size'', ''10M'')]" and ?env = "[''RPGET_CHUNK_SIZE'' \<mapsto> ''20M'']"
  let ?src = "example_sources ?given ?env"
  have lg: "last_given [OptMinimumChunkSize] ?given = Some ''10M''" "last_given [OptChunkSize] ?given = None"
    by (simp_all add: last_given_def)
  have e: "from_env ViperInit ?src (opt_name OptChunkSize) = Some ''20M''"
    unfolding from_env_def chunk_size_variables by (simp add: example_sources_def Let_def)
  have "chunk_size_conflict ?given ?src" by (simp add: chunk_size_conflict_def lg e chunkSizeDefault_def del: opt_name.simps)
  moreover have "documented_chunk_size ?given ?src = ''10M''" by (simp add: documented_chunk_size_def lg)
  moreover have "\<not> {opt_name OptChunkSize, opt_name OptMinimumChunkSize} \<subseteq> fst ` set ?given" by simp
  ultimately show ?thesis
    using chunk_size_documented [OF example_viper_order example_parsed [of ?given ?env], of "example_flag_settings ?given ?env"]
    by (auto simp: example_flag_settings_def example_sources_def Let_def simp del: opt_name.simps split: sum.splits)
qed

theorem multifile_takes_both_flags_witness:
  "GetString (example_flag_settings [(''chunk-size'', ''10M''), (''minimum-chunk-size'', ''20M'')] Map.empty) OptChunkSize = ''20M''"
proof -
  let ?given = "[(''chunk-size'', ''10M''), (''minimum-chunk-size'', ''20M'')]"
  have "last_given [OptChunkSize, OptMinimumChunkSize] ?given = Some ''20M''" by (simp add: last_given_def)
  then show ?thesis
    using multifile_takes_both_flags [OF example_viper_order example_parsed [of ?given Map.empty], of "example_flag_settings ?given Map.empty"]
    by (simp add: example_flag_settings_def example_sources_def Let_def)
qed

theorem hide_flags_exact_witness:
  "\<exists>s. HideFlags example_library [''force'', ''nosuch'']
       [''force'' \<mapsto> new_flag Own (flag_named OptForce ''f'' (BoolFlag False) '''')] =
       (Some (Errorf ''flag nosuch does not exist''), s) \<and> map_option fi_hidden (s ''force'') = Some True"
proof -
  let ?v = "[''force'' \<mapsto> new_flag Own (flag_named OptForce ''f'' (BoolFlag False) '''')] :: flag_view"
  obtain err s where "HideFlags example_library [''force'', ''nosuch''] ?v = (err, s)" by fastforce
  with hide_flags_exact [OF example_flag_laws this] show ?thesis by (simp add: new_flag_def)
qed

end
