(* ===== verification/Tree_Typing.thy ===== *)
theory Tree_Typing
  imports Consumers
begin

text \<open>
  The shape of a file system: every name is below a directory and is a single component, and every
  file has an inode that is in use. All system calls keep it, whether they succeed or not, hence
  so do the extraction of archives and all consumers.
\<close>

section \<open>Well-formed trees\<close>

definition name_ok :: "file_system \<Rightarrow> loc \<Rightarrow> bool" where
  "name_ok fs p \<longleftrightarrow> p \<noteq> [] \<and> node_at fs (butlast p) = Some Dir \<and> plain_comp (last p)"

fun inode_ok :: "file_system \<Rightarrow> node \<Rightarrow> bool" where
  "inode_ok fs (File i) \<longleftrightarrow> i < fs_next fs"
| "inode_ok fs _ \<longleftrightarrow> True"

definition fs_ok :: "file_system \<Rightarrow> bool" where
  "fs_ok fs \<longleftrightarrow> (\<forall>p x. fs_tree fs p = Some x \<longrightarrow> name_ok fs p \<and> inode_ok fs x)"

lemma fs_okD: "fs_ok fs \<Longrightarrow> node_at fs p = Some x \<Longrightarrow> p \<noteq> [] \<Longrightarrow> name_ok fs p \<and> inode_ok fs x"
  by (simp add: fs_ok_def node_at_def)

lemma fs_ok_parent: "fs_ok fs \<Longrightarrow> node_at fs p = Some Dir \<Longrightarrow> node_at fs (butlast p) = Some Dir"
  using fs_okD [of fs p Dir] by (cases "p = []") (auto simp: node_at_def name_ok_def)

text \<open>A walk from a directory ends at a place that exists or where a name can be added.\<close>

lemma walk_name_ok:
  assumes "fs_ok fs" "node_at fs cur = Some Dir" "\<forall>c \<in> set cs. slash \<notin> set c"
    "walk fs follow n cur cs = Inr p"
  shows "node_at fs p \<noteq> None \<or> name_ok fs p"
  using assms
proof (induction fs follow n cur cs rule: walk.induct)
  case (1 fs follow n cur)
  then show ?case by simp
next
  case (2 fs follow n cur c cs)
  have base: "node_at fs (link_base t cur) = Some Dir" for t
    using 2(6) by (auto simp: link_base_def node_at_def)
  have comps: "\<forall>c \<in> set (comps t @ cs). slash \<notin> set c" for t
    using 2(7) comps_no_slash [of t] by auto
  show ?case
  proof (cases "c = '''' \<or> c = ''.'' \<or> c = ''..''")
    case True
    then show ?thesis using 2 fs_ok_parent [of fs cur] by (auto simp: walk.simps(2) split: if_splits)
  next
    case False
    then have "name_ok fs (cur @ [c])" using 2(6,7) by (simp add: name_ok_def plain_comp_def)
    with False show ?thesis using 2 base comps
      by (auto simp: walk.simps(2) split: if_splits option.splits node.splits nat.splits)
  qed
qed

lemma resolve_name_ok:
  assumes "fs_ok fs" "resolve fs follow path = Inr p"
  shows "node_at fs p \<noteq> None \<or> name_ok fs p"
proof -
  have start: "node_at fs (if rooted path then [] else fs_cwd fs) = Some Dir"
    and w: "walk fs follow 40 (if rooted path then [] else fs_cwd fs) (comps path) = Inr p"
    using assms(2) by (auto simp: resolve_def node_at_def split: if_splits)
  show ?thesis using walk_name_ok [OF assms(1) start comps_no_slash w] .
qed

section \<open>System calls\<close>

lemma fs_ok_data [simp]: "fs_ok (fs\<lparr>fs_data := d\<rparr>) = fs_ok fs"
proof -
  have "inode_ok (fs\<lparr>fs_data := d\<rparr>) x = inode_ok fs x" for x by (cases x) auto
  then show ?thesis by (simp add: fs_ok_def name_ok_def)
qed

lemma fs_ok_next: "fs_ok fs \<Longrightarrow> fs_next fs \<le> n \<Longrightarrow> fs_ok (fs\<lparr>fs_next := n\<rparr>)"
proof -
  have "inode_ok fs x \<Longrightarrow> fs_next fs \<le> n \<Longrightarrow> inode_ok (fs\<lparr>fs_next := n\<rparr>) x" for x by (cases x) auto
  then show "fs_ok fs \<Longrightarrow> fs_next fs \<le> n \<Longrightarrow> fs_ok (fs\<lparr>fs_next := n\<rparr>)" by (simp add: fs_ok_def name_ok_def)
qed

lemma fs_ok_put:
  assumes "fs_ok fs" "node_at fs p = None" "name_ok fs p" "inode_ok fs x"
  shows "fs_ok (put_node fs p x)"
proof -
  have p: "p \<noteq> []" using assms(3) by (simp add: name_ok_def)
  have n: "inode_ok (put_node fs p x) y = inode_ok fs y" for y by (cases y) (auto simp: put_node_def)
  have "name_ok (put_node fs p x) q" if "name_ok fs q" for q
    using that assms(2) by (auto simp: name_ok_def node_at_put [OF p])
  with assms n show ?thesis by (auto simp: fs_ok_def put_node_def split: if_splits)
qed

lemma fs_ok_remove:
  assumes "fs_ok fs" "node_at fs p = Some x" "x = Dir \<Longrightarrow> is_empty_dir fs p" "p \<noteq> []"
  shows "fs_ok (fs\<lparr>fs_tree := (fs_tree fs)(p := None)\<rparr>)" (is "fs_ok ?fs")
proof -
  have "name_ok ?fs q \<and> inode_ok ?fs y" if q: "fs_tree fs q = Some y" "q \<noteq> p" for q y
  proof -
    have ok: "name_ok fs q" "inode_ok fs y" using assms(1) q(1) by (auto simp: fs_ok_def)
    have "butlast q \<noteq> p"
    proof
      assume b: "butlast q = p"
      then have "x = Dir" using ok(1) assms(2) by (simp add: name_ok_def)
      then have "fs_tree fs (p @ [last q]) = None" using assms(3) by (simp add: is_empty_dir_def)
      moreover have "p @ [last q] = q" using b ok(1) by (auto simp: name_ok_def)
      ultimately show False using q(1) by simp
    qed
    with ok show ?thesis by (cases y) (auto simp: name_ok_def node_at_def)
  qed
  then show ?thesis by (simp add: fs_ok_def)
qed

lemma add_name_ok: "fs_ok fs \<Longrightarrow> inode_ok fs x \<Longrightarrow> fs_ok (snd (add_name fs path x))"
  using resolve_name_ok [of fs False path] by (auto simp: add_name_def fs_ok_put split: sum.splits)

lemma Mkdir_ok: "fs_ok fs \<Longrightarrow> fs_ok (snd (os_Mkdir fs path))"
  by (simp add: os_Mkdir_def add_name_ok)

lemma Symlink_ok: "fs_ok fs \<Longrightarrow> fs_ok (snd (os_Symlink fs old new))"
  by (simp add: os_Symlink_def add_name_ok)

lemma stat_node_ok: "fs_ok fs \<Longrightarrow> stat_node fs follow path = Inr x \<Longrightarrow> inode_ok fs x"
  using fs_okD [of fs _ x] by (force simp: stat_node_def node_at_def split: sum.splits option.splits if_splits)

lemma Link_ok: "fs_ok fs \<Longrightarrow> fs_ok (snd (os_Link fs old new))"
  using stat_node_ok [of fs False old] by (auto simp: os_Link_def add_name_ok split: sum.splits node.splits)

lemma Remove_ok: "fs_ok fs \<Longrightarrow> fs_ok (snd (os_Remove (is_empty_dir fs) fs path))"
  by (auto simp: os_Remove_def split: sum.splits option.splits node.splits intro: fs_ok_remove)
     (auto simp: node_at_def intro: fs_ok_remove)

lemma mkdir_all_ok: "fs_ok fs \<Longrightarrow> fs_ok (snd (mkdir_all fs r rs))"
proof (induction fs r rs rule: mkdir_all.induct)
  case (2 fs r c rparents)
  let ?path = "if r then slash # join_slash (rev (c # rparents)) else join_slash (rev (c # rparents))"
  obtain e1 fs1 where 1: "mkdir_all fs r rparents = (e1, fs1)" by fastforce
  obtain e2 fs2 where 3: "os_Mkdir fs1 ?path = (e2, fs2)" by fastforce
  show ?case
  proof (cases "stat_node fs True ?path")
    case (Inl e)
    then have "fs_ok fs1" using 2 1 by (auto simp: Let_def)
    with Mkdir_ok [of fs1 ?path] 3 have "fs_ok fs1 \<and> fs_ok fs2" by simp
    with Inl 1 3 show ?thesis by (auto simp: Let_def split: option.splits)
  next
    case (Inr x)
    then show ?thesis using 2(2) by (auto simp: Let_def split: node.splits)
  qed
qed simp

lemma MkdirAll_ok: "fs_ok fs \<Longrightarrow> fs_ok (snd (os_MkdirAll fs path))"
  by (simp add: os_MkdirAll_def mkdir_all_ok)

lemma OpenFile_ok:
  assumes "fs_ok fs"
  shows "fs_ok (snd (os_OpenFile fs path trunc))"
proof (cases "resolve fs True path")
  case (Inr p)
  show ?thesis
  proof (cases "node_at fs p")
    case None
    let ?fs = "fs\<lparr>fs_next := Suc (fs_next fs)\<rparr>"
    have "name_ok ?fs p" "fs_ok ?fs"
      using resolve_name_ok [OF assms Inr] None assms by (simp_all add: name_ok_def fs_ok_next)
    then have "fs_ok (put_node ?fs p (File (fs_next fs)))" using None by (intro fs_ok_put) simp_all
    moreover have "snd (os_OpenFile fs path trunc) =
        (put_node ?fs p (File (fs_next fs)))\<lparr>fs_data := (fs_data fs)(fs_next fs := [])\<rparr>"
      using Inr None by (cases fs) (simp add: os_OpenFile_def put_node_def)
    ultimately show ?thesis by simp
  qed (use Inr assms in \<open>auto simp: os_OpenFile_def split: node.splits\<close>)
qed (use assms in \<open>simp add: os_OpenFile_def\<close>)

lemma write_file_ok: "fs_ok fs \<Longrightarrow> fs_ok (write_file fs i d)"
  by (simp add: write_file_def)

section \<open>Archives and consumers\<close>

lemmas sys_ok = Mkdir_ok Symlink_ok Link_ok Remove_ok MkdirAll_ok OpenFile_ok write_file_ok

lemma tar_entry_ok:
  assumes "fs_ok fs"
  shows "fs_ok (snd (tar_entry fs destDir overwrite header links))"
proof -
  let ?t = "filepath_Join destDir (h_Name header)"
  obtain e1 fs1 where 1: "os_MkdirAll fs (filepath_Dir ?t) = (e1, fs1)" by fastforce
  obtain e2 fs2 where 2: "os_MkdirAll fs1 ?t = (e2, fs2)" by fastforce
  obtain e3 fs3 where 3: "os_OpenFile fs1 ?t overwrite = (e3, fs3)" by fastforce
  have "fs_ok fs1" using MkdirAll_ok [OF assms, of "filepath_Dir ?t"] 1 by simp
  then have "fs_ok fs1" "fs_ok fs2" "fs_ok fs3"
    using MkdirAll_ok [of fs1 ?t] OpenFile_ok [of fs1 ?t overwrite] 2 3 by simp_all
  then show ?thesis
    using 1 2 3 by (auto simp: tar_entry_def Let_def write_file_ok split: option.splits sum.splits)
qed

lemma tar_loop_ok: "fs_ok fs \<Longrightarrow> fs_ok (snd (tar_loop destDir overwrite hs links fs))"
proof (induction hs arbitrary: links fs)
  case (Cons h hs)
  obtain r fs1 where 1: "tar_entry fs destDir overwrite h links = (r, fs1)" by fastforce
  then have "fs_ok fs1" using tar_entry_ok [OF Cons.prems, of destDir overwrite h links] by simp
  with 1 Cons.IH show ?case by (auto split: sum.splits)
qed simp

lemma remove_existing_ok: "fs_ok fs \<Longrightarrow> fs_ok (snd (remove_existing overwrite fs path))"
  using Remove_ok [of fs path]
  by (cases "os_Remove (is_empty_dir fs) fs path") (auto simp: remove_existing_def split: option.splits)

lemma createHardLink_ok: "fs_ok fs \<Longrightarrow> fs_ok (snd (createHardLink fs old new overwrite))"
  using remove_existing_ok [of fs overwrite new]
  by (cases "remove_existing overwrite fs new") (auto simp: createHardLink_def Link_ok split: option.splits)

lemma createSymlink_ok: "fs_ok fs \<Longrightarrow> fs_ok (snd (createSymlink fs old new overwrite))"
  using remove_existing_ok [of fs overwrite new]
  by (cases "remove_existing overwrite fs new") (auto simp: createSymlink_def Symlink_ok split: option.splits)

lemma createLinks_ok: "fs_ok fs \<Longrightarrow> fs_ok (snd (createLinks lks destDir overwrite fs))"
proof (induction lks arbitrary: fs)
  case (Cons lk lks)
  obtain e1 fs1 where 1: "os_MkdirAll fs (filepath_Dir (newName lk)) = (e1, fs1)" by fastforce
  then have ok: "fs_ok fs1" using MkdirAll_ok [OF Cons.prems, of "filepath_Dir (newName lk)"] by simp
  obtain e2 fs2 where 2: "createHardLink fs1 (filepath_Join destDir (oldName lk)) (newName lk) overwrite = (e2, fs2)"
    by fastforce
  obtain e3 fs3 where 3: "createSymlink fs1 (oldName lk) (newName lk) overwrite = (e3, fs3)" by fastforce
  have "fs_ok fs2" "fs_ok fs3"
    using createHardLink_ok [OF ok, of "filepath_Join destDir (oldName lk)" "newName lk" overwrite]
      createSymlink_ok [OF ok, of "oldName lk" "newName lk" overwrite] 2 3 by simp_all
  with ok 1 2 3 Cons.IH show ?case by (auto simp: Let_def split: option.splits)
qed simp

lemma TarFile_tree_ok: "fs_ok fs \<Longrightarrow> fs_ok (snd (TarFile archive fs inp destDir overwrite))"
proof -
  assume ok: "fs_ok fs"
  have "fs_ok (snd (case tar_loop destDir overwrite hs [] fs of
      (Inl err, fs1) \<Rightarrow> (Some err, fs1)
    | (Inr links, fs1) \<Rightarrow> g links fs1))"
    if g: "\<And>links fs1. fs_ok fs1 \<Longrightarrow> fs_ok (snd (g links fs1))" for hs and g :: "link list \<Rightarrow> file_system \<Rightarrow> go_error option \<times> file_system"
    using tar_loop_ok [OF ok, of destDir overwrite hs "[]"] g
    by (cases "tar_loop destDir overwrite hs [] fs") (auto split: sum.splits)
  note loop = this
  have links: "fs_ok fs1 \<Longrightarrow> fs_ok (snd (case createLinks links destDir overwrite fs1 of
      (Some err, fs2) \<Rightarrow> (e1 err, fs2) | (None, fs2) \<Rightarrow> (case rerr of Some err \<Rightarrow> (e2 err, fs2) | None \<Rightarrow> if b then (e3, fs2) else (None, fs2))))"
    for fs1 links e1 and e2 :: "go_error \<Rightarrow> go_error option" and e3 b rerr
    using createLinks_ok [of fs1 links destDir overwrite]
    by (cases "createLinks links destDir overwrite fs1") (auto split: option.splits)
  obtain data rerr where "inp = (data, rerr)" by fastforce
  then show ?thesis using ok
    by (auto simp: TarFile_def split: sum.splits option.splits intro!: loop links)
qed

lemma Consume_ok:
  assumes "fs_ok fs"
  shows "fs_ok (snd (Consume archive c fs reader destPath expectedBytes))"
proof (cases c)
  case (FileWriter ow)
  obtain e1 fs1 where 1: "os_MkdirAll fs (filepath_Dir destPath) = (e1, fs1)" by fastforce
  obtain e2 fs2 where 2: "os_OpenFile fs1 destPath ow = (e2, fs2)" by fastforce
  have "fs_ok fs1" using MkdirAll_ok [OF assms, of "filepath_Dir destPath"] 1 by simp
  moreover from this have "fs_ok fs2" using OpenFile_ok [of fs1 destPath ow] 2 by simp
  ultimately show ?thesis using FileWriter 1 2
    by (auto simp: FileWriter_Consume_def Let_def write_file_ok split: option.splits sum.splits)
next
  case (TarExtractor ow)
  then show ?thesis using TarFile_tree_ok [OF assms, of archive reader destPath ow]
    by (cases "TarFile archive fs reader destPath ow")
       (auto simp: TarExtractor_Consume_def Let_def split: option.splits)
next
  case NullWriter
  then show ?thesis using assms by (auto simp: NullWriter_Consume_def Let_def split: prod.splits option.splits)
qed

end
