(* ===== verification/Command_Types.thy ===== *)
theory Command_Types
  imports Commands Tree_Typing
begin

text \<open>
  The commands keep the shape of the file system, with every consumer, every archive and every
  answer of the servers, in every interleaving of the downloads, and also when they fail.
\<close>

lemma DownloadFile_ok:
  assumes "fs_ok fs" "DownloadFile archive g Fetch fs url dest = Some (Ret (r, fs', ms))"
  shows "fs_ok fs'"
proof -
  have "fs' = fs \<or> (\<exists>reader n e. Consume archive (the_consumer g) fs reader dest n = (e, fs'))"
    using assms(2) by (auto simp: DownloadFile_def split: outcome.splits sum.splits option.splits prod.splits)
  with assms(1) Consume_ok [OF assms(1), of archive "the_consumer g" _ dest] show ?thesis by (metis snd_conv)
qed

definition group_fs_ok :: "'f group \<Rightarrow> bool" where
  "group_fs_ok st \<longleftrightarrow> fs_ok (eg_fs st)"

lemma group_event_ok:
  assumes "group_fs_ok st" "group_event archive g Fetch ev st = Some st'"
  shows "group_fs_ok st'"
proof (cases ev)
  case Go
  then show ?thesis using assms by (auto simp: queue_download_def group_fs_ok_def split: list.splits if_splits)
next
  case (Finish i cancelled)
  then show ?thesis using assms DownloadFile_ok
    by (auto simp: downloadAndMeasure_def group_fs_ok_def split: if_splits option.splits outcome.splits)
qed

text \<open>The steps of the group, and the shape of the tree as an invariant of its runs.\<close>

definition group_step :: "archive_reader \<Rightarrow> 'f::zero getter \<Rightarrow> (bool \<Rightarrow> fetch) \<Rightarrow> 'f group \<Rightarrow> 'f group \<Rightarrow> bool" where
  "group_step archive g Fetch st st' \<longleftrightarrow> (\<exists>ev. group_event archive g Fetch ev st = Some st')"

interpretation group_tree: invariant_system "\<lambda>st. group_fs_ok st \<and> (\<exists>manifest fs. st = new_group manifest fs)"
  "group_step archive g Fetch" group_fs_ok for archive g Fetch
  by unfold_locales (auto simp: group_step_def dest: group_event_ok)

lemma group_run_steps: "group_run archive g Fetch evs st = Some st' \<Longrightarrow> (group_step archive g Fetch)\<^sup>*\<^sup>* st st'"
proof (induction evs arbitrary: st)
  case (Cons ev evs)
  then obtain st1 where "group_event archive g Fetch ev st = Some st1" "group_run archive g Fetch evs st1 = Some st'"
    by (auto split: option.splits)
  with Cons.IH show ?case by (auto simp: group_step_def intro: converse_rtranclp_into_rtranclp)
qed simp

lemma DownloadFiles_ok:
  assumes "fs_ok fs" "DownloadFiles archive g Fetch manifest events fs = Some (r, st)"
  shows "fs_ok (eg_fs st)"
proof -
  have "(group_step archive g Fetch)\<^sup>*\<^sup>* (new_group manifest fs) st"
    using assms(2) group_run_steps by (fastforce simp: DownloadFiles_def split: option.splits)
  then have "group_fs_ok st" using group_tree.inv_steps assms(1) by (fastforce simp: group_fs_ok_def new_group_def)
  then show ?thesis by (simp add: group_fs_ok_def)
qed

lemma rootExecute_ok:
  "fs_ok fs \<Longrightarrow> rootExecute env su archive cfg fs url dest = Some (Ret (err, fs', ms)) \<Longrightarrow> fs_ok fs'"
  using DownloadFile_ok
  by (fastforce simp: rootExecute_def split: outcome.splits sum.splits option.splits prod.splits)

lemma multifileExecute_ok:
  "fs_ok fs \<Longrightarrow> multifileExecute env su sus archive cfg manifest events fs = Some (Ret (err, fs', ms)) \<Longrightarrow> fs_ok fs'"
  using DownloadFiles_ok
  by (fastforce simp: multifileExecute_def split: outcome.splits sum.splits option.splits prod.splits)

text \<open>Whatever the options, the answers of the servers, the archives and the interleaving of the
  downloads, and whether they succeed or fail, both commands leave a well-formed file system: every
  name is a plain component below a directory, and every file has an inode that was allotted.\<close>

theorem commands_keep_tree:
  assumes "fs_ok fs"
  shows "(\<forall>err fs' ms. runRootCMD env su archive cfg fs args = Some (Ret (err, fs', ms)) \<longrightarrow> fs_ok fs') \<and>
     (\<forall>err fs' ms. runMultifileCMD env su sus archive cfg opened read_input events fs args =
        Some (Ret (err, fs', ms)) \<longrightarrow> fs_ok fs')"
proof -
  have "fs_ok fs'" if "runRootCMD env su archive cfg fs args = Some (Ret (err, fs', ms))" for err fs' ms
    using that assms rootExecute_ok [OF assms]
    by (auto simp: runRootCMD_def Let_def split: list.splits option.splits if_splits)
  moreover have "fs_ok fs'" if "runMultifileCMD env su sus archive cfg opened read_input events fs args =
      Some (Ret (err, fs', ms))" for err fs' ms
    using that assms multifileExecute_ok [OF assms]
    by (auto simp: runMultifileCMD_def split: list.splits sum.splits)
  ultimately show ?thesis by blast
qed

theorem commands_keep_tree_witness:
  "\<exists>fs' ms. runRootCMD example_command_env example_surroundings (\<lambda>_ _. Inl (Errorf '''')) (example_settings ''file'')
       empty_fs [''weights.example.com/a'', ''/f''] = Some (Ret (None, fs', ms)) \<and> fs_ok fs' \<and>
     read_file fs' ''/f'' \<noteq> None"
proof -
  obtain m q where m: "root_setup example_command_env (example_settings ''file'') = Ret (Inr (FileWriter False, Buffering m q))"
    "ChunkSize (bm_opts m) = 3" "CacheHosts (bm_opts m) = None" "hc_headers (bm_Client m) = []" "concurrency q = 16"
    using example_root_setup by blast
  have w: "can_write empty_fs ''/f''" using two_files_free by (simp add: two_files_def dest_free_def)
  have f: "file_at empty_fs p = None" for p by (cases "p = []") (simp_all add: file_at_def node_at_def empty_fs_def)
  have s: "GetString (example_settings ''file'') OptOutputConsumer = ''file''" by (simp add: example_settings_def)
  obtain fs' ms where "rootExecute example_command_env example_surroundings (\<lambda>_ _. Inl (Errorf ''''))
      (example_settings ''file'') empty_fs ''weights.example.com/a'' ''/f'' = Some (Ret (None, fs', ms))"
    and r: "read_file fs' ''/f'' = Some [1, 2, 3, 4, 5, 6, 7]"
    using rootExecute_writes [OF m(1) s example_buffering_ready [OF m(2-5)] empty_fs_plain w disjI2 [OF f]] by blast
  then have run: "runRootCMD example_command_env example_surroundings (\<lambda>_ _. Inl (Errorf '''')) (example_settings ''file'')
      empty_fs [''weights.example.com/a'', ''/f''] = Some (Ret (None, fs', ms))"
    using EnsureDestination_can_write [OF w empty_fs_plain, of "example_settings ''file''"] f s by (simp add: runRootCMD_def)
  have "fs_ok empty_fs" by (simp add: fs_ok_def empty_fs_def)
  then show ?thesis using commands_keep_tree run r by (metis option.distinct(1))
qed

end
