(* ===== verification/Program.thy ===== *)
theory Program
  imports Command_Flags Command_Types
begin

text \<open>
  Model of main.go, cmd/cmd.go and pkg/logging/log.go: the process from its start to its exit
  status. The commands are the functions that the command library calls around and for a command;
  their order is its documented behaviour. The properties follow one download from the arguments to
  the file, the lock and the exit status.
\<close>

section \<open>Logging\<close>

text \<open>The format of a log line: \<open>%-6s\<close> pads a level with blanks on the right.\<close>

record console_writer =
  cw_Out :: string
  cw_TimeFormat :: string
  cw_NoColor :: bool
  cw_FormatLevel :: "string \<Rightarrow> string"
  cw_FormatMessage :: "string \<Rightarrow> string"

definition SetupLogger :: console_writer where
  "SetupLogger =
     \<lparr>cw_Out = ''stderr'', cw_TimeFormat = ''2006-01-02T15:04:05Z07:00'', cw_NoColor = True,
      cw_FormatLevel = (\<lambda>i. ToUpper (''| '' @ i @ replicate (6 - length i) (CHR '' '') @ ''|'')),
      cw_FormatMessage = (\<lambda>i. ''[ '' @ i @ '' ]'')\<rparr>"

text \<open>The columns of the log are aligned: no level is longer than six characters.\<close>

lemma levels_aligned:
  "i \<in> {''trace'', ''debug'', ''info'', ''warn'', ''error'', ''fatal'', ''panic''} \<Longrightarrow>
     length (cw_FormatLevel SetupLogger i) = 9"
  by (auto simp: SetupLogger_def ToUpper_def)

section \<open>The process and its commands\<close>

text \<open>
  The state that the commands share: the configuration, the log level, the PID files with the
  variable \<open>pidFile\<close>, the file system, the metrics that were sent, the output and the
  logger.
\<close>

record 'f process =
  pr_cfg :: settings
  pr_level :: "log_level option"
  pr_pids :: pid_files
  pr_pidFile :: "PIDFile option"
  pr_fs :: file_system
  pr_metrics :: "'f MetricsPayload list"
  pr_stdout :: string
  pr_logger :: "console_writer option"

text \<open>A function that the command library calls; \<open>None\<close> if it never returns.\<close>

type_synonym 'f hook = "'f process \<Rightarrow> (go_error option \<times> 'f process) outcome option"

record 'f cobra_command =
  Args :: "'f hook"
  PersistentPreRunE :: "'f hook"
  PreRunE :: "'f hook"
  RunE :: "'f hook"
  PersistentPostRunE :: "'f hook"

text \<open>
  One invocation, as the command library found it on the command line: the name of the command, its
  arguments, the flags of that command that were given, and the error for a wrong number of
  arguments; and what the system calls on the PID file return.
\<close>

record invocation =
  inv_calledAs :: string
  inv_args :: "string list"
  inv_changed :: "opt \<Rightarrow> bool"
  inv_args_error :: go_error
  inv_pid :: int64
  inv_open :: "string \<Rightarrow> go_error option"
  inv_sync :: "go_error option"
  inv_close :: "go_error option"

definition no_hook :: "'f hook" where
  "no_hook st = Some (Ret (None, st))"

definition check_args :: "invocation \<Rightarrow> (settings \<Rightarrow> string list \<Rightarrow> bool) \<Rightarrow> 'f hook" where
  "check_args iv ok st = Some (Ret (if ok (pr_cfg st) (inv_args iv) then None else Some (inv_args_error iv), st))"

definition persistent_pre_run :: "invocation \<Rightarrow> 'f hook" where
  "persistent_pre_run iv st =
     (case rootPersistentPreRunEFunc (inv_calledAs iv) (inv_changed iv) (pidFlock (inv_open iv) (inv_sync iv) (inv_pid iv))
             (pr_cfg st) (pr_pids st) of
        None \<Rightarrow> None
      | Some ((err, cfg, level, p), files) \<Rightarrow>
          Some (Ret (err, st\<lparr>pr_cfg := cfg, pr_level := Some level, pr_pids := files,
            pr_pidFile := (case p of None \<Rightarrow> pr_pidFile st | Some p \<Rightarrow> Some p)\<rparr>)))"

definition persistent_post_run :: "invocation \<Rightarrow> 'f hook" where
  "persistent_post_run iv st =
     (case rootPersistentPostRunEFunc (pr_pidFile st) (inv_close iv) (inv_pid iv) (pr_pids st) of
        None \<Rightarrow> None
      | Some (err, files) \<Rightarrow> Some (Ret (err, st\<lparr>pr_pids := files\<rparr>)))"

text \<open>A run of a command on the file system, as a function on the process.\<close>

definition run_files ::
  "(settings \<Rightarrow> file_system \<Rightarrow> (go_error option \<times> file_system \<times> 'f MetricsPayload list) outcome option) \<Rightarrow> 'f hook" where
  "run_files run st =
     (case run (pr_cfg st) (pr_fs st) of
        None \<Rightarrow> None
      | Some (Panic msg) \<Rightarrow> Some (Panic msg)
      | Some (Ret (err, fs, ms)) \<Rightarrow> Some (Ret (err, st\<lparr>pr_fs := fs, pr_metrics := pr_metrics st @ ms\<rparr>)))"

text \<open>The three commands; the subcommands have the persistent functions of the root command.\<close>

definition root_command ::
  "'ip command_env \<Rightarrow> ('w, 'f::zero) surroundings \<Rightarrow> archive_reader \<Rightarrow> invocation \<Rightarrow> 'f cobra_command" where
  "root_command env su archive iv =
     \<lparr>Args = check_args iv validateArgs, PersistentPreRunE = persistent_pre_run iv, PreRunE = no_hook,
      RunE = run_files (\<lambda>cfg fs. runRootCMD env su archive cfg fs (inv_args iv)),
      PersistentPostRunE = persistent_post_run iv\<rparr>"

definition multifile_command ::
  "'ip command_env \<Rightarrow> ('w, 'f::zero) surroundings \<Rightarrow> (bool \<Rightarrow> string \<Rightarrow> ('w, 'f) surroundings) \<Rightarrow> archive_reader \<Rightarrow>
     (string \<Rightarrow> go_error option) \<Rightarrow> (input \<Rightarrow> string) \<Rightarrow> event list \<Rightarrow> invocation \<Rightarrow> 'f cobra_command" where
  "multifile_command env su sus archive opened read_input events iv =
     \<lparr>Args = check_args iv (\<lambda>_ args. length args = 1), PersistentPreRunE = persistent_pre_run iv,
      PreRunE = (\<lambda>st. Some (Ret (multifilePreRunE (pr_cfg st), st))),
      RunE = run_files (\<lambda>cfg fs. runMultifileCMD env su sus archive cfg opened read_input events fs (inv_args iv)),
      PersistentPostRunE = persistent_post_run iv\<rparr>"

definition version_command :: "build_info \<Rightarrow> invocation \<Rightarrow> 'f cobra_command" where
  "version_command info iv =
     \<lparr>Args = no_hook, PersistentPreRunE = persistent_pre_run iv, PreRunE = no_hook,
      RunE = (\<lambda>st. Some (Ret (None, st\<lparr>pr_stdout := pr_stdout st @ VersionCMD info\<rparr>))),
      PersistentPostRunE = persistent_post_run iv\<rparr>"

section \<open>The program\<close>

text \<open>The root command with its two subcommands; \<open>Inl\<close> is an error that was printed before an exit.\<close>

definition GetRootCommand ::
  "'s flag_library \<Rightarrow> int64 \<Rightarrow> (string \<rightharpoonup> string) \<Rightarrow> string \<Rightarrow> (go_error + 's \<times> 's) outcome" where
  "GetRootCommand lib gomaxprocs getenv goos =
     (case root_GetCommand lib gomaxprocs getenv goos of
        Panic msg \<Rightarrow> Panic msg
      | Ret (Inl err) \<Rightarrow> Ret (Inl err)
      | Ret (Inr (s, _)) \<Rightarrow> Ret (map_sum id (Pair s) (multifile_GetCommand lib)))"

text \<open>The end of the process: an exit status, or the message of a panic.\<close>

datatype 'f ending = Exit nat "'f process" | Crash string

definition with_logger :: "'f process \<Rightarrow> 'f process" where
  "with_logger st = st\<lparr>pr_logger := Some SetupLogger\<rparr>"

lemma with_logger_simps [simp]:
  "pr_cfg (with_logger st) = pr_cfg st" "pr_pids (with_logger st) = pr_pids st" "pr_pidFile (with_logger st) = pr_pidFile st"
  "pr_fs (with_logger st) = pr_fs st" "pr_metrics (with_logger st) = pr_metrics st" "pr_stdout (with_logger st) = pr_stdout st"
  by (simp_all add: with_logger_def)

text \<open>
  \<open>Execute\<close> is the method of the command library, for the command that was called; \<open>None\<close> if it never
  returns, and the process does not end by itself.
\<close>

definition main ::
  "'s flag_library \<Rightarrow> int64 \<Rightarrow> (string \<rightharpoonup> string) \<Rightarrow> string \<Rightarrow> ('f cobra_command \<Rightarrow> 'f hook) \<Rightarrow> 'f cobra_command \<Rightarrow>
     'f process \<Rightarrow> 'f ending option" where
  "main lib gomaxprocs getenv goos Execute cmd st =
     (case GetRootCommand lib gomaxprocs getenv goos of
        Panic msg \<Rightarrow> Some (Crash msg)
      | Ret (Inl _) \<Rightarrow> Some (Exit 1 (with_logger st))
      | Ret (Inr _) \<Rightarrow>
          (case Execute cmd (with_logger st) of
             None \<Rightarrow> None
           | Some (Panic msg) \<Rightarrow> Some (Crash msg)
           | Some (Ret (Some _, st')) \<Rightarrow> Some (Exit 1 st')
           | Some (Ret (None, st')) \<Rightarrow> Some (Exit 0 st')))"

text \<open>The documented order of the functions of a command, which ends at the first error.\<close>

fun run_hooks :: "'f hook list \<Rightarrow> 'f hook" where
  "run_hooks [] st = Some (Ret (None, st))"
| "run_hooks (h # hs) st =
     (case h st of
        Some (Ret (None, st')) \<Rightarrow> run_hooks hs st'
      | r \<Rightarrow> r)"

definition cobra_order :: "('f cobra_command \<Rightarrow> 'f hook) \<Rightarrow> bool" where
  "cobra_order Execute \<longleftrightarrow> (\<forall>cmd st. Execute cmd st =
     run_hooks [Args cmd, PersistentPreRunE cmd, PreRunE cmd, RunE cmd, PersistentPostRunE cmd] st)"

section \<open>Around a command\<close>

lemma GetRootCommand_built:
  assumes "flag_laws lib view"
  shows "\<exists>cmds. GetRootCommand lib p getenv goos = Ret (Inr cmds)"
proof -
  obtain s where "root_GetCommand lib p getenv goos = Ret (Inr (s, ViperInit))"
    using root_GetCommand_view [OF assms] by blast
  moreover obtain s' where "BindPersistentPFlags lib (NewCommand lib) = (None, s')"
    using assms unfolding flag_laws_def by blast
  ultimately show ?thesis by (simp add: GetRootCommand_def multifile_GetCommand_def)
qed

text \<open>The settings that a command sees after the first function.\<close>

definition effective_settings :: "(opt \<Rightarrow> bool) \<Rightarrow> settings \<Rightarrow> go_error + settings" where
  "effective_settings changed cfg =
     map_sum id (\<lambda>c. if GetBool c OptExtract then c\<lparr>GetString := (GetString c)(OptOutputConsumer := ''tar-extractor'')\<rparr> else c)
       (chunk_size_flags changed (fst (PersistentStartupProcessFlags cfg)))"

text \<open>The path of the PID file of a process, and the files once the process has locked its own.\<close>

definition pid_file :: "'f process \<Rightarrow> string" where
  "pid_file st = GetString (pr_cfg st) OptPIDFile"

lemma pid_file_logger [simp]: "pid_file (with_logger st) = pid_file st"
  by (simp add: pid_file_def)

definition locked :: "int64 \<Rightarrow> string \<Rightarrow> pid_files \<Rightarrow> pid_files" where
  "locked pid path files = files(path := (files path)\<lparr>pf_lock := Some pid,
     pf_content := int_dec pid @ drop (length (int_dec pid)) (pf_content (files path))\<rparr>)"

lemma locked_lock [simp]: "pf_lock (locked pid path files path) = Some pid"
  by (simp add: locked_def)

lemma startup_pid_path [simp]: "GetString (fst (PersistentStartupProcessFlags cfg)) OptPIDFile = GetString cfg OptPIDFile"
  by (simp add: PersistentStartupProcessFlags_def Let_def)

text \<open>An invocation of a command that locks the PID file, whose system calls on that file succeed.\<close>

definition locking :: "invocation \<Rightarrow> bool" where
  "locking iv \<longleftrightarrow> inv_calledAs iv \<noteq> VersionCMDName \<and> (\<forall>path. inv_open iv path = None) \<and> inv_sync iv = None \<and> inv_close iv = None"

lemma pre_run_locks:
  assumes "locking iv"
  shows "persistent_pre_run iv st =
     (if pf_lock (pr_pids st (pid_file st)) \<in> {None, Some (inv_pid iv)}
      then Some (Ret (case effective_settings (inv_changed iv) (pr_cfg st) of
        Inl err \<Rightarrow> (Some err, st\<lparr>pr_cfg := fst (PersistentStartupProcessFlags (pr_cfg st)),
          pr_level := Some (snd (PersistentStartupProcessFlags (pr_cfg st))),
          pr_pids := locked (inv_pid iv) (pid_file st) (pr_pids st), pr_pidFile := Some \<lparr>pid_path = pid_file st\<rparr>\<rparr>)
      | Inr cfg \<Rightarrow> (None, st\<lparr>pr_cfg := cfg, pr_level := Some (snd (PersistentStartupProcessFlags (pr_cfg st))),
          pr_pids := locked (inv_pid iv) (pid_file st) (pr_pids st), pr_pidFile := Some \<lparr>pid_path = pid_file st\<rparr>\<rparr>)))
      else None)"
proof -
  obtain cfg1 level where c: "PersistentStartupProcessFlags (pr_cfg st) = (cfg1, level)" by fastforce
  then have "GetString cfg1 OptPIDFile = pid_file st" using startup_pid_path [of "pr_cfg st"] by (simp add: pid_file_def)
  then show ?thesis using assms c
    by (auto simp: locking_def persistent_pre_run_def rootPersistentPreRunEFunc_def pidFlock_def NewPIDFile_def Acquire_cases
        locked_def effective_settings_def Let_def split: sum.splits)
qed

lemma pre_run_version:
  assumes "inv_calledAs iv = VersionCMDName"
  shows "persistent_pre_run iv st = Some (Ret (case effective_settings (inv_changed iv) (pr_cfg st) of
      Inl err \<Rightarrow> (Some err, st\<lparr>pr_cfg := fst (PersistentStartupProcessFlags (pr_cfg st)),
        pr_level := Some (snd (PersistentStartupProcessFlags (pr_cfg st)))\<rparr>)
    | Inr cfg \<Rightarrow> (None, st\<lparr>pr_cfg := cfg, pr_level := Some (snd (PersistentStartupProcessFlags (pr_cfg st)))\<rparr>)))"
  using assms
  by (auto simp: persistent_pre_run_def rootPersistentPreRunEFunc_def effective_settings_def Let_def
      split: prod.splits sum.splits)

lemma post_run_releases:
  "inv_close iv = None \<Longrightarrow> pr_pidFile st = Some p \<Longrightarrow> pf_lock (pr_pids st (pid_path p)) = Some (inv_pid iv) \<Longrightarrow>
     persistent_post_run iv st = Some (Ret (None, st\<lparr>pr_pids := (pr_pids st)(pid_path p := (pr_pids st (pid_path p))\<lparr>pf_lock := None\<rparr>)\<rparr>))"
  by (simp add: persistent_post_run_def rootPersistentPostRunEFunc_def Release_cases)

lemma post_run_not_locked: "pr_pidFile st = None \<Longrightarrow> persistent_post_run iv st = Some (Ret (None, st))"
  by (simp add: persistent_post_run_def rootPersistentPostRunEFunc_def)

lemma main_executes:
  assumes "flag_laws lib view" "cobra_order Execute"
  shows "main lib p getenv goos Execute cmd st =
     (case run_hooks [Args cmd, PersistentPreRunE cmd, PreRunE cmd, RunE cmd, PersistentPostRunE cmd] (with_logger st) of
        None \<Rightarrow> None
      | Some (Panic msg) \<Rightarrow> Some (Crash msg)
      | Some (Ret (Some _, st')) \<Rightarrow> Some (Exit 1 st')
      | Some (Ret (None, st')) \<Rightarrow> Some (Exit 0 st'))"
proof -
  obtain cmds where "GetRootCommand lib p getenv goos = Ret (Inr cmds)" using GetRootCommand_built [OF assms(1)] by blast
  then show ?thesis using assms(2) by (simp add: main_def cobra_order_def del: run_hooks.simps)
qed

text \<open>A file command that may lock: what its own run returns decides, and the lock is given back exactly
  after a success.\<close>

lemma main_file_command:
  assumes "flag_laws lib view" "cobra_order Execute" "locking iv" "pf_lock (pr_pids st (pid_file st)) = None"
    and "effective_settings (inv_changed iv) (pr_cfg st) = Inr cfg"
    and "\<And>st'. pr_cfg st' = pr_cfg st \<Longrightarrow> Args cmd st' = Some (Ret (None, st'))" "PersistentPreRunE cmd = persistent_pre_run iv"
    and "\<And>st. pr_cfg st = cfg \<Longrightarrow> PreRunE cmd st = Some (Ret (None, st))"
    and "RunE cmd = run_files run" "PersistentPostRunE cmd = persistent_post_run iv"
    and "run cfg (pr_fs st) = Some (Ret (err, fs, ms))"
  shows "\<exists>st'. main lib p getenv goos Execute cmd st = Some (Exit (if err = None then 0 else 1) st') \<and> pr_fs st' = fs \<and>
     pr_metrics st' = pr_metrics st @ ms \<and>
     pf_lock (pr_pids st' (pid_file st)) = (if err = None then None else Some (inv_pid iv))"
proof -
  have c: "inv_close iv = None" using assms(3) by (simp add: locking_def)
  let ?st1 = "(with_logger st)\<lparr>pr_cfg := cfg, pr_level := Some (snd (PersistentStartupProcessFlags (pr_cfg st))),
    pr_pids := locked (inv_pid iv) (pid_file st) (pr_pids st), pr_pidFile := Some \<lparr>pid_path = pid_file st\<rparr>\<rparr>"
  have "persistent_pre_run iv (with_logger st) = Some (Ret (None, ?st1))"
    by (simp add: pre_run_locks [OF assms(3)] assms(4,5))
  moreover have "persistent_post_run iv (?st1\<lparr>pr_fs := fs, pr_metrics := pr_metrics st @ ms\<rparr>) =
      Some (Ret (None, ?st1\<lparr>pr_fs := fs, pr_metrics := pr_metrics st @ ms,
        pr_pids := (locked (inv_pid iv) (pid_file st) (pr_pids st))
          (pid_file st := (locked (inv_pid iv) (pid_file st) (pr_pids st) (pid_file st))\<lparr>pf_lock := None\<rparr>)\<rparr>))"
    by (subst post_run_releases [OF c, where p = "\<lparr>pid_path = pid_file st\<rparr>"]) (simp_all add: PIDFile.select_convs)
  ultimately show ?thesis
    using assms(6,8,11) by (cases err) (simp_all add: main_executes [OF assms(1,2)] assms(7,9,10) run_files_def)
qed

lemma main_file_command_stuck:
  assumes "flag_laws lib view" "cobra_order Execute" "locking iv" "pf_lock (pr_pids st (pid_file st)) = None"
    and "effective_settings (inv_changed iv) (pr_cfg st) = Inr cfg"
    and "\<And>st'. pr_cfg st' = pr_cfg st \<Longrightarrow> Args cmd st' = Some (Ret (None, st'))" "PersistentPreRunE cmd = persistent_pre_run iv"
    and "\<And>st. pr_cfg st = cfg \<Longrightarrow> PreRunE cmd st = Some (Ret (None, st))"
    and "RunE cmd = run_files run" "run cfg (pr_fs st) = None"
  shows "main lib p getenv goos Execute cmd st = None"
  using assms(6,8,10) by (simp add: main_executes [OF assms(1,2)] assms(4,5,7,9) pre_run_locks [OF assms(3)] run_files_def)

section \<open>Properties\<close>

text \<open>C1. From the arguments to the file, with the file consumer, at least one worker (the option for the
  concurrency is positive, or 0 for four workers per processor) and a file system without symbolic
  or hard links: with a server that honours range requests, or cache nodes that serve ranges
  completely or fail over to such a server (then with chunks of at most a slice), a free lock and a
  destination that can be written, the process refuses an existing destination without \<open>--force\<close>
  with status 1 and changes no file; otherwise it ends with status 0, the destination holds exactly
  the content, no other file changed, and the lock is free again.\<close>

theorem main_downloads_file:
  assumes "flag_laws lib view" "cobra_order Execute" "locking iv" "inv_args iv = [url, dest]"
    and "pf_lock (pr_pids st (pid_file st)) = None" "effective_settings (inv_changed iv) (pr_cfg st) = Inr cfg"
    and "root_setup env cfg = Ret (Inr (c, d))" "GetString cfg OptOutputConsumer = ''file''"
    and "downloader_ready su d url content" "plain_fs (pr_fs st)" "can_write (pr_fs st) dest"
  shows "\<exists>n st'. main lib p getenv goos Execute (root_command env su archive iv) st = Some (Exit n st') \<and>
     (if \<not> GetBool cfg OptForce \<and> os_Stat (pr_fs st) dest = None
      then n = 1 \<and> pr_fs st' = pr_fs st
      else n = 0 \<and> read_file (pr_fs st') dest = Some content \<and> pf_lock (pr_pids st' (pid_file st)) = None \<and>
        (\<forall>q. q \<noteq> place (fs_cwd (pr_fs st)) dest \<longrightarrow> file_at (pr_fs st') q = file_at (pr_fs st) q))"
proof -
  let ?run = "\<lambda>cfg fs. runRootCMD env su archive cfg fs [url, dest]" and ?cmd = "root_command env su archive iv"
  have args: "Args ?cmd st' = Some (Ret (None, st'))" for st'
    using assms(4) by (simp add: root_command_def check_args_def validateArgs_def)
  have hooks: "PersistentPreRunE ?cmd = persistent_pre_run iv" "RunE ?cmd = run_files ?run"
    "PersistentPostRunE ?cmd = persistent_post_run iv" "PreRunE ?cmd st = Some (Ret (None, st))" for st
    using assms(4) by (simp_all add: root_command_def no_hook_def)
  note run = root_command_writes_file [OF assms(7-11), of archive]
  note cmd = main_file_command [where run = ?run and p = p and getenv = getenv and goos = goos, OF assms(1-3,5,6) args hooks(1) hooks(4) hooks(2,3)]
  show ?thesis
  proof (cases "\<not> GetBool cfg OptForce \<and> os_Stat (pr_fs st) dest = None")
    case True
    then have "?run cfg (pr_fs st) = Some (Ret (Some (Errorf (''destination '' @ dest @ '' already exists'')), pr_fs st, []))"
      using run by simp
    from cmd [OF this] True show ?thesis by auto
  next
    case False
    then obtain fs ms where r: "?run cfg (pr_fs st) = Some (Ret (None, fs, ms))" "read_file fs dest = Some content"
      "\<forall>q. q \<noteq> place (fs_cwd (pr_fs st)) dest \<longrightarrow> file_at fs q = file_at (pr_fs st) q"
      using run by auto
    from cmd [OF r(1)] r(2,3) False show ?thesis by auto
  qed
qed

text \<open>C2. From a manifest to the files, with the file consumer, at least one worker and a file system without
  symbolic or hard links: if the manifest is accepted, its files can be delivered by servers or cache
  nodes as for a single file, and its destinations are different places that can be written, then whatever the interleaving of the
  downloads, a process that ends has status 0, every destination holds exactly the content of its
  URL, and the lock is free again.\<close>

theorem main_downloads_manifest:
  assumes "flag_laws lib view" "cobra_order Execute" "locking iv" "inv_args iv = [path]"
    and "pf_lock (pr_pids st (pid_file st)) = None" "effective_settings (inv_changed iv) (pr_cfg st) = Inr cfg"
    and "manifestFile (os_Stat (pr_fs st)) opened path = Inr file"
    and "parseManifest (ParseURL env) cfg (os_Stat (pr_fs st)) (read_input file) = Inr manifest"
    and "multifile_setup env cfg = Ret (Inr (c, d))" "GetString cfg OptOutputConsumer = ''file''" "\<not> GetBool cfg OptExtract"
    and "\<forall>e \<in> set manifest. downloader_ready (sus False (me_URL e)) d (me_URL e) (content (me_URL e)) \<and>
           can_write (pr_fs st) (me_Dest e)"
    and "plain_fs (pr_fs st)" "places_differ (fs_cwd (pr_fs st)) manifest"
    and "main lib p getenv goos Execute (multifile_command env su sus archive opened read_input events iv) st = Some e"
  shows "\<exists>st'. e = Exit 0 st' \<and> pf_lock (pr_pids st' (pid_file st)) = None \<and>
     (\<forall>e \<in> set manifest. read_file (pr_fs st') (me_Dest e) = Some (content (me_URL e)))"
proof -
  let ?run = "\<lambda>cfg fs. runMultifileCMD env su sus archive cfg opened read_input events fs [path]"
  let ?cmd = "multifile_command env su sus archive opened read_input events iv"
  have args: "Args ?cmd st' = Some (Ret (None, st'))" for st' using assms(4) by (simp add: multifile_command_def check_args_def)
  have hooks: "PersistentPreRunE ?cmd = persistent_pre_run iv" "RunE ?cmd = run_files ?run"
    "PersistentPostRunE ?cmd = persistent_post_run iv"
    using assms(4) by (simp_all add: multifile_command_def)
  have pre: "pr_cfg st = cfg \<Longrightarrow> PreRunE ?cmd st = Some (Ret (None, st))" for st
    using assms(10,11) by (simp add: multifile_command_def multifilePreRunE_def)
  obtain r where r: "?run cfg (pr_fs st) = Some r"
    using main_file_command_stuck [where run = ?run and p = p and getenv = getenv and goos = goos,
        OF assms(1-3,5,6) args hooks(1) pre hooks(2)] assms(15) by fastforce
  then obtain fs ms where "?run cfg (pr_fs st) = Some (Ret (None, fs, ms))"
    and c: "\<forall>e \<in> set manifest. read_file fs (me_Dest e) = Some (content (me_URL e))"
    using multifile_command_writes_files [OF r assms(7-10,12-14)] by blast
  from main_file_command [where run = ?run and p = p and getenv = getenv and goos = goos,
      OF assms(1-3,5,6) args hooks(1) pre hooks(2,3) this(1)] c assms(15)
  show ?thesis by auto
qed

text \<open>C3. With a negative concurrency, which the program accepts, no worker is started: whatever the servers
  would answer, a process that gets as far as its first download stays in the submission of its job
  and never returns from \<open>main\<close>, for one file and for every manifest with an entry, in every
  interleaving. (A process in which no goroutine can go on may be aborted by the runtime of Go.)\<close>

theorem main_blocks_without_workers:
  assumes "flag_laws lib view" "cobra_order Execute" "locking iv" "pf_lock (pr_pids st (pid_file st)) = None"
    and "effective_settings (inv_changed iv) (pr_cfg st) = Inr cfg" "GetInt cfg OptConcurrency < 0"
  shows "(inv_args iv = [url, dest] \<and> root_setup env cfg = Ret (Inr (c, d)) \<and> url_parse (su_env su) url = Inr u \<and>
        (GetString cfg OptOutputConsumer = ''null'' \<or> EnsureDestinationNotExist cfg (os_Stat (pr_fs st)) dest = None) \<longrightarrow>
      main lib p getenv goos Execute (root_command env su archive iv) st = None) \<and>
    (inv_args iv = [path] \<and> manifestFile (os_Stat (pr_fs st)) opened path = Inr file \<and>
        parseManifest (ParseURL env) cfg (os_Stat (pr_fs st)) (read_input file) = Inr manifest \<and> manifest \<noteq> [] \<and>
        multifile_setup env cfg = Ret (Inr (c, d)) \<and> multifilePreRunE cfg = None \<and>
        (\<forall>c. \<forall>e \<in> set manifest. \<exists>u. url_parse (su_env (sus c (me_URL e))) (me_URL e) = Inr u) \<longrightarrow>
      main lib p getenv goos Execute (multifile_command env su sus archive opened read_input events iv) st = None)"
proof (intro conjI impI; elim conjE)
  have w: "option_workers env cfg \<le> 0" using assms(6) by (simp add: option_workers_def)
  note stuck = main_file_command_stuck [where p = p and getenv = getenv and goos = goos, OF assms(1-5)]
  assume r: "inv_args iv = [url, dest]" "root_setup env cfg = Ret (Inr (c, d))" "url_parse (su_env su) url = Inr u"
    "GetString cfg OptOutputConsumer = ''null'' \<or> EnsureDestinationNotExist cfg (os_Stat (pr_fs st)) dest = None"
  let ?run = "\<lambda>cfg fs. runRootCMD env su archive cfg fs (inv_args iv)"
  have run: "?run cfg (pr_fs st) = None" using r(1,4) rootExecute_stuck [OF r(2) w r(3)] by (auto simp: runRootCMD_def)
  show "main lib p getenv goos Execute (root_command env su archive iv) st = None"
    by (rule stuck [where run = ?run, OF _ _ _ _ run])
       (simp_all add: root_command_def check_args_def validateArgs_def no_hook_def r(1))
next
  have w: "option_workers env cfg \<le> 0" using assms(6) by (simp add: option_workers_def)
  note stuck = main_file_command_stuck [where p = p and getenv = getenv and goos = goos, OF assms(1-5)]
  assume r: "inv_args iv = [path]" "manifestFile (os_Stat (pr_fs st)) opened path = Inr file"
    "parseManifest (ParseURL env) cfg (os_Stat (pr_fs st)) (read_input file) = Inr manifest" "manifest \<noteq> []"
    "multifile_setup env cfg = Ret (Inr (c, d))" "multifilePreRunE cfg = None"
    "\<forall>c. \<forall>e \<in> set manifest. \<exists>u. url_parse (su_env (sus c (me_URL e))) (me_URL e) = Inr u"
  let ?run = "\<lambda>cfg fs. runMultifileCMD env su sus archive cfg opened read_input events fs (inv_args iv)"
  have run: "?run cfg (pr_fs st) = None"
    using r(1-3) multifileExecute_stuck [OF r(5) w r(4) r(7)] by (simp add: runMultifileCMD_def)
  show "main lib p getenv goos Execute (multifile_command env su sus archive opened read_input events iv) st = None"
    by (rule stuck [where run = ?run, OF _ _ _ _ run])
       (simp_all add: multifile_command_def check_args_def r(1,6))
qed

text \<open>What every function of a command keeps, the command keeps.\<close>

lemma run_hooks_stop: "(\<And>st1. h st \<noteq> Some (Ret (None, st1))) \<Longrightarrow> run_hooks (h # hs) st = h st"
  by (cases "h st") (auto split: outcome.splits option.splits)

lemma run_hooks_inv:
  assumes "\<forall>h \<in> set hs. \<forall>st err st'. P st \<longrightarrow> h st = Some (Ret (err, st')) \<longrightarrow> P st'" "P st"
    and "run_hooks hs st = Some (Ret (err, st'))"
  shows "P st'"
  using assms
proof (induction hs arbitrary: st)
  case Nil
  then show ?case by simp
next
  case (Cons h hs)
  have "\<forall>st err st'. P st \<longrightarrow> h st = Some (Ret (err, st')) \<longrightarrow> P st'" using Cons.prems(1) list.set_intros(1) by (rule bspec)
  then have step: "P s \<Longrightarrow> h s = Some (Ret (e, s')) \<Longrightarrow> P s'" for s e s' by blast
  have rest: "\<forall>h \<in> set hs. \<forall>st err st'. P st \<longrightarrow> h st = Some (Ret (err, st')) \<longrightarrow> P st'"
    using Cons.prems(1) by (intro ballI) (erule bspec, simp)
  show ?case
  proof (cases "\<exists>st1. h st = Some (Ret (None, st1))")
    case True
    then obtain st1 where h: "h st = Some (Ret (None, st1))" by blast
    have "run_hooks hs st1 = Some (Ret (err, st'))" using Cons.prems(3) h by simp
    then show ?thesis by (rule Cons.IH [OF rest step [OF Cons.prems(2) h]])
  next
    case False
    then have "h st = Some (Ret (err, st'))" using Cons.prems(3) run_hooks_stop [of h st hs] by simp
    with step [OF Cons.prems(2)] show ?thesis by blast
  qed
qed

definition fs_hook :: "'f hook \<Rightarrow> bool" where
  "fs_hook h \<longleftrightarrow> (\<forall>st err st'. fs_ok (pr_fs st) \<longrightarrow> h st = Some (Ret (err, st')) \<longrightarrow> fs_ok (pr_fs st'))"

lemma fs_hooks:
  "fs_hook no_hook" "fs_hook (check_args iv ok)" "fs_hook (persistent_pre_run iv)" "fs_hook (persistent_post_run iv)"
  "fs_hook (\<lambda>st. Some (Ret (f st, st)))" "fs_hook (\<lambda>st. Some (Ret (None, st\<lparr>pr_stdout := out st\<rparr>)))"
  by (auto simp: fs_hook_def no_hook_def check_args_def persistent_pre_run_def persistent_post_run_def Let_def
      split: option.splits prod.splits)

lemma fs_hook_run:
  assumes "\<And>cfg fs err fs' ms. fs_ok fs \<Longrightarrow> run cfg fs = Some (Ret (err, fs', ms)) \<Longrightarrow> fs_ok fs'"
  shows "fs_hook (run_files run)"
  using assms by (auto simp: fs_hook_def run_files_def split: option.splits outcome.splits prod.splits)

lemma command_fs_hooks:
  assumes "cmd \<in> {root_command env su archive iv, multifile_command env su sus archive opened read_input events iv,
     version_command info iv}"
  shows "\<forall>h \<in> set [Args cmd, PersistentPreRunE cmd, PreRunE cmd, RunE cmd, PersistentPostRunE cmd]. fs_hook h"
proof -
  have "fs_hook (run_files (\<lambda>cfg fs. runRootCMD env su archive cfg fs (inv_args iv)))"
    by (rule fs_hook_run) (use commands_keep_tree in blast)
  moreover have "fs_hook (run_files (\<lambda>cfg fs. runMultifileCMD env su sus archive cfg opened read_input events fs (inv_args iv)))"
    by (rule fs_hook_run) (use commands_keep_tree in blast)
  ultimately show ?thesis
    using assms fs_hooks by (auto simp: root_command_def multifile_command_def version_command_def)
qed

text \<open>Whatever the command, its arguments, the answers of the servers, the archives and the interleaving of the
  downloads, and whatever the exit status, the process leaves a well-formed file system: every name
  is a plain component below a directory, and every file has an inode that was allotted.\<close>

theorem main_keeps_tree:
  assumes "cobra_order Execute" "fs_ok (pr_fs st)"
    and "cmd \<in> {root_command env su archive iv, multifile_command env su sus archive opened read_input events iv,
       version_command info iv}"
    and "main lib p getenv goos Execute cmd st = Some (Exit n st')"
  shows "fs_ok (pr_fs st')"
proof (cases "\<exists>err. Execute cmd (with_logger st) = Some (Ret (err, st'))")
  case True
  then obtain err where "run_hooks [Args cmd, PersistentPreRunE cmd, PreRunE cmd, RunE cmd, PersistentPostRunE cmd] (with_logger st) =
      Some (Ret (err, st'))"
    using assms(1) unfolding cobra_order_def by metis
  moreover have "fs_ok (pr_fs (with_logger st))" using assms(2) by simp
  ultimately show ?thesis using run_hooks_inv [where P = "\<lambda>st. fs_ok (pr_fs st)"] command_fs_hooks [OF assms(3)]
    unfolding fs_hook_def by blast
next
  case False
  then have "st' = with_logger st" using assms(4) by (auto simp: main_def split: option.splits outcome.splits sum.splits)
  then show ?thesis using assms(2) by simp
qed

text \<open>A command for downloads does not start while another process holds the lock: with the right number of
  arguments it waits, before it reads a manifest or contacts a server, and with a wrong number it
  ends with status 1. The version command does not need the lock and prints its line.\<close>

theorem main_waits_for_lock:
  assumes "flag_laws lib view" "cobra_order Execute" "locking iv"
    and "pf_lock (pr_pids st (pid_file st)) = Some q" "q \<noteq> inv_pid iv" "pr_pidFile st = None"
  shows "main lib p getenv goos Execute (root_command env su archive iv) st =
       (if validateArgs (pr_cfg st) (inv_args iv) then None else Some (Exit 1 (with_logger st))) \<and>
     main lib p getenv goos Execute (multifile_command env su sus archive opened read_input events iv) st =
       (if length (inv_args iv) = 1 then None else Some (Exit 1 (with_logger st))) \<and>
     (\<exists>st'. main lib p getenv goos Execute
         (version_command info (iv\<lparr>inv_calledAs := VersionCMDName, inv_changed := \<lambda>_. False\<rparr>)) st = Some (Exit 0 st') \<and>
       pr_stdout st' = pr_stdout st @ VersionCMD info \<and> pr_fs st' = pr_fs st \<and> pr_pids st' = pr_pids st)"
proof -
  let ?iv = "iv\<lparr>inv_calledAs := VersionCMDName, inv_changed := \<lambda>_. False\<rparr>"
  have wait: "persistent_pre_run iv (with_logger st) = None" using assms(4,5) by (simp add: pre_run_locks [OF assms(3)])
  obtain cfg where "effective_settings (\<lambda>_. False) (pr_cfg st) = Inr cfg"
    using chunk_size_flags_value [of "\<lambda>_. False" "fst (PersistentStartupProcessFlags (pr_cfg st))"]
    by (auto simp: effective_settings_def)
  then have "persistent_pre_run ?iv (with_logger st) = Some (Ret (None, (with_logger st)\<lparr>pr_cfg := cfg,
      pr_level := Some (snd (PersistentStartupProcessFlags (pr_cfg st)))\<rparr>))"
    by (simp add: pre_run_version)
  then show ?thesis using wait assms(6)
    by (simp add: main_executes [OF assms(1,2)] root_command_def multifile_command_def version_command_def check_args_def
        no_hook_def post_run_not_locked)
qed

section \<open>Examples\<close>

definition example_process :: "int process" where
  "example_process =
     \<lparr>pr_cfg = example_settings ''file'', pr_level = None, pr_pids = (\<lambda>_. \<lparr>pf_content = '''', pf_lock = None\<rparr>),
      pr_pidFile = None, pr_fs = empty_fs, pr_metrics = [], pr_stdout = '''', pr_logger = None\<rparr>"

definition example_invocation :: "string list \<Rightarrow> invocation" where
  "example_invocation args =
     \<lparr>inv_calledAs = ''rpget'', inv_args = args, inv_changed = (\<lambda>_. False), inv_args_error = Errorf ''wrong arguments'',
      inv_pid = 7, inv_open = (\<lambda>_. None), inv_sync = None, inv_close = None\<rparr>"

definition example_execute :: "'f cobra_command \<Rightarrow> 'f hook" where
  "example_execute cmd = run_hooks [Args cmd, PersistentPreRunE cmd, PreRunE cmd, RunE cmd, PersistentPostRunE cmd]"

lemma example_order: "cobra_order example_execute"
  by (simp add: cobra_order_def example_execute_def)

lemma example_locking: "locking (example_invocation args)"
  by (simp add: locking_def example_invocation_def VersionCMDName_def)

lemma example_effective: "effective_settings (\<lambda>_. False) (example_settings ''file'') = Inr (example_settings ''file'')"
  by (simp add: effective_settings_def chunk_size_flags_def PersistentStartupProcessFlags_def example_settings_def)

lemma example_destination: "can_write empty_fs ''/f'' \<and> os_Stat empty_fs ''/f'' \<noteq> None"
proof -
  have w: "can_write empty_fs ''/f''" using two_files_free by (simp add: two_files_def dest_free_def)
  moreover have "file_at empty_fs p = None" for p by (cases "p = []") (simp_all add: file_at_def node_at_def empty_fs_def)
  ultimately show ?thesis using can_write_stat [OF w empty_fs_plain] by auto
qed

theorem main_downloads_file_witness:
  "\<exists>st'. main example_library 4 Map.empty ''linux'' example_execute
       (root_command example_command_env example_surroundings (\<lambda>_ _. Inl (Errorf ''''))
          (example_invocation [''weights.example.com/a'', ''/f''])) example_process = Some (Exit 0 st') \<and>
     read_file (pr_fs st') ''/f'' = Some [1, 2, 3, 4, 5, 6, 7] \<and> pf_lock (pr_pids st' (pid_file example_process)) = None"
proof -
  let ?iv = "example_invocation [''weights.example.com/a'', ''/f'']"
  obtain m q where m: "root_setup example_command_env (example_settings ''file'') = Ret (Inr (FileWriter False, Buffering m q))"
    "ChunkSize (bm_opts m) = 3" "CacheHosts (bm_opts m) = None" "hc_headers (bm_Client m) = []" "concurrency q = 16"
    using example_root_setup by blast
  have a: "inv_args ?iv = [''weights.example.com/a'', ''/f'']" "pf_lock (pr_pids example_process (pid_file example_process)) = None"
    "effective_settings (inv_changed ?iv) (pr_cfg example_process) = Inr (example_settings ''file'')"
    "GetString (example_settings ''file'') OptOutputConsumer = ''file''"
    "plain_fs (pr_fs example_process)" "can_write (pr_fs example_process) ''/f''"
    using example_effective empty_fs_plain example_destination
    by (simp_all add: example_invocation_def example_process_def) (simp add: example_settings_def)
  show ?thesis
    using main_downloads_file [OF example_flag_laws example_order example_locking a(1-3) m(1) a(4)
        example_buffering_ready [OF m(2-5)] a(5,6)] example_destination
    by (fastforce simp: example_process_def)
qed

theorem main_waits_for_lock_witness:
  "main example_library 4 Map.empty ''linux'' example_execute
     (root_command example_command_env example_surroundings (\<lambda>_ _. Inl (Errorf '''')) (example_invocation [''u'', ''/f'']))
     (example_process\<lparr>pr_pids := \<lambda>_. \<lparr>pf_content = ''9'', pf_lock = Some 9\<rparr>\<rparr>) = None"
  using main_waits_for_lock [OF example_flag_laws example_order example_locking [of "[''u'', ''/f'']"],
      of "example_process\<lparr>pr_pids := \<lambda>_. \<lparr>pf_content = ''9'', pf_lock = Some 9\<rparr>\<rparr>" 9 4 Map.empty "''linux''"
        example_command_env example_surroundings "\<lambda>_ _. Inl (Errorf '''')"]
  by (simp add: example_process_def example_invocation_def validateArgs_def example_settings_def)

lemma example_run:
  "\<exists>st'. main example_library 4 Map.empty ''linux'' example_execute
       (root_command example_command_env example_surroundings (\<lambda>_ _. Inl (Errorf ''''))
          (example_invocation [''weights.example.com/a'', ''/f''])) example_process = Some (Exit 0 st')"
proof -
  let ?iv = "example_invocation [''weights.example.com/a'', ''/f'']"
  let ?cmd = "root_command example_command_env example_surroundings (\<lambda>_ _. Inl (Errorf '''')) ?iv"
  let ?run = "\<lambda>cfg fs. runRootCMD example_command_env example_surroundings (\<lambda>_ _. Inl (Errorf '''')) cfg fs (inv_args ?iv)"
  obtain fs ms where run: "?run (example_settings ''file'') (pr_fs example_process) = Some (Ret (None, fs, ms))"
    using root_command_writes_file_witness by (auto simp: example_process_def example_invocation_def)
  have a: "pf_lock (pr_pids example_process (pid_file example_process)) = None"
    "effective_settings (inv_changed ?iv) (pr_cfg example_process) = Inr (example_settings ''file'')"
    using example_effective by (simp_all add: example_process_def example_invocation_def)
  have h: "Args ?cmd st = Some (Ret (None, st))" "PersistentPreRunE ?cmd = persistent_pre_run ?iv"
    "PreRunE ?cmd st = Some (Ret (None, st))" "RunE ?cmd = run_files ?run" "PersistentPostRunE ?cmd = persistent_post_run ?iv" for st
    by (simp_all add: root_command_def no_hook_def check_args_def validateArgs_def) (simp add: example_invocation_def)
  show ?thesis
    using main_file_command [where run = ?run and p = 4 and getenv = Map.empty and goos = "''linux''",
        OF example_flag_laws example_order example_locking a h(1,2,3,4,5) run] by auto
qed

theorem main_keeps_tree_witness:
  "\<exists>st'. main example_library 4 Map.empty ''linux'' example_execute
       (root_command example_command_env example_surroundings (\<lambda>_ _. Inl (Errorf ''''))
          (example_invocation [''weights.example.com/a'', ''/f''])) example_process = Some (Exit 0 st') \<and> fs_ok (pr_fs st')"
proof -
  have "fs_ok (pr_fs example_process)" by (simp add: fs_ok_def empty_fs_def example_process_def)
  then show ?thesis using example_run main_keeps_tree [OF example_order] by blast
qed

theorem main_downloads_manifest_witness:
  "\<exists>events st'. main example_library 4 Map.empty ''linux'' example_execute
       (multifile_command example_command_env example_surroundings (\<lambda>_ _. example_surroundings) (\<lambda>_ _. Inl (Errorf ''''))
          (\<lambda>_. None) (\<lambda>_. print_manifest two_files) events (example_invocation [''-''])) example_process = Some (Exit 0 st') \<and>
     read_file (pr_fs st') ''/g'' = Some [1, 2, 3, 4, 5, 6, 7]"
proof -
  let ?iv = "example_invocation [''-'']" and ?cfg = "example_settings ''file''"
  let ?run = "\<lambda>events cfg fs. runMultifileCMD example_command_env example_surroundings (\<lambda>_ _. example_surroundings)
    (\<lambda>_ _. Inl (Errorf '''')) cfg (\<lambda>_. None) (\<lambda>_. print_manifest two_files) events fs (inv_args ?iv)"
  obtain events fs ms where run: "?run events ?cfg (pr_fs example_process) = Some (Ret (None, fs, ms))"
    using multifile_command_writes_files_witness by (auto simp: example_process_def example_invocation_def)
  let ?cmd = "multifile_command example_command_env example_surroundings (\<lambda>_ _. example_surroundings) (\<lambda>_ _. Inl (Errorf ''''))
    (\<lambda>_. None) (\<lambda>_. print_manifest two_files) events ?iv"
  obtain m q where m: "multifile_setup example_command_env ?cfg = Ret (Inr (FileWriter False, Buffering m q))"
    "ChunkSize (bm_opts m) = 3" "CacheHosts (bm_opts m) = None" "hc_headers (bm_Client m) = []" "concurrency q = 16"
    using example_root_setup by blast
  have a: "inv_args ?iv = [''-'']" "pf_lock (pr_pids example_process (pid_file example_process)) = None"
    "effective_settings (inv_changed ?iv) (pr_cfg example_process) = Inr ?cfg"
    using example_effective by (simp_all add: example_invocation_def example_process_def)
  have s: "GetString ?cfg OptOutputConsumer = ''file''" "\<not> GetBool ?cfg OptExtract" by (simp_all add: example_settings_def)
  have f: "manifestFile (os_Stat (pr_fs example_process)) (\<lambda>_. None) ''-'' = Inr Stdin"
    "parseManifest (ParseURL example_command_env) ?cfg (os_Stat (pr_fs example_process))
       ((\<lambda>_. print_manifest two_files) Stdin) = Inr two_files" "plain_fs (pr_fs example_process)"
    "places_differ (fs_cwd (pr_fs example_process)) two_files"
    using example_two_entries empty_fs_plain two_files_differ
    by (simp_all add: manifestFile_def example_process_def example_command_env_def)
  have d: "\<forall>e \<in> set two_files. downloader_ready ((\<lambda>_ _. example_surroundings) False (me_URL e)) (Buffering m q) (me_URL e)
      ((\<lambda>_. [1, 2, 3, 4, 5, 6, 7]) (me_URL e)) \<and> can_write (pr_fs example_process) (me_Dest e)"
    using example_buffering_ready [OF m(2-5)] two_files_free by (auto simp: dest_free_def example_process_def)
  have "\<exists>st'. main example_library 4 Map.empty ''linux'' example_execute ?cmd example_process = Some (Exit 0 st')"
    using main_file_command [where run = "?run events" and cmd = ?cmd and p = 4 and getenv = Map.empty and goos = "''linux''",
        OF example_flag_laws example_order example_locking a(2,3) _ _ _ _ _ run] s
    by (fastforce simp: multifile_command_def check_args_def multifilePreRunE_def a(1))
  then obtain st' where r: "main example_library 4 Map.empty ''linux'' example_execute ?cmd example_process = Some (Exit 0 st')" by blast
  from main_downloads_manifest [OF example_flag_laws example_order example_locking a f(1,2) m(1) s d f(3,4) r] r
  show ?thesis by (auto simp: two_files_def)
qed

text \<open>The example process with a negative concurrency.\<close>

definition idle_settings :: settings where
  "idle_settings = (example_settings ''file'')\<lparr>GetInt := (\<lambda>_. 0)(OptConcurrency := - 1)\<rparr>"

lemma idle_setup: "\<exists>m q. root_setup example_command_env idle_settings = Ret (Inr (FileWriter False, Buffering m q))"
  by (simp add: root_setup_def example_command_env_def idle_settings_def example_settings_def ResolveOverridesToMap_def
      GetConsumer_def choose_downloader_def GetCacheSRV_def CacheServiceHostname_def example_parse_def GetBufferMode_def
      downloadOpts_def wrap64_def NewHTTPClient_def start_queue_def newWorkQueue_def wq_start_def chunkSize_def Let_def)

theorem main_blocks_without_workers_witness:
  "main example_library 4 Map.empty ''linux'' example_execute
     (root_command example_command_env example_surroundings (\<lambda>_ _. Inl (Errorf ''''))
        (example_invocation [''weights.example.com/a'', ''/f''])) (example_process\<lparr>pr_cfg := idle_settings\<rparr>) = None"
proof -
  let ?iv = "example_invocation [''weights.example.com/a'', ''/f'']" and ?st = "example_process\<lparr>pr_cfg := idle_settings\<rparr>"
  obtain m q where m: "root_setup example_command_env idle_settings = Ret (Inr (FileWriter False, Buffering m q))"
    using idle_setup by blast
  have a: "pf_lock (pr_pids ?st (pid_file ?st)) = None" "inv_args ?iv = [''weights.example.com/a'', ''/f'']"
    "GetInt idle_settings OptConcurrency < 0" "effective_settings (inv_changed ?iv) (pr_cfg ?st) = Inr idle_settings"
    by (simp_all add: example_process_def example_invocation_def idle_settings_def effective_settings_def
        chunk_size_flags_def PersistentStartupProcessFlags_def example_settings_def)
  have u: "url_parse (su_env example_surroundings) ''weights.example.com/a'' = Inr (example_url ''weights.example.com'' ''/a'')"
    by (simp add: example_surroundings_def example_env_def example_parse_def)
  have "file_at empty_fs p = None" for p by (cases "p = []") (simp_all add: file_at_def node_at_def empty_fs_def)
  then have d: "EnsureDestinationNotExist idle_settings (os_Stat (pr_fs ?st)) ''/f'' = None"
    using EnsureDestination_can_write [OF conjunct1 [OF example_destination] empty_fs_plain, of idle_settings]
    by (simp add: example_process_def)
  show ?thesis
    using conjunct1 [OF main_blocks_without_workers [OF example_flag_laws example_order example_locking a(1,4,3)],
        of "''weights.example.com/a''" "''/f''" example_command_env] a(2) m u d by blast
qed

end
