(* ===== verification/Redirects.thy ===== *)
theory Redirects
  imports Retry_Client
begin

text \<open>
  Model of \<open>checkRedirectFunc\<close> in pkg/client/client.go, and of how the HTTP client of the standard
  library follows redirects with it. The round trip to a server and the request that a redirecting
  response asks for are parameters.
\<close>

section \<open>Following redirects\<close>

text \<open>
  The policy is asked with the next request and those made so far, oldest first; the program only
  logs the first of them.
\<close>

type_synonym redirect_policy = "http_request \<Rightarrow> http_request list \<Rightarrow> go_error option outcome"

definition checkRedirectFunc :: redirect_policy where
  "checkRedirectFunc req via = (case via of [] \<Rightarrow> Panic ''index out of range'' | first # _ \<Rightarrow> Ret None)"

text \<open>The policy that the standard library applies if a client has none.\<close>

definition defaultCheckRedirect :: redirect_policy where
  "defaultCheckRedirect req via =
     Ret (if 10 \<le> length via then Some (Errorf ''stopped after 10 redirects'') else None)"

text \<open>
  What the standard library reads from a response: it is no redirect, or it is one with the next
  request, or its target cannot be made into a request.
\<close>

type_synonym redirection = "http_request \<Rightarrow> http_response \<Rightarrow> (go_error + http_request) option"

text \<open>\<open>http.Client.Do\<close>: it ends with the first response that is no redirect, or with an error.\<close>

partial_function (option) follow_redirects ::
  "redirect_policy \<Rightarrow> 'w http_client \<Rightarrow> redirection \<Rightarrow>
     'w \<Rightarrow> http_request \<Rightarrow> http_request list \<Rightarrow> ((go_error + http_response) outcome \<times> 'w) option" where
  "follow_redirects check send redirect w req via =
     (case send w req of
        (Inl err, w') \<Rightarrow> Some (Ret (Inl err), w')
      | (Inr resp, w') \<Rightarrow>
          (case redirect req resp of
             None \<Rightarrow> Some (Ret (Inr resp), w')
           | Some (Inl err) \<Rightarrow> Some (Ret (Inl err), w')
           | Some (Inr next_req) \<Rightarrow>
               (case check next_req (via @ [req]) of
                  Panic msg \<Rightarrow> Some (Panic msg, w')
                | Ret (Some err) \<Rightarrow> Some (Ret (Inl err), w')
                | Ret None \<Rightarrow> follow_redirects check send redirect w' next_req (via @ [req]))))"

section \<open>Chains of redirects\<close>

text \<open>One redirect, and a chain of them.\<close>

definition hop ::
  "'w http_client \<Rightarrow> redirection \<Rightarrow> 'w \<times> http_request \<Rightarrow>
     ('w \<times> http_request) option" where
  "hop send redirect s =
     (case send (fst s) (snd s) of
        (Inl _, _) \<Rightarrow> None
      | (Inr resp, w') \<Rightarrow> (case redirect (snd s) resp of Some (Inr next_req) \<Rightarrow> Some (w', next_req) | _ \<Rightarrow> None))"

text \<open>The result at the end of a chain: an error, or the response that is no redirect.\<close>

definition chain_end :: "'w http_client \<Rightarrow> redirection \<Rightarrow> 'w \<times> http_request \<Rightarrow> (go_error + http_response) outcome \<times> 'w" where
  "chain_end send redirect s =
     (case send (fst s) (snd s) of
        (Inl err, w') \<Rightarrow> (Ret (Inl err), w')
      | (Inr resp, w') \<Rightarrow> (Ret (case redirect (snd s) resp of Some (Inl err) \<Rightarrow> Inl err | _ \<Rightarrow> Inr resp), w'))"

fun hops ::
  "'w http_client \<Rightarrow> redirection \<Rightarrow> nat \<Rightarrow> 'w \<times> http_request \<Rightarrow>
     ('w \<times> http_request) option" where
  "hops send redirect 0 s = Some s"
| "hops send redirect (Suc n) s = (case hop send redirect s of None \<Rightarrow> None | Some s' \<Rightarrow> hops send redirect n s')"

lemma follow_step:
  "hop send redirect (w, req) = Some (w', req') \<Longrightarrow>
     follow_redirects checkRedirectFunc send redirect w req via =
     follow_redirects checkRedirectFunc send redirect w' req' (via @ [req])"
  by (subst follow_redirects.simps)
     (auto simp: hop_def checkRedirectFunc_def split: prod.splits sum.splits list.splits option.splits)

lemma follow_last:
  "hop send redirect (w, req) = None \<Longrightarrow>
     follow_redirects check send redirect w req via = Some (chain_end send redirect (w, req))"
  by (subst follow_redirects.simps) (auto simp: hop_def chain_end_def split: prod.splits sum.splits option.splits)

lemma follow_chain:
  assumes "hops send redirect n (w, req) = Some (w', req')" "hop send redirect (w', req') = None"
  shows "follow_redirects checkRedirectFunc send redirect w req via = Some (chain_end send redirect (w', req'))"
  using assms(1)
proof (induction n arbitrary: w req via)
  case 0
  then show ?case using follow_last [OF assms(2)] by simp
next
  case (Suc n)
  then obtain w1 r1 where "hop send redirect (w, req) = Some (w1, r1)" "hops send redirect n (w1, r1) = Some (w', req')"
    by (auto split: option.splits)
  then show ?case using follow_step Suc.IH by metis
qed

text \<open>A chain that leaves no trace of an end has no end.\<close>

lemma hops_end: "hops send redirect n s = None \<Longrightarrow> \<exists>m s'. hops send redirect m s = Some s' \<and> hop send redirect s' = None"
proof (induction n arbitrary: s)
  case 0
  then show ?case by simp
next
  case (Suc n)
  show ?case
  proof (cases "hop send redirect s")
    case None
    then show ?thesis by (intro exI [of _ 0] exI [of _ s]) simp
  next
    case (Some s1)
    then have "hops send redirect n s1 = None" using Suc.prems by simp
    then obtain m s' where "hops send redirect m s1 = Some s'" "hop send redirect s' = None" using Suc.IH by blast
    then show ?thesis using Some by (intro exI [of _ "Suc m"] exI [of _ s']) simp
  qed
qed

lemma follow_returns_ends:
  assumes "follow_redirects checkRedirectFunc send redirect w req via = Some r"
  shows "\<exists>n. hops send redirect n (w, req) = None"
proof -
  have "check = checkRedirectFunc \<longrightarrow> (\<exists>n. hops send redirect n (w, req) = None)"
    if "follow_redirects check send redirect w req via = Some r" for check
  proof (rule follow_redirects.raw_induct [where P = "\<lambda>check send redirect w req via r.
      check = checkRedirectFunc \<longrightarrow> (\<exists>n. hops send redirect n (w, req) = None)", OF _ that], intro impI)
    fix f :: "redirect_policy \<Rightarrow> 'b http_client \<Rightarrow> redirection \<Rightarrow>
       'b \<Rightarrow> http_request \<Rightarrow> http_request list \<Rightarrow> ((go_error + http_response) outcome \<times> 'b) option"
      and check send redirect w req via r
    assume IH: "\<And>check send redirect w req via r. f check send redirect w req via = Some r \<Longrightarrow>
        check = checkRedirectFunc \<longrightarrow> (\<exists>n. hops send redirect n (w, req) = None)"
      and eq: "(case send w req of
        (Inl err, w') \<Rightarrow> Some (Ret (Inl err), w')
      | (Inr resp, w') \<Rightarrow>
          (case redirect req resp of
             None \<Rightarrow> Some (Ret (Inr resp), w')
           | Some (Inl err) \<Rightarrow> Some (Ret (Inl err), w')
           | Some (Inr next_req) \<Rightarrow>
               (case check next_req (via @ [req]) of
                  Panic msg \<Rightarrow> Some (Panic msg, w')
                | Ret (Some err) \<Rightarrow> Some (Ret (Inl err), w')
                | Ret None \<Rightarrow> f check send redirect w' next_req (via @ [req])))) = Some r"
      and c: "check = checkRedirectFunc"
    show "\<exists>n. hops send redirect n (w, req) = None"
    proof (cases "hop send redirect (w, req)")
      case None
      then show ?thesis by (intro exI [of _ 1]) simp
    next
      case (Some s)
      then obtain w1 r1 resp where s: "s = (w1, r1)" "send w req = (Inr resp, w1)" "redirect req resp = Some (Inr r1)"
        by (auto simp: hop_def split: prod.splits sum.splits option.splits)
      have "check r1 (via @ [req]) = Ret None" by (simp add: c checkRedirectFunc_def split: list.splits)
      then have "f check send redirect w1 r1 (via @ [req]) = Some r" using eq s by simp
      then obtain n where "hops send redirect n (w1, r1) = None" using IH c by blast
      then show ?thesis using Some s(1) by (intro exI [of _ "Suc n"]) simp
    qed
  qed
  with assms show ?thesis by blast
qed

section \<open>Properties\<close>

text \<open>C40. The client follows every chain of redirects to its end, however long, and returns what is found there:
  the response that is no redirect, or the error of the last request or of a target that is no URL. If
  the redirects never end, for instance in a cycle, the request never returns.\<close>

theorem redirects_followed_without_limit:
  "if \<exists>n. hops send redirect n (w, req) = None
   then \<exists>n w' req'. hops send redirect n (w, req) = Some (w', req') \<and> hop send redirect (w', req') = None \<and>
     follow_redirects checkRedirectFunc send redirect w req via = Some (chain_end send redirect (w', req'))
   else follow_redirects checkRedirectFunc send redirect w req via = None"
proof (cases "\<exists>n. hops send redirect n (w, req) = None")
  case True
  then show ?thesis using hops_end follow_chain by (metis surj_pair)
next
  case False
  then show ?thesis using follow_returns_ends [of send redirect w req via] by (cases "follow_redirects checkRedirectFunc send redirect w req via") auto
qed

text \<open>With the policy of the standard library, a request always returns.\<close>

lemma default_policy_returns: "follow_redirects defaultCheckRedirect send redirect w req via \<noteq> None"
proof (induction "10 - length via" arbitrary: w req via)
  case 0
  then show ?case
    by (subst follow_redirects.simps) (auto simp: defaultCheckRedirect_def split: prod.splits sum.splits option.splits)
next
  case (Suc n)
  have "follow_redirects defaultCheckRedirect send redirect w' r (via @ [req]) \<noteq> None" for w' r
    using Suc.hyps by (intro Suc.hyps(1)) simp
  then show ?case
    by (subst follow_redirects.simps) (auto simp: defaultCheckRedirect_def split: prod.splits sum.splits option.splits)
qed

end
