(* ===== verification/Reader_Promise.thy ===== *)
theory Reader_Promise
  imports Rpget_Prelude
begin

text \<open>
  Model of pkg/download/reader_promise.go: a reader whose data is delivered later by another
  goroutine. The data is not copied: \<open>Deliver\<close> hands over a slice of the producer's buffer and
  blocks until the consumer has read it, so the model keeps the buffer (\<open>mem\<close>) apart from the
  promise, which only holds the length of the slice and the position of the reader in it.
\<close>

section \<open>The promise\<close>

text \<open>\<open>bytes.Reader\<close> over the first \<open>rd_len\<close> bytes of the producer's buffer.\<close>

record bytes_reader =
  rd_len :: nat
  rd_pos :: nat

text \<open>\<open>readerPromise\<close>: the two channels by whether they are closed; \<open>buf\<close> is nil or a slice.\<close>

record readerPromise =
  ready_closed :: bool
  finished_closed :: bool
  p_buf :: "nat option"
  p_reader :: "bytes_reader option"
  p_err :: "go_error option"

definition newReaderPromise :: readerPromise where
  "newReaderPromise =
     \<lparr>ready_closed = False, finished_closed = False, p_buf = None, p_reader = None, p_err = None\<rparr>"

text \<open>\<open>bytes.Reader.Read\<close> into a buffer of \<open>k\<close> bytes.\<close>

definition reader_read ::
  "byte list \<Rightarrow> bytes_reader \<Rightarrow> nat \<Rightarrow> byte list \<times> go_error option \<times> bytes_reader" where
  "reader_read mem r k =
     (if rd_pos r \<ge> rd_len r then ([], Some (Sentinel EOF), r)
      else let d = take k (drop (rd_pos r) (take (rd_len r) mem))
           in (d, None, r\<lparr>rd_pos := rd_pos r + length d\<rparr>))"

text \<open>
  \<open>Read\<close>: \<open>None\<close> while it blocks on the channel \<open>ready\<close>; otherwise the bytes, the error and the
  promise afterwards, or a panic (a nil reader, a channel closed twice).
\<close>

definition Read ::
  "byte list \<Rightarrow> readerPromise \<Rightarrow> nat \<Rightarrow> (byte list \<times> go_error option \<times> readerPromise) outcome option" where
  "Read mem b k =
     (if \<not> ready_closed b then None
      else Some (case p_err b of
          Some err \<Rightarrow> Ret ([], Some err, b)
        | None \<Rightarrow>
            (case p_reader b of
               None \<Rightarrow> Panic ''nil pointer dereference''
             | Some r \<Rightarrow>
                 (case reader_read mem r k of
                    (d, err, r') \<Rightarrow>
                      let b' = b\<lparr>p_reader := Some r'\<rparr>
                      in if err = Some (Sentinel EOF) \<and> p_buf b \<noteq> None
                         then if finished_closed b then Panic ''close of closed channel''
                              else Ret (d, err, b'\<lparr>finished_closed := True, p_buf := None,
                                      p_err := Some (Sentinel EOF)\<rparr>)
                         else Ret (d, err, b')))))"

text \<open>
  \<open>Deliver\<close> up to the point where it waits: the fields are set and \<open>ready\<close> is closed. It then
  blocks until \<open>finished\<close> is closed. A nil slice counts as an empty one.
\<close>

definition Deliver :: "readerPromise \<Rightarrow> nat option \<Rightarrow> go_error option \<Rightarrow> readerPromise outcome" where
  "Deliver b buf err =
     (let n = (case buf of None \<Rightarrow> 0 | Some n \<Rightarrow> n)
      in if ready_closed b then Panic ''close of closed channel''
         else Ret (b\<lparr>p_buf := Some n, p_err := err,
                     p_reader := Some \<lparr>rd_len = n, rd_pos = 0\<rparr>, ready_closed := True\<rparr>))"

definition deliver_returns :: "readerPromise \<Rightarrow> bool" where
  "deliver_returns b \<longleftrightarrow> finished_closed b"

section \<open>One producer and one consumer\<close>

text \<open>
  The producer works (and may write to its buffer), is blocked in \<open>Deliver\<close>, or has come back
  from it and may write to the buffer again. The consumer reads with buffers of any size;
  \<open>received\<close> is what it has read so far and \<open>seen\<close> the error of its last read. \<open>delivered\<close>
  records what the slice held, and the error, when \<open>Deliver\<close> was called.
\<close>

datatype producer_state = Working | Delivering | Returned

record rp_sys =
  mem :: "byte list"
  prom :: readerPromise
  producer :: producer_state
  delivered :: "(byte list \<times> go_error option) option"
  received :: "byte list"
  seen :: "go_error option"
  panicked :: bool

definition rp_init :: "rp_sys \<Rightarrow> bool" where
  "rp_init s \<longleftrightarrow> prom s = newReaderPromise \<and> producer s = Working \<and> delivered s = None \<and>
     received s = [] \<and> seen s = None \<and> \<not> panicked s"

inductive rp_step :: "rp_sys \<Rightarrow> rp_sys \<Rightarrow> bool" where
  rp_write: "producer s \<noteq> Delivering \<Longrightarrow> length m = length (mem s) \<Longrightarrow> rp_step s (s\<lparr>mem := m\<rparr>)"
| rp_deliver: "producer s = Working \<Longrightarrow> n \<le> length (mem s) \<Longrightarrow> buf \<in> {Some n, None} \<Longrightarrow>
     Deliver (prom s) buf err = Ret p' \<Longrightarrow>
     rp_step s (s\<lparr>prom := p', producer := Delivering,
       delivered := Some (take (case buf of None \<Rightarrow> 0 | Some k \<Rightarrow> k) (mem s), err)\<rparr>)"
| rp_deliver_panic: "producer s = Working \<Longrightarrow> Deliver (prom s) buf err = Panic msg \<Longrightarrow>
     rp_step s (s\<lparr>panicked := True\<rparr>)"
| rp_wake: "producer s = Delivering \<Longrightarrow> deliver_returns (prom s) \<Longrightarrow>
     rp_step s (s\<lparr>producer := Returned\<rparr>)"
| rp_read: "Read (mem s) (prom s) k = Some (Ret (d, err, p')) \<Longrightarrow>
     rp_step s (s\<lparr>prom := p', received := received s @ d, seen := err\<rparr>)"
| rp_read_panic: "Read (mem s) (prom s) k = Some (Panic msg) \<Longrightarrow>
     rp_step s (s\<lparr>panicked := True\<rparr>)"

text \<open>
  What holds between the two goroutines: before delivery the promise is new; after an error
  was delivered the producer stays blocked; after data was delivered, the reader's position
  is what the consumer has received, the slice is untouched as long as it can be read, and
  the producer leaves \<open>Deliver\<close> only when all of it was read.
\<close>

definition rp_reading :: "byte list \<Rightarrow> rp_sys \<Rightarrow> bool" where
  "rp_reading data s \<longleftrightarrow>
     p_reader (prom s) = Some \<lparr>rd_len = length data, rd_pos = length (received s)\<rparr> \<and>
     length (received s) \<le> length data \<and> received s = take (length (received s)) data \<and>
     take (length data) (mem s) = data \<and> p_err (prom s) = None \<and> p_buf (prom s) \<noteq> None \<and>
     producer s = Delivering"

definition rp_inv :: "rp_sys \<Rightarrow> bool" where
  "rp_inv s \<longleftrightarrow> \<not> panicked s \<and>
     (case delivered s of
        None \<Rightarrow> prom s = newReaderPromise \<and> producer s = Working \<and> received s = [] \<and> seen s = None
      | Some (data, Some err) \<Rightarrow>
          ready_closed (prom s) \<and> \<not> finished_closed (prom s) \<and> p_err (prom s) = Some err \<and>
          producer s = Delivering \<and> received s = [] \<and> seen s \<in> {None, Some err}
      | Some (data, None) \<Rightarrow>
          ready_closed (prom s) \<and>
          (if finished_closed (prom s)
           then received s = data \<and> p_err (prom s) = Some (Sentinel EOF) \<and> producer s \<noteq> Working \<and>
                seen s = Some (Sentinel EOF)
           else rp_reading data s \<and> seen s = None))"

lemma rp_inv_delivered_error:
  "rp_inv s \<Longrightarrow> delivered s = Some (data, Some err) \<Longrightarrow> rp_step s t \<Longrightarrow> rp_inv t"
  by (erule rp_step.cases) (auto simp: rp_inv_def Read_def deliver_returns_def split: if_splits option.splits)

lemma rp_inv_undelivered:
  "rp_inv s \<Longrightarrow> delivered s = None \<Longrightarrow> rp_step s t \<Longrightarrow> rp_inv t"
  by (erule rp_step.cases)
     (auto simp: rp_inv_def rp_reading_def Read_def Deliver_def newReaderPromise_def
        deliver_returns_def Let_def split: option.splits if_splits)

lemma rp_inv_finished:
  "rp_inv s \<Longrightarrow> delivered s = Some (data, None) \<Longrightarrow> finished_closed (prom s) \<Longrightarrow> rp_step s t \<Longrightarrow> rp_inv t"
  by (erule rp_step.cases) (auto simp: rp_inv_def Read_def split: if_splits)

text \<open>A read of data that was delivered and not yet used up, and the read that finds its end.\<close>

lemma Read_more:
  assumes "rp_reading data s" "ready_closed (prom s)" "length (received s) < length data"
    and "d = take k (drop (length (received s)) data)"
  shows "Read (mem s) (prom s) k =
     Some (Ret (d, None, (prom s)\<lparr>p_reader :=
       Some \<lparr>rd_len = length data, rd_pos = length (received s @ d)\<rparr>\<rparr>))"
  using assms by (simp add: rp_reading_def Read_def reader_read_def Let_def)

lemma Read_end:
  assumes "rp_reading data s" "ready_closed (prom s)" "\<not> finished_closed (prom s)"
    "length (received s) = length data"
  shows "Read (mem s) (prom s) k =
     Some (Ret ([], Some (Sentinel EOF), (prom s)\<lparr>p_reader := p_reader (prom s),
       finished_closed := True, p_buf := None, p_err := Some (Sentinel EOF)\<rparr>))"
  using assms by (auto simp: rp_reading_def Read_def reader_read_def Let_def)

lemma take_take_append:
  "xs = take (length xs) ys \<Longrightarrow> d = take k (drop (length xs) ys) \<Longrightarrow>
     xs @ d = take (length (xs @ d)) ys \<and> length (xs @ d) \<le> length ys"
  by (metis append_eq_conv_conj append_take_drop_id length_append length_take min.cobounded1 take_add
      append_assoc)

lemma rp_inv_reading:
  assumes i: "rp_inv s" and d: "delivered s = Some (data, None)"
    and f: "\<not> finished_closed (prom s)" and st: "rp_step s t"
  shows "rp_inv t"
proof -
  from i d f have r: "rp_reading data s" and rc: "ready_closed (prom s)" and np: "\<not> panicked s"
    by (auto simp: rp_inv_def)
  from st show ?thesis
  proof cases
    case (rp_read k d' err p')
    show ?thesis
    proof (cases "length (received s) = length data")
      case True
      with Read_end [OF r rc f True] r rp_read d np rc show ?thesis
        by (auto simp: rp_inv_def rp_reading_def)
    next
      case False
      then have "length (received s) < length data" using r by (simp add: rp_reading_def)
      from Read_more [OF r rc this refl, of k] rp_read
      have eq: "d' = take k (drop (length (received s)) data)" "err = None"
        "p' = (prom s)\<lparr>p_reader := Some \<lparr>rd_len = length data, rd_pos = length (received s @ d')\<rparr>\<rparr>"
        by auto
      have "received s @ d' = take (length (received s @ d')) data \<and> length (received s @ d') \<le> length data"
        using r eq(1) by (intro take_take_append) (simp add: rp_reading_def)
      then have "rp_reading data t" using r rp_read(1) eq by (simp add: rp_reading_def)
      then show ?thesis using rp_read(1) eq(2,3) d f np rc by (simp add: rp_inv_def)
    qed
  next
    case (rp_read_panic k msg)
    then show ?thesis
      using Read_end [OF r rc f] Read_more [OF r rc _ refl] r by (fastforce simp: rp_reading_def)
  qed (use r d f in \<open>auto simp: rp_reading_def deliver_returns_def\<close>)
qed

interpretation rp: invariant_system rp_init rp_step rp_inv
proof unfold_locales
  show "rp_init s \<Longrightarrow> rp_inv s" for s
    by (auto simp: rp_init_def rp_inv_def)
  fix s t
  assume i: "rp_inv s" and st: "rp_step s t"
  show "rp_inv t"
  proof (cases "delivered s")
    case None
    with i st show ?thesis by (blast intro: rp_inv_undelivered)
  next
    case (Some x)
    obtain data e where x: "x = (data, e)" by fastforce
    with Some i st show ?thesis
      by (cases e; cases "finished_closed (prom s)")
         (blast intro: rp_inv_delivered_error rp_inv_finished rp_inv_reading)+
  qed
qed

section \<open>Draining a promise\<close>

text \<open>
  A consumer that reads with buffers of the given sizes until a read returns an error, as
  \<open>io.Copy\<close> and \<open>io.ReadAll\<close> do: the bytes, the final error if there was one, the promise.
\<close>

fun read_until ::
  "byte list \<Rightarrow> readerPromise \<Rightarrow> nat list \<Rightarrow> (byte list \<times> go_error option \<times> readerPromise) outcome option" where
  "read_until m b [] = Some (Ret ([], None, b))"
| "read_until m b (k # ks) =
     (case Read m b k of
        None \<Rightarrow> None
      | Some (Panic msg) \<Rightarrow> Some (Panic msg)
      | Some (Ret (d, Some err, b')) \<Rightarrow> Some (Ret (d, Some err, b'))
      | Some (Ret (d, None, b')) \<Rightarrow>
          (case read_until m b' ks of
             Some (Ret (ds, err, b'')) \<Rightarrow> Some (Ret (d @ ds, err, b''))
           | r \<Rightarrow> r))"

lemma read_until_data:
  assumes "ready_closed b" "\<not> finished_closed b" "p_err b = None" "p_buf b \<noteq> None"
    "p_reader b = Some \<lparr>rd_len = n, rd_pos = i\<rparr>" "i \<le> n" "n \<le> length m"
    "list_all (\<lambda>k. 0 < k) ks" "n - i < length ks"
  shows "\<exists>b'. read_until m b ks = Some (Ret (drop i (take n m), Some (Sentinel EOF), b')) \<and>
     deliver_returns b'"
  using assms
proof (induction ks arbitrary: b i)
  case Nil
  then show ?case by simp
next
  case (Cons k ks)
  show ?case
  proof (cases "i = n")
    case True
    with Cons.prems show ?thesis
      by (auto simp: Read_def reader_read_def Let_def deliver_returns_def)
  next
    case False
    let ?d = "take k (drop i (take n m))"
    let ?b = "b\<lparr>p_reader := Some \<lparr>rd_len = n, rd_pos = i + length ?d\<rparr>\<rparr>"
    have len: "0 < length ?d" "i + length ?d \<le> n" using False Cons.prems by auto
    have step: "Read m b k = Some (Ret (?d, None, ?b))"
      using False Cons.prems by (simp add: Read_def reader_read_def Let_def)
    have "\<exists>b'. read_until m ?b ks =
        Some (Ret (drop (i + length ?d) (take n m), Some (Sentinel EOF), b')) \<and> deliver_returns b'"
      using Cons.prems len by (intro Cons.IH) auto
    moreover have "?d @ drop (i + length ?d) (take n m) = drop i (take n m)"
      using take_drop_length [of k "drop i (take n m)"] by (simp add: add.commute)
    ultimately show ?thesis using step by auto
  qed
qed

section \<open>Properties\<close>

lemmas rp_reachable_inv = rp.inv_reachable

text \<open>A run in which two bytes are delivered and then read, for the concrete instances below.\<close>

definition rp_example :: "readerPromise \<Rightarrow> producer_state \<Rightarrow> (byte list \<times> go_error option) option \<Rightarrow>
    byte list \<Rightarrow> go_error option \<Rightarrow> rp_sys" where
  "rp_example p pr del rec e =
     \<lparr>mem = [1, 2, 3], prom = p, producer = pr, delivered = del, received = rec, seen = e, panicked = False\<rparr>"

definition delivered_promise :: "nat \<Rightarrow> go_error option \<Rightarrow> readerPromise" where
  "delivered_promise pos e =
     \<lparr>ready_closed = True, finished_closed = False, p_buf = Some 2,
      p_reader = Some \<lparr>rd_len = 2, rd_pos = pos\<rparr>, p_err = e\<rparr>"

lemma rp_example_delivered:
  "reachable rp_init rp_step (rp_example (delivered_promise 0 e) Delivering (Some ([1, 2], e)) [] None)"
proof -
  let ?s0 = "rp_example newReaderPromise Working None [] None"
  have "reachable rp_init rp_step ?s0" by (rule reach_init) (simp add: rp_init_def rp_example_def)
  moreover have "rp_step ?s0 (?s0\<lparr>prom := delivered_promise 0 e, producer := Delivering,
      delivered := Some (take (case Some 2 of None \<Rightarrow> 0 | Some k \<Rightarrow> k) (mem ?s0), e)\<rparr>)"
    by (rule rp_deliver [of _ 2 _ e])
       (simp_all add: rp_example_def Deliver_def newReaderPromise_def delivered_promise_def)
  ultimately show ?thesis
    by (rule reach_step [THEN back_subst [of "reachable rp_init rp_step"]]) (simp add: rp_example_def)
qed

text \<open>C8. No interleaving of producer and consumer panics, and the consumer never sees anything
  but a prefix of what was in the slice when it was delivered, in order and without bytes the
  producer writes into its buffer later; when an error was delivered it sees no byte at all.\<close>

theorem promise_reads_delivered_prefix:
  assumes "reachable rp_init rp_step s"
  shows "\<not> panicked s \<and>
     (case delivered s of
        None \<Rightarrow> received s = []
      | Some (data, None) \<Rightarrow> received s = take (length (received s)) data
      | Some (data, Some err) \<Rightarrow> received s = [] \<and> seen s \<in> {None, Some err})"
  using rp_reachable_inv [OF assms]
  by (auto simp: rp_inv_def rp_reading_def split: option.splits if_splits)

theorem promise_reads_delivered_prefix_witness:
  "\<not> panicked (rp_example (delivered_promise 0 None) Delivering (Some ([1, 2], None)) [] None) \<and>
     received (rp_example (delivered_promise 0 None) Delivering (Some ([1, 2], None)) [] None) = take 0 [1, 2]"
  using promise_reads_delivered_prefix [OF rp_example_delivered [of None]] by (simp add: rp_example_def)

text \<open>The buffer is handed back only when its data was read: if \<open>Deliver\<close> has returned, it
  delivered data without an error, the consumer has received all of it, and its last read
  reported the end of the data.\<close>

theorem promise_returns_after_reading:
  assumes "reachable rp_init rp_step s" "producer s = Returned"
  shows "\<exists>data. delivered s = Some (data, None) \<and> received s = data \<and> seen s = Some (Sentinel EOF)"
  using rp_reachable_inv [OF assms(1)] assms(2)
  by (auto simp: rp_inv_def rp_reading_def split: option.splits if_splits)

lemma rp_example_returned:
  "reachable rp_init rp_step
     (rp_example \<lparr>ready_closed = True, finished_closed = True, p_buf = None,
        p_reader = Some \<lparr>rd_len = 2, rd_pos = 2\<rparr>, p_err = Some (Sentinel EOF)\<rparr>
        Returned (Some ([1, 2], None)) [1, 2] (Some (Sentinel EOF)))"
proof -
  let ?s1 = "rp_example (delivered_promise 0 None) Delivering (Some ([1, 2], None)) [] None"
  let ?s2 = "rp_example (delivered_promise 2 None) Delivering (Some ([1, 2], None)) [1, 2] None"
  let ?p = "\<lparr>ready_closed = True, finished_closed = True, p_buf = None,
        p_reader = Some \<lparr>rd_len = 2, rd_pos = 2\<rparr>, p_err = Some (Sentinel EOF)\<rparr>"
  let ?s3 = "rp_example ?p Delivering (Some ([1, 2], None)) [1, 2] (Some (Sentinel EOF))"
  have "rp_step ?s1 (?s1\<lparr>prom := delivered_promise 2 None, received := received ?s1 @ [1, 2], seen := None\<rparr>)"
    by (rule rp_read [of _ 8])
       (simp add: rp_example_def delivered_promise_def Read_def reader_read_def)
  then have 1: "rp_step ?s1 ?s2" by (simp add: rp_example_def)
  have "rp_step ?s2 (?s2\<lparr>prom := ?p, received := received ?s2 @ [], seen := Some (Sentinel EOF)\<rparr>)"
    by (rule rp_read [of _ 8])
       (simp add: rp_example_def delivered_promise_def Read_def reader_read_def)
  then have 2: "rp_step ?s2 ?s3" by (simp add: rp_example_def)
  have "rp_step ?s3 (?s3\<lparr>producer := Returned\<rparr>)"
    by (rule rp_wake) (simp_all add: rp_example_def deliver_returns_def)
  with 1 2 have "reachable rp_init rp_step (?s3\<lparr>producer := Returned\<rparr>)"
    by (blast intro: reach_step rp_example_delivered)
  then show ?thesis by (simp add: rp_example_def)
qed

theorem promise_returns_after_reading_witness:
  "\<exists>data. Some ([1, 2], None) = Some (data, None :: go_error option) \<and> [1, 2] = (data :: byte list) \<and>
     Some (Sentinel EOF) = Some (Sentinel EOF)"
  using promise_returns_after_reading [OF rp_example_returned] by (simp add: rp_example_def)

text \<open>C25. A goroutine that delivers an error stays blocked in \<open>Deliver\<close> in every continuation: the
  consumer sees the error, but nothing ever unblocks the producer.\<close>

theorem promise_error_blocks:
  assumes "reachable rp_init rp_step s" "delivered s = Some (data, Some err)" "rp_step\<^sup>*\<^sup>* s t"
  shows "producer t = Delivering \<and> \<not> deliver_returns (prom t)"
proof -
  have "rp_inv t" using rp.inv_steps [OF assms(3)] rp_reachable_inv [OF assms(1)] by blast
  moreover have "delivered t = Some (data, Some err)"
    using assms(3,1,2)
  proof (induction rule: rtranclp_induct)
    case (step u v)
    then have "rp_inv u" using rp.inv_steps [OF step.hyps(1)] rp_reachable_inv by blast
    with step show ?case
      by (auto elim!: rp_step.cases simp: rp_inv_def split: option.splits)
  qed auto
  ultimately show ?thesis by (auto simp: rp_inv_def deliver_returns_def)
qed

theorem promise_error_blocks_witness:
  "producer (rp_example (delivered_promise 0 (Some (Sentinel ErrUnexpectedEOF))) Delivering
      (Some ([1, 2], Some (Sentinel ErrUnexpectedEOF))) [] None) = Delivering \<and>
   \<not> deliver_returns (prom (rp_example (delivered_promise 0 (Some (Sentinel ErrUnexpectedEOF))) Delivering
      (Some ([1, 2], Some (Sentinel ErrUnexpectedEOF))) [] None))"
  using promise_error_blocks [OF rp_example_delivered _ rtranclp.rtrancl_refl,
      of "Some (Sentinel ErrUnexpectedEOF)"] by (simp add: rp_example_def)

text \<open>A consumer that keeps reading gets the delivered data completely, however small its
  buffers are, within one read more than there are bytes; then the end of the data is
  reported and the producer is released.\<close>

theorem promise_drains:
  assumes "Deliver newReaderPromise (Some n) None = Ret p" "n \<le> length m"
    and "list_all (\<lambda>k. 0 < k) ks" "n < length ks"
  shows "\<exists>p'. read_until m p ks = Some (Ret (take n m, Some (Sentinel EOF), p')) \<and> deliver_returns p'"
proof -
  have "ready_closed p" "\<not> finished_closed p" "p_err p = None" "p_buf p \<noteq> None"
    "p_reader p = Some \<lparr>rd_len = n, rd_pos = 0\<rparr>"
    using assms(1) by (auto simp: Deliver_def newReaderPromise_def)
  from read_until_data [OF this _ assms(2,3)] assms(4) show ?thesis by simp
qed

theorem promise_drains_witness:
  "\<exists>p'. read_until [1, 2, 3] (delivered_promise 0 None) [1, 1, 1] =
     Some (Ret (take 2 [1, 2, 3], Some (Sentinel EOF), p')) \<and> deliver_returns p'"
  by (rule promise_drains) (simp_all add: Deliver_def newReaderPromise_def delivered_promise_def)

end
