(* ===== verification/Download_Pipeline.thy ===== *)
theory Download_Pipeline
  imports Range_Server Reader_Promise
begin

text \<open>
  How the goroutines of a strategy work together, for several downloads at a time on one work
  queue: \<open>Fetch\<close> submits the first chunk with low priority and waits for its answer; then a
  goroutine per file submits the other chunks with high priority, one after the other; workers
  download chunks into their buffers and deliver them to promises, where they block until the
  chunk was read; the consumer of a file reads its promises in order. The work queue is the one
  of \<open>Work_Queue\<close> and the promises are those of \<open>Reader_Promise\<close>. What a request brings is given
  by a configuration; the order in which the goroutines run is left open.
\<close>

section \<open>The goroutines\<close>

text \<open>The chunk with the second number of the file with the first number.\<close>

type_synonym chunk_id = "nat \<times> nat"

text \<open>
  \<open>pl_limit\<close> is the number of files downloaded at a time, \<open>pl_chunks\<close> the number of chunks of a
  file, \<open>pl_first\<close> the error of the first request of a file (before any data), and \<open>pl_job\<close> what
  the worker delivers for a chunk.
\<close>

record pl_config =
  pl_files :: nat
  pl_limit :: nat
  pl_conc :: int64
  pl_bufSize :: int64
  pl_chunks :: "nat \<Rightarrow> nat"
  pl_first :: "nat \<Rightarrow> go_error option"
  pl_job :: "chunk_id \<Rightarrow> byte list \<times> go_error option"

text \<open>
  Where \<open>Fetch\<close> and the goroutine it starts are: not called; waiting for the answer to the first
  request; returned a reader, with so many chunks submitted; returned the error of the first request.
\<close>

datatype fetch_stage = NotStarted | FirstQueued | Submitting nat | FirstFailed

text \<open>
  \<open>pl_blocked\<close> tells which workers are inside \<open>Deliver\<close>, \<open>pl_holder\<close> in whose buffer the slice of a
  promise lies; \<open>pl_pos\<close>, \<open>pl_out\<close> and \<open>pl_err\<close> are the promise a file's consumer reads from, what it
  has read, and the error that ended its reading.
\<close>

record pl_sys =
  pl_wq :: "chunk_id wq_sys"
  pl_bufs :: "byte list list"
  pl_blocked :: "bool list"
  pl_stage :: "nat \<Rightarrow> fetch_stage"
  pl_promise :: "chunk_id \<Rightarrow> readerPromise"
  pl_holder :: "chunk_id \<Rightarrow> nat"
  pl_pos :: "nat \<Rightarrow> nat"
  pl_out :: "nat \<Rightarrow> byte list"
  pl_err :: "nat \<Rightarrow> go_error option"
  pl_panic :: bool

definition file_over :: "pl_config \<Rightarrow> pl_sys \<Rightarrow> nat \<Rightarrow> bool" where
  "file_over cfg s f \<longleftrightarrow> pl_err s f \<noteq> None \<or> pl_pos s f = pl_chunks cfg f"

definition active_files :: "pl_config \<Rightarrow> pl_sys \<Rightarrow> nat list" where
  "active_files cfg s = filter (\<lambda>f. pl_stage s f \<noteq> NotStarted \<and> \<not> file_over cfg s f) [0..<pl_files cfg]"

definition pl_init :: "pl_config \<Rightarrow> pl_sys \<Rightarrow> bool" where
  "pl_init cfg s \<longleftrightarrow>
     wq_init (pl_conc cfg) (pl_bufSize cfg) (pl_wq s) \<and>
     pl_bufs s = replicate (nat (pl_conc cfg)) (replicate (nat (pl_bufSize cfg)) 0) \<and>
     pl_blocked s = replicate (nat (pl_conc cfg)) False \<and>
     pl_stage s = (\<lambda>_. NotStarted) \<and> pl_promise s = (\<lambda>_. newReaderPromise) \<and>
     pl_pos s = (\<lambda>_. 0) \<and> pl_out s = (\<lambda>_. []) \<and> pl_err s = (\<lambda>_. None) \<and> \<not> pl_panic s"

abbreviation pl_queue :: "pl_sys \<Rightarrow> chunk_id priorityWorkQueue" where
  "pl_queue s \<equiv> queue (pl_wq s)"

abbreviation pl_workers :: "pl_sys \<Rightarrow> chunk_id worker list" where
  "pl_workers s \<equiv> workers (pl_wq s)"

abbreviation runs :: "pl_sys \<Rightarrow> nat \<Rightarrow> chunk_id \<Rightarrow> bool" where
  "runs s i c \<equiv> i < length (pl_workers s) \<and> pl_workers s ! i = Running c"

text \<open>The read of a file's consumer into a buffer of \<open>n\<close> bytes.\<close>

definition consumer_read :: "pl_sys \<Rightarrow> nat \<Rightarrow> nat \<Rightarrow> (byte list \<times> go_error option \<times> readerPromise) outcome option" where
  "consumer_read s f n =
     (let c = (f, pl_pos s f) in Read (pl_bufs s ! pl_holder s c) (pl_promise s c) n)"

definition reading_file :: "pl_config \<Rightarrow> pl_sys \<Rightarrow> nat \<Rightarrow> bool" where
  "reading_file cfg s f \<longleftrightarrow> f < pl_files cfg \<and> \<not> file_over cfg s f \<and> (\<exists>k. pl_stage s f = Submitting k)"

text \<open>
  The steps, one goroutine at a time: a call of \<open>Fetch\<close> that submits its first chunk; a turn of a
  worker; the answer to a first request, an error or a size; the submission of the next chunk, once
  the one before has been taken from the channel; the end of a chunk's download, which goes to its
  promise; the return from \<open>Deliver\<close>; a read of a consumer, which goes on to the next promise at
  the end of the data and stops at any other error. Panics end the process.
\<close>

inductive pl_step :: "pl_config \<Rightarrow> pl_sys \<Rightarrow> pl_sys \<Rightarrow> bool" for cfg where
  pl_begin: "f < pl_files cfg \<Longrightarrow> pl_stage s f = NotStarted \<Longrightarrow> length (active_files cfg s) < pl_limit cfg \<Longrightarrow>
     pl_step cfg s (s\<lparr>pl_wq := (pl_wq s)\<lparr>queue := submitLow (f, 0) (pl_queue s),
         submitted := (f, 0) # submitted (pl_wq s)\<rparr>,
       pl_stage := (pl_stage s)(f := FirstQueued)\<rparr>)"
| pl_turn: "i < length (pl_workers s) \<Longrightarrow> run_turn pick (pl_queue s) (pl_workers s ! i) = Some (q', wk) \<Longrightarrow>
     pl_step cfg s (s\<lparr>pl_wq := (pl_wq s)\<lparr>queue := q', workers := (pl_workers s)[i := wk]\<rparr>\<rparr>)"
| pl_first_error: "runs s i (f, 0) \<Longrightarrow> pl_stage s f = FirstQueued \<Longrightarrow> pl_first cfg f = Some e \<Longrightarrow>
     pl_step cfg s (s\<lparr>pl_wq := (pl_wq s)\<lparr>workers := (pl_workers s)[i := AtSelect],
         completed := (f, 0) # completed (pl_wq s)\<rparr>,
       pl_stage := (pl_stage s)(f := FirstFailed), pl_err := (pl_err s)(f := Some e)\<rparr>)"
| pl_first_answer: "runs s i (f, 0) \<Longrightarrow> pl_stage s f = FirstQueued \<Longrightarrow> pl_first cfg f = None \<Longrightarrow>
     pl_step cfg s (s\<lparr>pl_stage := (pl_stage s)(f := Submitting 1)\<rparr>)"
| pl_next: "f < pl_files cfg \<Longrightarrow> pl_stage s f = Submitting k \<Longrightarrow> k < pl_chunks cfg f \<Longrightarrow>
     (f, k - 1) \<notin> set (highPriority (pl_queue s)) \<Longrightarrow>
     pl_step cfg s (s\<lparr>pl_wq := (pl_wq s)\<lparr>queue := submitHigh (f, k) (pl_queue s),
         submitted := (f, k) # submitted (pl_wq s)\<rparr>,
       pl_stage := (pl_stage s)(f := Submitting (Suc k))\<rparr>)"
| pl_deliver: "runs s i (f, k) \<Longrightarrow> \<not> pl_blocked s ! i \<Longrightarrow> pl_stage s f \<noteq> FirstQueued \<Longrightarrow>
     pl_job cfg (f, k) = (d, e) \<Longrightarrow> Deliver (pl_promise s (f, k)) (Some (length d)) e = Ret p' \<Longrightarrow>
     pl_step cfg s (s\<lparr>pl_bufs := (pl_bufs s)[i := overwrite_at (pl_bufs s ! i) 0 d],
       pl_blocked := (pl_blocked s)[i := True], pl_promise := (pl_promise s)((f, k) := p'),
       pl_holder := (pl_holder s)((f, k) := i)\<rparr>)"
| pl_deliver_panic: "runs s i (f, k) \<Longrightarrow> \<not> pl_blocked s ! i \<Longrightarrow> pl_stage s f \<noteq> FirstQueued \<Longrightarrow>
     pl_job cfg (f, k) = (d, e) \<Longrightarrow> Deliver (pl_promise s (f, k)) (Some (length d)) e = Panic msg \<Longrightarrow>
     pl_step cfg s (s\<lparr>pl_panic := True\<rparr>)"
| pl_return: "runs s i c \<Longrightarrow> pl_blocked s ! i \<Longrightarrow> deliver_returns (pl_promise s c) \<Longrightarrow>
     pl_step cfg s (s\<lparr>pl_wq := (pl_wq s)\<lparr>workers := (pl_workers s)[i := AtSelect],
         completed := c # completed (pl_wq s)\<rparr>,
       pl_blocked := (pl_blocked s)[i := False]\<rparr>)"
| pl_read: "reading_file cfg s f \<Longrightarrow> 0 < n \<Longrightarrow> consumer_read s f n = Some (Ret (d, e, p')) \<Longrightarrow>
     pl_step cfg s (s\<lparr>pl_promise := (pl_promise s)((f, pl_pos s f) := p'),
       pl_out := (pl_out s)(f := pl_out s f @ d),
       pl_pos := (if e = Some (Sentinel EOF) then (pl_pos s)(f := Suc (pl_pos s f)) else pl_pos s),
       pl_err := (if e = Some (Sentinel EOF) then pl_err s else (pl_err s)(f := e))\<rparr>)"
| pl_read_panic: "reading_file cfg s f \<Longrightarrow> consumer_read s f n = Some (Panic msg) \<Longrightarrow>
     pl_step cfg s (s\<lparr>pl_panic := True\<rparr>)"

text \<open>A chunk fits into the buffers, as the plans of the strategies make sure, and a file has a first chunk.\<close>

definition pl_valid :: "pl_config \<Rightarrow> bool" where
  "pl_valid cfg \<longleftrightarrow> (\<forall>f. 0 < pl_chunks cfg f) \<and> (\<forall>c. int (length (fst (pl_job cfg c))) \<le> pl_bufSize cfg)"

section \<open>Each chunk waits, runs or is done once\<close>

text \<open>Every step is a step of the work queue, or does not concern it.\<close>

lemma pl_step_refines_queue:
  "pl_step cfg s t \<Longrightarrow> pl_wq t = pl_wq s \<or> wq_step (\<lambda>_. True) (pl_wq s) (pl_wq t)"
  by (erule pl_step.cases) (auto intro: wq_step.intros)

lemma running_items_nth: "i < length ws \<Longrightarrow> ws ! i = Running c \<Longrightarrow> c \<in># running_items ws"
  using running_items_ge [of i ws] by auto

lemma running_items_twice:
  assumes "i < length ws" "j < length ws" "i \<noteq> j" "ws ! i = Running c" "ws ! j = Running c"
  shows "2 \<le> count (running_items ws) c"
proof -
  let ?ws = "ws[i := AtSelect]"
  have "c \<in># running_items ?ws" using assms by (intro running_items_nth [of j]) auto
  then have "c \<in># running_items ws - {#c#}"
    using running_items_upd [OF assms(1), of AtSelect] assms(4) by simp
  then show ?thesis by (simp add: in_diff_count)
qed

lemma running_itemsD: "c \<in># running_items ws \<Longrightarrow> \<exists>i < length ws. ws ! i = Running c"
proof (induction ws)
  case (Cons w ws)
  then have "w = Running c \<or> c \<in># running_items ws" by (cases w) (auto simp: running_items_def)
  then show ?case
  proof
    assume "w = Running c"
    then have "0 < length (w # ws) \<and> (w # ws) ! 0 = Running c" by simp
    then show ?thesis by blast
  next
    assume "c \<in># running_items ws"
    from Cons.IH [OF this] obtain i where "Suc i < length (w # ws) \<and> (w # ws) ! Suc i = Running c" by auto
    then show ?thesis by blast
  qed
qed (simp add: running_items_def)

lemma wq_inv_count:
  assumes "wq_inv conc w" "distinct (submitted w)"
  shows "count (waiting_items (queue w)) c + count (running_items (workers w)) c + count (mset (completed w)) c =
     (if c \<in> set (submitted w) then 1 else 0)"
proof -
  have "mset (submitted w) = waiting_items (queue w) + running_items (workers w) + mset (completed w)"
    using assms(1) by (simp add: wq_inv_def abs_pool_def)
  then have "count (mset (submitted w)) c = count (waiting_items (queue w)) c +
      count (running_items (workers w)) c + count (mset (completed w)) c"
    by simp
  moreover have "count (mset (submitted w)) c = (if c \<in> set (submitted w) then 1 else 0)"
    using assms(2) unfolding distinct_count_atmost_1 by (rule spec)
  ultimately show ?thesis by (simp only:)
qed

lemma wq_running_once:
  assumes "wq_inv conc w" "distinct (submitted w)" "i < length (workers w)" "workers w ! i = Running c"
  shows "c \<in> set (submitted w)" "c \<notin># waiting_items (queue w)" "c \<notin> set (completed w)"
    and "j < length (workers w) \<Longrightarrow> workers w ! j = Running c \<Longrightarrow> j = i"
proof -
  have r: "0 < count (running_items (workers w)) c"
    using running_items_nth [OF assms(3,4)] by simp
  note n = wq_inv_count [OF assms(1,2), of c]
  with r show m: "c \<in> set (submitted w)" by (metis add_is_0 less_numeral_extra(3))
  have "count (waiting_items (queue w)) c = 0 \<and> count (mset (completed w)) c = 0"
    using r n unfolding if_P [OF m] by linarith
  then show "c \<notin># waiting_items (queue w)" "c \<notin> set (completed w)" by (simp_all add: count_eq_zero_iff)
  show "j = i" if "j < length (workers w)" "workers w ! j = Running c"
  proof (rule ccontr)
    assume "j \<noteq> i"
    then have "2 \<le> count (running_items (workers w)) c"
      using running_items_twice [OF assms(3) that(1) _ assms(4) that(2)] by simp
    with n m show False by simp
  qed
qed

lemma wq_submitted_cases:
  assumes "wq_inv conc w" "distinct (submitted w)" "c \<in> set (submitted w)"
  shows "c \<in> set (highPriority (queue w)) \<or> c \<in> set (lowPriority (queue w)) \<or>
     (\<exists>i < length (workers w). workers w ! i = Running c) \<or> c \<in> set (completed w)"
proof -
  have "0 < count (waiting_items (queue w)) c \<or> 0 < count (running_items (workers w)) c \<or>
      0 < count (mset (completed w)) c"
    using wq_inv_count [OF assms(1,2), of c] assms(3) by (simp only: if_True) linarith
  then show ?thesis using running_itemsD by (auto simp: waiting_items_def)
qed

section \<open>Invariant of submission and scheduling\<close>

fun sent :: "fetch_stage \<Rightarrow> nat" where
  "sent NotStarted = 0"
| "sent FirstQueued = 1"
| "sent (Submitting k) = k"
| "sent FirstFailed = 1"

definition submitting :: "fetch_stage \<Rightarrow> bool" where
  "submitting st \<longleftrightarrow> (\<exists>k. st = Submitting k)"

lemma submitting_simps [simp]:
  "submitting (Submitting k)" "\<not> submitting NotStarted" "\<not> submitting FirstQueued" "\<not> submitting FirstFailed"
  by (simp_all add: submitting_def)

fun may_deliver :: "(nat \<Rightarrow> fetch_stage) \<Rightarrow> chunk_id worker \<Rightarrow> bool" where
  "may_deliver st (Running (f, k)) \<longleftrightarrow> submitting (st f)"
| "may_deliver st _ \<longleftrightarrow> False"

lemma may_deliver_upd:
  "may_deliver st wk \<Longrightarrow> submitting (st f) \<longrightarrow> submitting x \<Longrightarrow> may_deliver (st(f := x)) wk"
  by (cases "(st, wk)" rule: may_deliver.cases) auto

text \<open>
  Chunks are submitted in order and once, and of each file only the last submitted one can still
  wait in a channel. A worker is inside \<open>Deliver\<close> only for a file whose first request was answered.
\<close>

definition submitted_in_order :: "pl_config \<Rightarrow> pl_sys \<Rightarrow> bool" where
  "submitted_in_order cfg s \<longleftrightarrow> distinct (submitted (pl_wq s)) \<and>
     (\<forall>f k. (f, k) \<in> set (submitted (pl_wq s)) \<longleftrightarrow> f < pl_files cfg \<and> k < sent (pl_stage s f)) \<and>
     (\<forall>f k. pl_stage s f = Submitting k \<longrightarrow> 0 < k \<and> k \<le> pl_chunks cfg f \<and> pl_first cfg f = None)"

definition waiting_last :: "pl_sys \<Rightarrow> bool" where
  "waiting_last s \<longleftrightarrow>
     (\<forall>f k. (f, k) \<in> set (highPriority (pl_queue s)) \<longrightarrow> 0 < k \<and> pl_stage s f = Submitting (Suc k)) \<and>
     (\<forall>f k. (f, k) \<in> set (lowPriority (pl_queue s)) \<longrightarrow> k = 0 \<and> pl_stage s f = FirstQueued) \<and>
     (\<forall>f. pl_stage s f = FirstQueued \<longrightarrow> (f, 0) \<notin> set (completed (pl_wq s))) \<and>
     (\<forall>f. pl_stage s f = FirstFailed \<longrightarrow> (f, 0) \<in> set (completed (pl_wq s)))"

definition workers_ok :: "pl_config \<Rightarrow> pl_sys \<Rightarrow> bool" where
  "workers_ok cfg s \<longleftrightarrow> length (pl_blocked s) = length (pl_workers s) \<and>
     length (pl_bufs s) = length (pl_workers s) \<and>
     (\<forall>i < length (pl_bufs s). length (pl_bufs s ! i) = nat (pl_bufSize cfg)) \<and>
     (\<forall>i < length (pl_workers s). pl_blocked s ! i \<longrightarrow> may_deliver (pl_stage s) (pl_workers s ! i))"

definition sched_inv :: "pl_config \<Rightarrow> pl_sys \<Rightarrow> bool" where
  "sched_inv cfg s \<longleftrightarrow> wq_inv (pl_conc cfg) (pl_wq s) \<and> submitted_in_order cfg s \<and> waiting_last s \<and>
     workers_ok cfg s"

lemma sched_invD:
  assumes "sched_inv cfg s"
  shows "wq_inv (pl_conc cfg) (pl_wq s)" "submitted_in_order cfg s" "waiting_last s" "workers_ok cfg s"
    "distinct (submitted (pl_wq s))"
  using assms by (auto simp: sched_inv_def submitted_in_order_def)

lemmas runs_once = wq_running_once [OF sched_invD(1,5)]

lemma runs_unique:
  "sched_inv cfg s \<Longrightarrow> runs s i c \<Longrightarrow> runs s j c \<Longrightarrow> j = i"
  using runs_once(4) by blast

lemma wq_inv_pl_step: "wq_inv conc (pl_wq s) \<Longrightarrow> pl_step cfg s t \<Longrightarrow> wq_inv conc (pl_wq t)"
  using pl_step_refines_queue wq_inv_step by metis

lemma runs_stage:
  assumes "sched_inv cfg s" "runs s i (f, k)"
  shows "f < pl_files cfg \<and> k < sent (pl_stage s f) \<and> (f, k) \<notin> set (highPriority (pl_queue s)) \<and>
     (f, k) \<notin> set (lowPriority (pl_queue s)) \<and> (f, k) \<notin> set (completed (pl_wq s))"
  using runs_once(1-3) [OF assms(1,1), of i "(f, k)"] assms sched_invD(2) [OF assms(1)]
  by (auto simp: submitted_in_order_def waiting_items_def)

lemma pl_step_submitted_in_order:
  assumes "pl_valid cfg" "submitted_in_order cfg s" "pl_step cfg s t"
  shows "submitted_in_order cfg t"
  using assms(3,1,2)
  by (cases rule: pl_step.cases)
     (auto simp: submitted_in_order_def pl_valid_def less_Suc_eq Suc_le_eq split: if_splits)

lemma run_turn_queues:
  "run_turn pick q wk = Some (q', wk') \<Longrightarrow>
     set (highPriority q') \<subseteq> set (highPriority q) \<and> set (lowPriority q') \<subseteq> set (lowPriority q)"
  by (cases wk) (auto split: list.splits if_splits)

lemma run_turn_idle: "run_turn pick q wk = Some (q', wk') \<Longrightarrow> \<not> may_deliver st wk"
  by (cases wk) auto

lemma runs_submitting:
  assumes "sched_inv cfg s" "runs s i (f, k)"
  shows "pl_stage s f = FirstQueued \<or> (\<exists>m. pl_stage s f = Submitting m \<and> k < m)"
  using runs_stage [OF assms] sched_invD(3) [OF assms(1)]
  by (cases "pl_stage s f") (auto simp: waiting_last_def)

lemma runs_chunk:
  assumes "sched_inv cfg s" "runs s i (f, k)" "pl_stage s f \<noteq> FirstQueued"
  shows "k < pl_chunks cfg f"
  using runs_submitting [OF assms(1,2)] assms(3) sched_invD(2) [OF assms(1)] order.strict_trans2
  unfolding submitted_in_order_def by metis

lemma pl_step_workers_ok:
  assumes "sched_inv cfg s" "pl_step cfg s t"
  shows "workers_ok cfg t"
proof -
  note ok = sched_invD(4) [OF assms(1), unfolded workers_ok_def]
  from assms(2) show ?thesis
  proof cases
    case (pl_deliver i f k d e p')
    then have "submitting (pl_stage s f)"
      using runs_submitting [OF assms(1) pl_deliver(2)] by (auto simp: submitting_def)
    then show ?thesis using pl_deliver ok by (auto simp: workers_ok_def nth_list_update)
  qed (use ok in \<open>auto simp: workers_ok_def nth_list_update intro!: may_deliver_upd dest: run_turn_idle\<close>)
qed

lemma pl_step_waiting_last:
  assumes "sched_inv cfg s" "pl_step cfg s t"
  shows "waiting_last t"
proof -
  note w = sched_invD(3) [OF assms(1), unfolded waiting_last_def]
  note new = sched_invD(2) [OF assms(1), unfolded submitted_in_order_def]
  from assms(2) show ?thesis
  proof cases
    case (pl_begin f)
    have "(f, 0) \<notin> set (submitted (pl_wq s))" using new pl_begin by simp
    then have "(f, 0) \<notin> set (completed (pl_wq s))"
      using wq_inv_count [OF sched_invD(1,5) [OF assms(1)], of "(f, 0)"] by (auto simp: count_eq_zero_iff)
    with pl_begin w show ?thesis by (auto simp: waiting_last_def submitLow_def)
  next
    case (pl_turn i pick q' wk)
    with run_turn_queues [OF pl_turn(3)] w show ?thesis by (auto simp: waiting_last_def)
  next
    case (pl_first_error i f e)
    with runs_stage [OF assms(1) pl_first_error(2)] w show ?thesis by (auto simp: waiting_last_def)
  next
    case (pl_first_answer i f)
    with runs_stage [OF assms(1) pl_first_answer(2)] w show ?thesis by (auto simp: waiting_last_def)
  next
    case (pl_next f k)
    with w new show ?thesis by (fastforce simp: waiting_last_def submitHigh_def)
  next
    case (pl_return i c)
    then have "may_deliver (pl_stage s) (Running c)"
      using sched_invD(4) [OF assms(1)] by (metis workers_ok_def)
    with pl_return w show ?thesis by (cases c) (auto simp: waiting_last_def)
  qed (use w in \<open>auto simp: waiting_last_def\<close>)
qed

lemma sched_inv_step:
  assumes "pl_valid cfg" "sched_inv cfg s" "pl_step cfg s t"
  shows "sched_inv cfg t"
  using assms sched_invD [OF assms(2)] wq_inv_pl_step pl_step_submitted_in_order pl_step_waiting_last
    pl_step_workers_ok unfolding sched_inv_def by metis

lemma sched_inv_init:
  assumes "pl_init cfg s"
  shows "sched_inv cfg s"
proof -
  have w: "wq_init (pl_conc cfg) (pl_bufSize cfg) (pl_wq s)" using assms by (simp add: pl_init_def)
  then have "length (pl_workers s) = nat (pl_conc cfg)"
    using wq.inv_init [OF w] by (simp add: wq_inv_def)
  with assms w wq.inv_init [OF w] show ?thesis
    by (auto simp: sched_inv_def submitted_in_order_def waiting_last_def workers_ok_def pl_init_def
        wq_init_def newWorkQueue_def)
qed

section \<open>Invariant of promises and consumers\<close>

text \<open>What the consumer gets from a chunk: its data, or nothing when an error was delivered with it.\<close>

definition good :: "pl_config \<Rightarrow> chunk_id \<Rightarrow> byte list" where
  "good cfg c = (case snd (pl_job cfg c) of None \<Rightarrow> fst (pl_job cfg c) | Some e \<Rightarrow> [])"

definition holds_slice :: "pl_sys \<Rightarrow> nat \<Rightarrow> chunk_id \<Rightarrow> bool" where
  "holds_slice s i c \<longleftrightarrow> runs s i c \<and> pl_blocked s ! i"

definition read_pos :: "readerPromise \<Rightarrow> nat" where
  "read_pos p = (case p_reader p of None \<Rightarrow> 0 | Some r \<Rightarrow> rd_pos r)"

text \<open>
  The three states of a promise: nothing was delivered; the slice is in the buffer of a worker that
  is inside \<open>Deliver\<close>, untouched and read up to some position (from its start, unless the consumer
  has come to it), or its error is reported again and again; the data was read to the end.
\<close>

definition promise_fresh :: "pl_sys \<Rightarrow> nat \<Rightarrow> nat \<Rightarrow> bool" where
  "promise_fresh s f k \<longleftrightarrow> pl_promise s (f, k) = newReaderPromise \<and> pl_pos s f \<le> k \<and>
     ((f, k) \<in> set (completed (pl_wq s)) \<longrightarrow> pl_stage s f = FirstFailed) \<and> (\<forall>i. \<not> holds_slice s i (f, k))"

definition promise_data :: "pl_config \<Rightarrow> pl_sys \<Rightarrow> nat \<Rightarrow> nat \<Rightarrow> bool" where
  "promise_data cfg s f k \<longleftrightarrow>
     (let d = fst (pl_job cfg (f, k)); p = pl_promise s (f, k); r = read_pos p
      in p_reader p = Some \<lparr>rd_len = length d, rd_pos = r\<rparr> \<and> r \<le> length d \<and> pl_pos s f \<le> k \<and>
         (pl_pos s f < k \<longrightarrow> r = 0) \<and> p_err p = None \<and> p_buf p \<noteq> None \<and>
         take (length d) (pl_bufs s ! pl_holder s (f, k)) = d)"

definition promise_delivered :: "pl_config \<Rightarrow> pl_sys \<Rightarrow> nat \<Rightarrow> nat \<Rightarrow> bool" where
  "promise_delivered cfg s f k \<longleftrightarrow> holds_slice s (pl_holder s (f, k)) (f, k) \<and>
     (case snd (pl_job cfg (f, k)) of
        None \<Rightarrow> promise_data cfg s f k
      | Some e \<Rightarrow> p_err (pl_promise s (f, k)) = Some e \<and> (k < pl_pos s f \<longrightarrow> e = Sentinel EOF))"

definition promise_read :: "pl_config \<Rightarrow> pl_sys \<Rightarrow> nat \<Rightarrow> nat \<Rightarrow> bool" where
  "promise_read cfg s f k \<longleftrightarrow> snd (pl_job cfg (f, k)) = None \<and> k < pl_pos s f \<and>
     ((f, k) \<in> set (completed (pl_wq s)) \<or> (\<exists>i. holds_slice s i (f, k)))"

definition promise_ok :: "pl_config \<Rightarrow> pl_sys \<Rightarrow> nat \<Rightarrow> nat \<Rightarrow> bool" where
  "promise_ok cfg s f k \<longleftrightarrow>
     (if \<not> ready_closed (pl_promise s (f, k)) then promise_fresh s f k
      else if finished_closed (pl_promise s (f, k)) then promise_read cfg s f k
      else promise_delivered cfg s f k)"

definition file_ok :: "pl_config \<Rightarrow> pl_sys \<Rightarrow> nat \<Rightarrow> bool" where
  "file_ok cfg s f \<longleftrightarrow> pl_pos s f \<le> pl_chunks cfg f \<and>
     pl_out s f = concat (map (\<lambda>k. good cfg (f, k)) [0..<pl_pos s f]) @
       take (read_pos (pl_promise s (f, pl_pos s f))) (good cfg (f, pl_pos s f)) \<and>
     (\<not> submitting (pl_stage s f) \<longrightarrow> pl_pos s f = 0) \<and>
     (pl_stage s f = FirstFailed \<longrightarrow> pl_err s f = pl_first cfg f \<and> pl_first cfg f \<noteq> None) \<and>
     (\<forall>e. pl_err s f = Some e \<longrightarrow> pl_stage s f = FirstFailed \<or>
        pl_pos s f < pl_chunks cfg f \<and> snd (pl_job cfg (f, pl_pos s f)) = Some e \<and> e \<noteq> Sentinel EOF)"

definition data_inv :: "pl_config \<Rightarrow> pl_sys \<Rightarrow> bool" where
  "data_inv cfg s \<longleftrightarrow> \<not> pl_panic s \<and> (\<forall>f k. promise_ok cfg s f k) \<and> (\<forall>f. file_ok cfg s f)"

lemmas promise_defs = promise_fresh_def promise_data_def promise_delivered_def promise_read_def promise_ok_def

lemma newReaderPromise_simps [simp]:
  "\<not> ready_closed newReaderPromise" "\<not> finished_closed newReaderPromise" "read_pos newReaderPromise = 0"
  "Read m newReaderPromise n = None"
  by (simp_all add: newReaderPromise_def read_pos_def Read_def)

lemma read_pos_upd [simp]: "read_pos (p\<lparr>p_reader := Some r\<rparr>) = rd_pos r"
  by (simp add: read_pos_def)

text \<open>Steps that leave the promises, the buffers and the readers alone.\<close>

lemma promise_ok_frame:
  assumes "promise_ok cfg s f k"
    and "pl_promise t (f, k) = pl_promise s (f, k)" "pl_holder t (f, k) = pl_holder s (f, k)" "pl_pos t f = pl_pos s f"
    and "\<And>i. holds_slice t i (f, k) = holds_slice s i (f, k)"
    and "\<And>i. holds_slice s i (f, k) \<Longrightarrow> pl_bufs t ! i = pl_bufs s ! i"
    and "(f, k) \<in> set (completed (pl_wq t)) \<Longrightarrow> (f, k) \<in> set (completed (pl_wq s)) \<or> pl_stage t f = FirstFailed"
    and "set (completed (pl_wq s)) \<subseteq> set (completed (pl_wq t))"
    and "pl_stage s f = FirstFailed \<Longrightarrow> pl_stage t f = FirstFailed"
  shows "promise_ok cfg t f k"
  using assms unfolding promise_defs Let_def by (auto split: option.splits if_splits)

lemma file_ok_frame:
  assumes "file_ok cfg s f"
    and "pl_pos t f = pl_pos s f" "pl_out t f = pl_out s f" "pl_err t f = pl_err s f" "pl_stage t f = pl_stage s f"
    and "read_pos (pl_promise t (f, pl_pos s f)) = read_pos (pl_promise s (f, pl_pos s f))"
  shows "file_ok cfg t f"
  using assms(1) unfolding file_ok_def assms(2-6) .

lemma holds_slice_turn:
  assumes "workers_ok cfg s" "i < length (pl_workers s)"
    "run_turn pick (pl_queue s) (pl_workers s ! i) = Some (q', wk)"
    and t: "t = s\<lparr>pl_wq := (pl_wq s)\<lparr>queue := q', workers := (pl_workers s)[i := wk]\<rparr>\<rparr>"
  shows "holds_slice t j c = holds_slice s j c"
  using assms run_turn_idle [OF assms(3)]
  by (auto simp: holds_slice_def workers_ok_def nth_list_update)

lemma holds_slice_stage:
  assumes "workers_ok cfg s" "holds_slice s i (f, k)"
  shows "submitting (pl_stage s f)"
  using assms unfolding workers_ok_def holds_slice_def by (metis may_deliver.simps(1))

lemma data_invD:
  assumes "data_inv cfg s"
  shows "promise_ok cfg s f k" "file_ok cfg s f" "\<not> pl_panic s"
  using assms by (simp_all add: data_inv_def)

lemma holds_slice_unique:
  "sched_inv cfg s \<Longrightarrow> runs s i c \<Longrightarrow> holds_slice s j c \<Longrightarrow> j = i"
  using runs_unique unfolding holds_slice_def by blast

text \<open>A worker that has not called \<open>Deliver\<close> yet finds a new promise: \<open>Deliver\<close> cannot panic.\<close>

lemma promise_before_deliver:
  assumes "sched_inv cfg s" "data_inv cfg s" "runs s i (f, k)" "\<not> pl_blocked s ! i"
  shows "promise_fresh s f k"
proof -
  have "\<not> holds_slice s j (f, k)" for j
    using holds_slice_unique [OF assms(1,3)] assms(4) by (auto simp: holds_slice_def)
  then show ?thesis
    using data_invD(1) [OF assms(2), of f k] runs_stage [OF assms(1,3)]
    by (auto simp: promise_ok_def promise_read_def promise_delivered_def split: if_splits)
qed

lemma promise_before_deliver_new:
  assumes "sched_inv cfg s" "data_inv cfg s" "runs s i (f, k)" "\<not> pl_blocked s ! i"
  shows "pl_promise s (f, k) = newReaderPromise"
  using promise_before_deliver [OF assms] by (simp add: promise_fresh_def)

lemma Deliver_new:
  "Deliver newReaderPromise (Some n) e =
     Ret \<lparr>ready_closed = True, finished_closed = False, p_buf = Some n,
          p_reader = Some \<lparr>rd_len = n, rd_pos = 0\<rparr>, p_err = e\<rparr>"
  by (simp add: Deliver_def newReaderPromise_def)

lemma Deliver_read_pos: "Deliver newReaderPromise (Some n) e = Ret p \<Longrightarrow> read_pos p = 0"
  by (auto simp: Deliver_new read_pos_def)

lemma promise_ok_deliver:
  assumes si: "sched_inv cfg s" and di: "data_inv cfg s" and v: "pl_valid cfg"
    and r: "runs s i (f, k)" "\<not> pl_blocked s ! i" and j: "pl_job cfg (f, k) = (d, e)"
    and dl: "Deliver (pl_promise s (f, k)) (Some (length d)) e = Ret p'"
    and t: "t = s\<lparr>pl_bufs := (pl_bufs s)[i := overwrite_at (pl_bufs s ! i) 0 d],
       pl_blocked := (pl_blocked s)[i := True], pl_promise := (pl_promise s)((f, k) := p'),
       pl_holder := (pl_holder s)((f, k) := i)\<rparr>"
  shows "promise_ok cfg t g m"
proof (cases "(g, m) = (f, k)")
  case True
  note fr = promise_before_deliver [OF si di r]
  have p': "p' = \<lparr>ready_closed = True, finished_closed = False, p_buf = Some (length d),
      p_reader = Some \<lparr>rd_len = length d, rd_pos = 0\<rparr>, p_err = e\<rparr>"
    using dl fr by (simp add: promise_fresh_def Deliver_new)
  have i: "i < length (pl_blocked s)" "i < length (pl_bufs s)" "length (pl_bufs s ! i) = nat (pl_bufSize cfg)"
    using sched_invD(4) [OF si] r by (auto simp: workers_ok_def)
  have "int (length d) \<le> pl_bufSize cfg" using v j by (metis fst_conv pl_valid_def)
  then have "take (length d) (overwrite_at (pl_bufs s ! i) 0 d) = d"
    using i(3) by (intro take_overwrite_0) simp
  moreover have "pl_pos s f \<le> k" using fr by (simp add: promise_fresh_def)
  ultimately show ?thesis
    using True r i j p' t
    by (simp add: promise_ok_def promise_delivered_def promise_data_def holds_slice_def read_pos_def
        split: option.splits)
next
  case False
  have h: "holds_slice t l (g, m) = holds_slice s l (g, m)" for l
    using False r sched_invD(4) [OF si] t
    by (auto simp: holds_slice_def workers_ok_def nth_list_update)
  have b: "pl_bufs t ! l = pl_bufs s ! l" if "holds_slice s l (g, m)" for l
  proof -
    have "l \<noteq> i" using that r(2) by (auto simp: holds_slice_def)
    then show ?thesis using t by simp
  qed
  show ?thesis
    by (rule promise_ok_frame [OF data_invD(1) [OF di, of g m] _ _ _ h b]) (use False t in auto)
qed

lemma promise_ok_return:
  assumes si: "sched_inv cfg s" and di: "data_inv cfg s"
    and r: "runs s i c" "pl_blocked s ! i" "deliver_returns (pl_promise s c)"
    and t: "t = s\<lparr>pl_wq := (pl_wq s)\<lparr>workers := (pl_workers s)[i := AtSelect],
         completed := c # completed (pl_wq s)\<rparr>, pl_blocked := (pl_blocked s)[i := False]\<rparr>"
  shows "promise_ok cfg t f k"
proof (cases "(f, k) = c")
  case True
  then have "promise_read cfg s f k"
    using data_invD(1) [OF di, of f k] r(1,2,3)
    by (auto simp: promise_ok_def promise_fresh_def deliver_returns_def holds_slice_def split: if_splits)
  then show ?thesis
    using True t r data_invD(1) [OF di, of f k]
    by (auto simp: promise_ok_def promise_read_def promise_fresh_def deliver_returns_def split: if_splits)
next
  case False
  then have h: "holds_slice t l (f, k) = holds_slice s l (f, k)" for l
    using r t by (auto simp: holds_slice_def nth_list_update)
  then show ?thesis
    using False t by (intro promise_ok_frame [OF data_invD(1) [OF di]]) auto
qed

section \<open>Reading\<close>

text \<open>The four outcomes of a read: it blocks; it brings data, ends the chunk, or reports an error.\<close>

lemma consumer_read_fresh:
  assumes "promise_fresh s f (pl_pos s f)"
  shows "consumer_read s f n = None"
  using assms by (simp add: consumer_read_def promise_fresh_def)

lemma consumer_read_error:
  assumes "ready_closed (pl_promise s (f, pl_pos s f))" "promise_delivered cfg s f (pl_pos s f)"
    "snd (pl_job cfg (f, pl_pos s f)) = Some e"
  shows "consumer_read s f n = Some (Ret ([], Some e, pl_promise s (f, pl_pos s f)))"
  using assms by (simp add: consumer_read_def promise_delivered_def Read_def)

lemma consumer_read_data:
  assumes "ready_closed (pl_promise s (f, pl_pos s f))" "promise_delivered cfg s f (pl_pos s f)"
    "pl_job cfg (f, pl_pos s f) = (d, None)" "r = read_pos (pl_promise s (f, pl_pos s f))" "r < length d"
  shows "consumer_read s f n = Some (Ret (take n (drop r d), None,
     (pl_promise s (f, pl_pos s f))\<lparr>p_reader :=
        Some \<lparr>rd_len = length d, rd_pos = r + length (take n (drop r d))\<rparr>\<rparr>))"
  using assms
  by (simp add: consumer_read_def promise_delivered_def promise_data_def Read_def reader_read_def Let_def)

lemma consumer_read_eof:
  assumes "ready_closed (pl_promise s (f, pl_pos s f))" "\<not> finished_closed (pl_promise s (f, pl_pos s f))"
    "promise_delivered cfg s f (pl_pos s f)" "pl_job cfg (f, pl_pos s f) = (d, None)"
    "read_pos (pl_promise s (f, pl_pos s f)) = length d"
  shows "consumer_read s f n = Some (Ret ([], Some (Sentinel EOF),
     (pl_promise s (f, pl_pos s f))\<lparr>finished_closed := True, p_buf := None, p_err := Some (Sentinel EOF)\<rparr>))"
  using assms
  by (auto simp: consumer_read_def promise_delivered_def promise_data_def Read_def reader_read_def Let_def)

lemma consumer_read_cases:
  assumes "promise_ok cfg s f (pl_pos s f)"
  obtains
    (fresh) "promise_fresh s f (pl_pos s f)" "consumer_read s f n = None"
  | (error) d e where "pl_job cfg (f, pl_pos s f) = (d, Some e)" "promise_delivered cfg s f (pl_pos s f)"
      "ready_closed (pl_promise s (f, pl_pos s f))" "\<not> finished_closed (pl_promise s (f, pl_pos s f))"
      "consumer_read s f n = Some (Ret ([], Some e, pl_promise s (f, pl_pos s f)))"
  | (data) d r where "pl_job cfg (f, pl_pos s f) = (d, None)" "promise_delivered cfg s f (pl_pos s f)"
      "ready_closed (pl_promise s (f, pl_pos s f))" "\<not> finished_closed (pl_promise s (f, pl_pos s f))"
      "r = read_pos (pl_promise s (f, pl_pos s f))" "r < length d"
      "consumer_read s f n = Some (Ret (take n (drop r d), None,
        (pl_promise s (f, pl_pos s f))\<lparr>p_reader :=
           Some \<lparr>rd_len = length d, rd_pos = r + length (take n (drop r d))\<rparr>\<rparr>))"
  | (eof) d where "pl_job cfg (f, pl_pos s f) = (d, None)" "promise_delivered cfg s f (pl_pos s f)"
      "ready_closed (pl_promise s (f, pl_pos s f))" "\<not> finished_closed (pl_promise s (f, pl_pos s f))"
      "read_pos (pl_promise s (f, pl_pos s f)) = length d"
      "consumer_read s f n = Some (Ret ([], Some (Sentinel EOF),
        (pl_promise s (f, pl_pos s f))\<lparr>finished_closed := True, p_buf := None, p_err := Some (Sentinel EOF)\<rparr>))"
proof -
  let ?p = "pl_promise s (f, pl_pos s f)"
  obtain d e where j: "pl_job cfg (f, pl_pos s f) = (d, e)" by fastforce
  consider "\<not> ready_closed ?p" "promise_fresh s f (pl_pos s f)"
    | "ready_closed ?p" "\<not> finished_closed ?p" "promise_delivered cfg s f (pl_pos s f)"
    using assms by (auto simp: promise_ok_def promise_read_def split: if_splits)
  then show ?thesis
  proof cases
    case 1
    then show ?thesis by (intro fresh consumer_read_fresh)
  next
    case dl: 2
    show ?thesis
    proof (cases e)
      case (Some x)
      with j have "pl_job cfg (f, pl_pos s f) = (d, Some x)" by simp
      then show ?thesis by (intro error [OF _ dl(3,1,2)] consumer_read_error [OF dl(1,3)]) simp_all
    next
      case None
      with j dl(3) have "read_pos ?p \<le> length d"
        by (simp add: promise_delivered_def promise_data_def Let_def)
      then consider "read_pos ?p < length d" | "read_pos ?p = length d" by linarith
      then show ?thesis
      proof cases
        case 1
        then show ?thesis
          using j None by (intro data [OF _ dl(3,1,2) refl] consumer_read_data [OF dl(1,3) _ refl]) simp_all
      next
        case 2
        then show ?thesis
          using j None by (intro eof [OF _ dl(3,1,2)] consumer_read_eof [OF dl]) simp_all
      qed
    qed
  qed
qed

text \<open>Reading on in the same chunk.\<close>

lemma data_inv_read_data:
  assumes di: "data_inv cfg s" and j: "pl_job cfg (f, pl_pos s f) = (d, None)"
    and dl: "promise_delivered cfg s f (pl_pos s f)" "ready_closed (pl_promise s (f, pl_pos s f))"
      "\<not> finished_closed (pl_promise s (f, pl_pos s f))"
    and r: "r = read_pos (pl_promise s (f, pl_pos s f))" "r < length d"
    and p': "p' = (pl_promise s (f, pl_pos s f))\<lparr>p_reader :=
        Some \<lparr>rd_len = length d, rd_pos = r + length (take n (drop r d))\<rparr>\<rparr>"
    and t: "t = s\<lparr>pl_promise := (pl_promise s)((f, pl_pos s f) := p'),
       pl_out := (pl_out s)(f := pl_out s f @ take n (drop r d))\<rparr>"
  shows "data_inv cfg t"
proof -
  have h: "holds_slice t i c = holds_slice s i c" for i c by (simp add: holds_slice_def t)
  have pr: "promise_ok cfg t g m" for g m
  proof (cases "(g, m) = (f, pl_pos s f)")
    case True
    then show ?thesis using dl j r(2) p' h t
      by (simp add: promise_ok_def promise_delivered_def promise_data_def Let_def)
  next
    case False
    then show ?thesis by (intro promise_ok_frame [OF data_invD(1) [OF di]]) (use h t in auto)
  qed
  have "take r d @ take n (drop r d) = take (r + length (take n (drop r d))) d"
    using take_take_append [of "take r d" d "take n (drop r d)" n] r(2) by simp
  moreover have "read_pos p' = r + length (take n (drop r d))" by (simp add: p')
  moreover have "good cfg (f, pl_pos s f) = d" using j by (simp add: good_def)
  ultimately have "pl_out t f = concat (map (\<lambda>k. good cfg (f, k)) [0..<pl_pos t f]) @
      take (read_pos (pl_promise t (f, pl_pos t f))) (good cfg (f, pl_pos t f))"
    using data_invD(2) [OF di, of f] r(1) by (simp add: file_ok_def t)
  then have "file_ok cfg t f"
    using data_invD(2) [OF di, of f] unfolding file_ok_def by (simp add: t)
  moreover have "file_ok cfg t g" if "g \<noteq> f" for g
    using that by (intro file_ok_frame [OF data_invD(2) [OF di]]) (simp_all add: t)
  ultimately have "file_ok cfg t g" for g by (cases "g = f") auto
  with pr data_invD(3) [OF di] show ?thesis by (simp add: data_inv_def t)
qed

text \<open>Nothing of the chunks behind the consumer's position has been read.\<close>

lemma read_pos_ahead:
  assumes "data_inv cfg s" "pl_pos s f < m"
  shows "take (read_pos (pl_promise s (f, m))) (good cfg (f, m)) = []"
  using data_invD(1) [OF assms(1), of f m] assms(2)
  by (auto simp: promise_ok_def promise_fresh_def promise_read_def promise_delivered_def promise_data_def
      good_def Let_def split: if_splits option.splits)

lemma promise_ok_next:
  assumes "promise_ok cfg s f m" "m \<noteq> pl_pos s f"
    and "pl_promise t (f, m) = pl_promise s (f, m)" "pl_holder t = pl_holder s" "pl_pos t f = Suc (pl_pos s f)"
    and "pl_bufs t = pl_bufs s" "pl_wq t = pl_wq s" "pl_blocked t = pl_blocked s" "pl_stage t = pl_stage s"
  shows "promise_ok cfg t f m"
proof -
  have "holds_slice t i c = holds_slice s i c" for i c using assms(7,8) by (simp add: holds_slice_def)
  with assms show ?thesis unfolding promise_defs Let_def
    by (auto split: if_splits option.splits simp: less_Suc_eq_le)
qed

text \<open>Going on to the next chunk, after the end of the data or a delivered \<open>io.EOF\<close>.\<close>

lemma data_inv_read_next:
  assumes di: "data_inv cfg s" and lt: "reading_file cfg s f"
    and dl: "promise_delivered cfg s f (pl_pos s f)" "ready_closed (pl_promise s (f, pl_pos s f))"
      "\<not> finished_closed (pl_promise s (f, pl_pos s f))"
    and out: "take (read_pos (pl_promise s (f, pl_pos s f))) (good cfg (f, pl_pos s f)) = good cfg (f, pl_pos s f)"
    and p': "snd (pl_job cfg (f, pl_pos s f)) = None \<and> ready_closed p' \<and> finished_closed p' \<or>
      snd (pl_job cfg (f, pl_pos s f)) = Some (Sentinel EOF) \<and> p' = pl_promise s (f, pl_pos s f)"
    and t: "t = s\<lparr>pl_promise := (pl_promise s)((f, pl_pos s f) := p'), pl_out := (pl_out s)(f := pl_out s f @ []),
       pl_pos := (pl_pos s)(f := Suc (pl_pos s f))\<rparr>"
  shows "data_inv cfg t"
proof -
  have h: "holds_slice t i c = holds_slice s i c" for i c by (simp add: holds_slice_def t)
  have pr: "promise_ok cfg t g m" for g m
  proof -
    consider "g = f" "m = pl_pos s f" | "g = f" "m \<noteq> pl_pos s f" | "g \<noteq> f" by blast
    then show ?thesis
    proof cases
      case 1
      then show ?thesis using dl p' h t
        by (auto simp: promise_ok_def promise_read_def promise_delivered_def)
    next
      case 2
      then show ?thesis using promise_ok_next [OF data_invD(1) [OF di]] t by simp
    next
      case 3
      then show ?thesis by (intro promise_ok_frame [OF data_invD(1) [OF di]]) (use h t in auto)
    qed
  qed
  have "pl_out s f = concat (map (\<lambda>k. good cfg (f, k)) [0..<Suc (pl_pos s f)])"
    using data_invD(2) [OF di, of f] out by (simp add: file_ok_def)
  moreover have "Suc (pl_pos s f) \<le> pl_chunks cfg f" "pl_err s f = None" "submitting (pl_stage s f)"
    using lt data_invD(2) [OF di, of f] by (auto simp: reading_file_def file_over_def file_ok_def submitting_def)
  ultimately have "file_ok cfg t f"
    using read_pos_ahead [OF di lessI, of f] by (auto simp: file_ok_def t)
  moreover have "file_ok cfg t g" if "g \<noteq> f" for g
    using that by (intro file_ok_frame [OF data_invD(2) [OF di]]) (simp_all add: t)
  ultimately have "file_ok cfg t g" for g by (cases "g = f") auto
  with pr data_invD(3) [OF di] show ?thesis by (simp add: data_inv_def t)
qed

lemma data_inv_read_stop:
  assumes di: "data_inv cfg s" and lt: "reading_file cfg s f"
    and j: "snd (pl_job cfg (f, pl_pos s f)) = Some e" "e \<noteq> Sentinel EOF"
  shows "data_inv cfg (s\<lparr>pl_promise := (pl_promise s)((f, pl_pos s f) := pl_promise s (f, pl_pos s f)),
     pl_out := (pl_out s)(f := pl_out s f @ []), pl_err := (pl_err s)(f := Some e)\<rparr>)" (is "data_inv cfg ?t")
proof -
  have h: "holds_slice ?t i c = holds_slice s i c" for i c by (simp add: holds_slice_def)
  have pr: "promise_ok cfg ?t g m" for g m
    by (rule promise_ok_frame [OF data_invD(1) [OF di] _ _ _ h]) simp_all
  have "pl_pos s f < pl_chunks cfg f" "submitting (pl_stage s f)"
    using lt data_invD(2) [OF di, of f] by (auto simp: reading_file_def file_over_def file_ok_def submitting_def)
  then have "file_ok cfg ?t f"
    using data_invD(2) [OF di, of f] j by (auto simp: file_ok_def)
  moreover have "file_ok cfg ?t g" if "g \<noteq> f" for g
    using that by (intro file_ok_frame [OF data_invD(2) [OF di]]) simp_all
  ultimately have "file_ok cfg ?t g" for g by (cases "g = f") auto
  with pr data_invD(3) [OF di] show ?thesis by (simp add: data_inv_def)
qed

lemma data_inv_read:
  assumes di: "data_inv cfg s" and rf: "reading_file cfg s f"
    and rd: "consumer_read s f n = Some (Ret (d, e, p'))"
    and t: "t = s\<lparr>pl_promise := (pl_promise s)((f, pl_pos s f) := p'),
       pl_out := (pl_out s)(f := pl_out s f @ d),
       pl_pos := (if e = Some (Sentinel EOF) then (pl_pos s)(f := Suc (pl_pos s f)) else pl_pos s),
       pl_err := (if e = Some (Sentinel EOF) then pl_err s else (pl_err s)(f := e))\<rparr>"
  shows "data_inv cfg t"
  using data_invD(1) [OF di, of f "pl_pos s f"]
proof (cases rule: consumer_read_cases [where n = n])
  case fresh
  with rd show ?thesis by simp
next
  case (error d' x)
  show ?thesis
  proof (cases "x = Sentinel EOF")
    case True
    with error rd t show ?thesis
      by (intro data_inv_read_next [OF di rf error(2,3,4)]) (auto simp: good_def)
  next
    case False
    with error rd t data_inv_read_stop [OF di rf _ False] show ?thesis by simp
  qed
next
  case (data d' r)
  have none: "pl_err s f = None" using rf by (simp add: reading_file_def file_over_def)
  then have "(pl_err s)(f := None) = pl_err s" by auto
  with data(7) rd t show ?thesis
    by (intro data_inv_read_data [OF di data(1-6) refl, of _ n]) simp
next
  case (eof d')
  with rd t show ?thesis
    by (intro data_inv_read_next [OF di rf eof(2,3,4)]) (auto simp: good_def)
qed

lemma consumer_read_no_panic:
  assumes "promise_ok cfg s f (pl_pos s f)"
  shows "consumer_read s f n \<noteq> Some (Panic msg)"
  using assms by (cases rule: consumer_read_cases [where n = n]) auto

section \<open>The invariant is kept\<close>

text \<open>Steps of \<open>Fetch\<close> and of the workers before \<open>Deliver\<close>.\<close>

lemma data_inv_sched:
  assumes si: "sched_inv cfg s" and di: "data_inv cfg s"
    and st: "\<And>i c. holds_slice t i c = holds_slice s i c"
    and eq: "pl_promise t = pl_promise s" "pl_holder t = pl_holder s" "pl_pos t = pl_pos s" "pl_bufs t = pl_bufs s"
      "pl_out t = pl_out s" "pl_panic t = pl_panic s"
    and c: "completed (pl_wq t) = completed (pl_wq s) \<or>
      completed (pl_wq t) = (f, 0) # completed (pl_wq s) \<and> pl_stage t f = FirstFailed"
    and f: "\<And>g. g \<noteq> f \<Longrightarrow> pl_stage t g = pl_stage s g \<and> pl_err t g = pl_err s g"
    and stage: "pl_stage s f \<noteq> FirstFailed" "submitting (pl_stage s f) \<longrightarrow> submitting (pl_stage t f)"
    and err: "pl_stage t f \<noteq> FirstFailed \<and> pl_err t f = pl_err s f \<or>
      pl_stage t f = FirstFailed \<and> pl_err t f = pl_first cfg f \<and> pl_first cfg f \<noteq> None"
  shows "data_inv cfg t"
proof -
  have "promise_ok cfg t g m" for g m
  proof (rule promise_ok_frame [OF data_invD(1) [OF di, of g m]])
    show "pl_stage s g = FirstFailed \<Longrightarrow> pl_stage t g = FirstFailed" using f [of g] stage by (cases "g = f") auto
  qed (use c eq st in auto)
  moreover have "file_ok cfg t g" for g
  proof (cases "g = f")
    case True
    show ?thesis
      using err data_invD(2) [OF di, of f] stage unfolding True file_ok_def eq
      by (elim disjE) (simp_all, blast+)
  next
    case False
    then show ?thesis using eq f by (intro file_ok_frame [OF data_invD(2) [OF di]]) simp_all
  qed
  ultimately show ?thesis using data_invD(3) [OF di] eq(6) by (simp add: data_inv_def)
qed

lemma data_inv_step:
  assumes v: "pl_valid cfg" and si: "sched_inv cfg s" and di: "data_inv cfg s" and st: "pl_step cfg s t"
  shows "data_inv cfg t"
  using st
proof cases
  case (pl_begin f)
  then show ?thesis by (intro data_inv_sched [OF si di, where f = f]) (simp_all add: holds_slice_def)
next
  case (pl_turn i pick q' wk)
  have h: "holds_slice t j c = holds_slice s j c" for j c
    using holds_slice_turn [OF sched_invD(4) [OF si] pl_turn(2,3,1)] .
  show ?thesis
  proof -
    have "promise_ok cfg t f k" for f k
      by (rule promise_ok_frame [OF data_invD(1) [OF di] _ _ _ h]) (simp_all add: pl_turn(1))
    moreover have "file_ok cfg t f" for f
      by (rule file_ok_frame [OF data_invD(2) [OF di]]) (simp_all add: pl_turn(1))
    ultimately show ?thesis using data_invD(3) [OF di] by (simp add: data_inv_def pl_turn(1))
  qed
next
  case (pl_first_error i f e)
  have "\<not> holds_slice s i (f, 0)"
    using holds_slice_stage [OF sched_invD(4) [OF si], of i f 0] pl_first_error by auto
  then have "holds_slice t j c = holds_slice s j c" for j c
    using pl_first_error by (auto simp: holds_slice_def nth_list_update)
  then show ?thesis using pl_first_error by (intro data_inv_sched [OF si di, where f = f]) simp_all
next
  case (pl_first_answer i f)
  then show ?thesis by (intro data_inv_sched [OF si di, where f = f]) (simp_all add: holds_slice_def)
next
  case (pl_next f k)
  then show ?thesis by (intro data_inv_sched [OF si di, where f = f]) (simp_all add: holds_slice_def)
next
  case (pl_deliver i f k d e p')
  have rp: "read_pos (pl_promise t c) = read_pos (pl_promise s c)" for c
    using pl_deliver(1) promise_before_deliver_new [OF si di pl_deliver(2,3)] Deliver_read_pos pl_deliver(6)
    by (cases "c = (f, k)") simp_all
  have "file_ok cfg t g" for g
    by (rule file_ok_frame [OF data_invD(2) [OF di] _ _ _ _ rp]) (simp_all add: pl_deliver(1))
  then show ?thesis
    using promise_ok_deliver [OF si di v pl_deliver(2,3,5,6,1)] data_invD(3) [OF di]
    by (simp add: data_inv_def pl_deliver(1))
next
  case (pl_deliver_panic i f k d e msg)
  then show ?thesis
    using promise_before_deliver_new [OF si di pl_deliver_panic(2,3)] by (simp add: Deliver_new)
next
  case (pl_return i c)
  have "file_ok cfg t f" for f
    by (rule file_ok_frame [OF data_invD(2) [OF di]]) (simp_all add: pl_return(1))
  then show ?thesis
    using promise_ok_return [OF si di pl_return(2-4,1)] data_invD(3) [OF di]
    by (simp add: data_inv_def pl_return(1))
next
  case (pl_read f n d e p')
  then show ?thesis using data_inv_read [OF di] by blast
next
  case (pl_read_panic f n msg)
  then show ?thesis
    using consumer_read_no_panic [OF data_invD(1) [OF di]] by simp
qed

definition pl_inv :: "pl_config \<Rightarrow> pl_sys \<Rightarrow> bool" where
  "pl_inv cfg s \<longleftrightarrow> pl_valid cfg \<and> sched_inv cfg s \<and> data_inv cfg s"

lemma data_inv_init: "pl_init cfg s \<Longrightarrow> data_inv cfg s"
  using workers_ok_def [of cfg s] sched_invD(4) [OF sched_inv_init]
  by (auto simp: pl_init_def data_inv_def promise_ok_def promise_fresh_def file_ok_def wq_init_def
      holds_slice_def)

interpretation pl: invariant_system "\<lambda>s. pl_valid cfg \<and> pl_init cfg s" "pl_step cfg" "pl_inv cfg" for cfg
proof unfold_locales
  show "pl_valid cfg \<and> pl_init cfg s \<Longrightarrow> pl_inv cfg s" for s
    using sched_inv_init data_inv_init by (simp add: pl_inv_def)
  show "pl_inv cfg s \<Longrightarrow> pl_step cfg s t \<Longrightarrow> pl_inv cfg t" for s t
    using sched_inv_step data_inv_step unfolding pl_inv_def by blast
qed

end
