(* ===== verification/Pipeline_Runs.thy ===== *)
theory Pipeline_Runs
  imports Download_Pipeline
begin

text \<open>
  The runs of the goroutines of \<open>Download_Pipeline\<close>: every run ends, without failing chunks no run
  gets stuck before all files are read, consumers read what reading the deliveries in order
  returns, and errors can stall all workers for ever. The jobs can be those of calls of \<open>Fetch\<close>.
\<close>

section \<open>Every run ends\<close>

text \<open>
  Steps that are left: a chunk is submitted, taken by a worker, delivered, and its worker returns;
  a file's first request is sent and answered, and the reading of its chunks advances byte by byte.
\<close>

definition promise_budget :: "pl_config \<Rightarrow> pl_sys \<Rightarrow> chunk_id \<Rightarrow> nat" where
  "promise_budget cfg s c =
     (let p = pl_promise s c; n = length (fst (pl_job cfg c))
      in if finished_closed p then 0 else if ready_closed p then Suc (n - read_pos p) else Suc (Suc n))"

fun stage_budget :: "fetch_stage \<Rightarrow> nat" where
  "stage_budget NotStarted = 2"
| "stage_budget FirstQueued = 1"
| "stage_budget _ = 0"

fun worker_budget :: "chunk_id worker \<Rightarrow> nat" where
  "worker_budget AtSelect = 1"
| "worker_budget AtInnerSelect = 0"
| "worker_budget (Running c) = 2"

definition file_budget :: "pl_config \<Rightarrow> pl_sys \<Rightarrow> nat \<Rightarrow> nat" where
  "file_budget cfg s f = 4 * (pl_chunks cfg f - sent (pl_stage s f)) + stage_budget (pl_stage s f) +
     (pl_chunks cfg f - pl_pos s f) + (if pl_err s f = None then 1 else 0)"

definition sched_budget :: "chunk_id wq_sys \<Rightarrow> nat" where
  "sched_budget w = 3 * (length (highPriority (queue w)) + length (lowPriority (queue w))) +
     (\<Sum>wk\<leftarrow>workers w. worker_budget wk)"

definition pl_budget :: "pl_config \<Rightarrow> pl_sys \<Rightarrow> nat" where
  "pl_budget cfg s = sched_budget (pl_wq s) + (\<Sum>f<pl_files cfg. file_budget cfg s f) +
     (\<Sum>f<pl_files cfg. \<Sum>k<pl_chunks cfg f. promise_budget cfg s (f, k))"

lemma sum_change_one:
  assumes "(x :: nat) < n" "\<And>y. y \<noteq> x \<Longrightarrow> g y = h y"
  shows "(\<Sum>y<n. g y) + h x = (\<Sum>y<n. h y) + (g x :: nat)"
proof -
  have "(\<Sum>y<n. g y) = g x + (\<Sum>y\<in>{..<n} - {x}. g y)" "(\<Sum>y<n. h y) = h x + (\<Sum>y\<in>{..<n} - {x}. h y)"
    using assms(1) sum.remove [of "{..<n}" x g] sum.remove [of "{..<n}" x h] by simp_all
  moreover have "(\<Sum>y\<in>{..<n} - {x}. g y) = (\<Sum>y\<in>{..<n} - {x}. h y)"
    using assms(2) by (intro sum.cong) auto
  ultimately show ?thesis by simp
qed

lemma sum_list_upd:
  "i < length xs \<Longrightarrow> (\<Sum>x\<leftarrow>xs[i := y]. g x) + g (xs ! i) = (\<Sum>x\<leftarrow>xs. g x) + (g y :: nat)"
  by (induction xs arbitrary: i) (auto split: nat.splits)

lemma file_budget_change:
  assumes "f < pl_files cfg" "\<And>g. g \<noteq> f \<Longrightarrow> file_budget cfg t g = file_budget cfg s g"
  shows "(\<Sum>f<pl_files cfg. file_budget cfg t f) + file_budget cfg s f =
     (\<Sum>f<pl_files cfg. file_budget cfg s f) + file_budget cfg t f"
  by (rule sum_change_one [OF assms])

lemma promise_budget_change:
  assumes "f < pl_files cfg" "k < pl_chunks cfg f" "\<And>c. c \<noteq> (f, k) \<Longrightarrow> pl_promise t c = pl_promise s c"
  shows "(\<Sum>f<pl_files cfg. \<Sum>k<pl_chunks cfg f. promise_budget cfg t (f, k)) + promise_budget cfg s (f, k) =
     (\<Sum>f<pl_files cfg. \<Sum>k<pl_chunks cfg f. promise_budget cfg s (f, k)) + promise_budget cfg t (f, k)"
proof -
  have eq: "promise_budget cfg t c = promise_budget cfg s c" if "c \<noteq> (f, k)" for c
    using assms(3) [OF that] by (simp add: promise_budget_def)
  have "(\<Sum>m<pl_chunks cfg f. promise_budget cfg t (f, m)) + promise_budget cfg s (f, k) =
      (\<Sum>m<pl_chunks cfg f. promise_budget cfg s (f, m)) + promise_budget cfg t (f, k)"
    using assms(2) eq by (intro sum_change_one) auto
  moreover have "(\<Sum>g<pl_files cfg. \<Sum>m<pl_chunks cfg g. promise_budget cfg t (g, m)) +
      (\<Sum>m<pl_chunks cfg f. promise_budget cfg s (f, m)) =
    (\<Sum>g<pl_files cfg. \<Sum>m<pl_chunks cfg g. promise_budget cfg s (g, m)) +
      (\<Sum>m<pl_chunks cfg f. promise_budget cfg t (f, m))"
    using assms(1) eq by (intro sum_change_one) auto
  ultimately show ?thesis by linarith
qed

lemma sched_budget_turn:
  assumes "i < length (workers w)" "run_turn pick (queue w) (workers w ! i) = Some (q', wk)"
  shows "sched_budget (w\<lparr>queue := q', workers := (workers w)[i := wk]\<rparr>) < sched_budget w"
proof -
  have "3 * (length (highPriority q') + length (lowPriority q')) + worker_budget wk <
      3 * (length (highPriority (queue w)) + length (lowPriority (queue w))) + worker_budget (workers w ! i)"
    using assms(2) by (cases "workers w ! i") (auto split: list.splits if_splits)
  with sum_list_upd [OF assms(1), of worker_budget wk] show ?thesis by (simp add: sched_budget_def)
qed

lemma sched_budget_finish:
  assumes "i < length (workers w)" "workers w ! i = Running c"
  shows "sched_budget (w\<lparr>workers := (workers w)[i := AtSelect], completed := cs\<rparr>) < sched_budget w"
  using sum_list_upd [OF assms(1), of worker_budget AtSelect] assms(2) by (simp add: sched_budget_def)

lemma sched_budget_submit:
  "sched_budget (w\<lparr>queue := submitLow c (queue w), submitted := cs\<rparr>) = sched_budget w + 3"
  "sched_budget (w\<lparr>queue := submitHigh c (queue w), submitted := cs\<rparr>) = sched_budget w + 3"
  by (simp_all add: sched_budget_def submitLow_def submitHigh_def)

lemma pl_budget_sched:
  assumes "pl_promise t = pl_promise s" "\<And>f. file_budget cfg t f = file_budget cfg s f"
    and "sched_budget (pl_wq t) < sched_budget (pl_wq s)"
  shows "pl_budget cfg t < pl_budget cfg s"
  using assms by (simp add: pl_budget_def promise_budget_def)

lemma pl_budget_file:
  assumes "f < pl_files cfg" "pl_promise t = pl_promise s"
    and "\<And>g. g \<noteq> f \<Longrightarrow> pl_stage t g = pl_stage s g \<and> pl_pos t g = pl_pos s g \<and> pl_err t g = pl_err s g"
    and "sched_budget (pl_wq t) + file_budget cfg t f < sched_budget (pl_wq s) + file_budget cfg s f"
  shows "pl_budget cfg t < pl_budget cfg s"
proof -
  have "(\<Sum>f<pl_files cfg. file_budget cfg t f) + file_budget cfg s f =
      (\<Sum>f<pl_files cfg. file_budget cfg s f) + file_budget cfg t f"
    by (rule file_budget_change [OF assms(1)]) (simp add: file_budget_def assms(3))
  moreover have "promise_budget cfg t = promise_budget cfg s"
    by (rule ext) (simp add: promise_budget_def assms(2))
  ultimately show ?thesis using assms(4) by (simp add: pl_budget_def)
qed

lemma pl_budget_chunk:
  assumes "f < pl_files cfg" "k < pl_chunks cfg f" "\<And>c. c \<noteq> (f, k) \<Longrightarrow> pl_promise t c = pl_promise s c"
    and "pl_wq t = pl_wq s" "pl_stage t = pl_stage s"
    and "\<And>g. g \<noteq> f \<Longrightarrow> pl_pos t g = pl_pos s g \<and> pl_err t g = pl_err s g"
    and "promise_budget cfg t (f, k) + file_budget cfg t f < promise_budget cfg s (f, k) + file_budget cfg s f"
  shows "pl_budget cfg t < pl_budget cfg s"
proof -
  have "(\<Sum>f<pl_files cfg. file_budget cfg t f) + file_budget cfg s f =
      (\<Sum>f<pl_files cfg. file_budget cfg s f) + file_budget cfg t f"
    by (rule file_budget_change [OF assms(1)]) (simp add: file_budget_def assms(5,6))
  with promise_budget_change [OF assms(1-3)] assms(4,7) show ?thesis by (simp add: pl_budget_def)
qed

text \<open>A read that brings data, ends a chunk or ends the file uses up some of the budget.\<close>

lemma pl_budget_read:
  assumes di: "data_inv cfg s" and rf: "reading_file cfg s f" and n: "0 < n"
    and rd: "consumer_read s f n = Some (Ret (d, e, p'))"
    and t: "t = s\<lparr>pl_promise := (pl_promise s)((f, pl_pos s f) := p'),
       pl_out := (pl_out s)(f := pl_out s f @ d),
       pl_pos := (if e = Some (Sentinel EOF) then (pl_pos s)(f := Suc (pl_pos s f)) else pl_pos s),
       pl_err := (if e = Some (Sentinel EOF) then pl_err s else (pl_err s)(f := e))\<rparr>"
  shows "pl_budget cfg t < pl_budget cfg s"
proof -
  let ?c = "(f, pl_pos s f)"
  have lt: "pl_pos s f < pl_chunks cfg f" "pl_err s f = None" "f < pl_files cfg"
    using rf data_invD(2) [OF di, of f] by (auto simp: reading_file_def file_over_def file_ok_def)
  have "promise_budget cfg t ?c + file_budget cfg t f < promise_budget cfg s ?c + file_budget cfg s f"
    using data_invD(1) [OF di, of f "pl_pos s f"]
  proof (cases rule: consumer_read_cases [where n = n])
    case fresh
    with rd show ?thesis by simp
  next
    case (error d' x)
    with rd have "p' = pl_promise s ?c" "e = Some x" by simp_all
    with lt show ?thesis by (auto simp: t promise_budget_def file_budget_def Let_def)
  next
    case (data d' r)
    have p: "p' = (pl_promise s ?c)\<lparr>p_reader :=
        Some \<lparr>rd_len = length d', rd_pos = r + length (take n (drop r d'))\<rparr>\<rparr>" "e = None"
      using data(7) by (simp_all only: rd option.inject outcome.inject prod.inject)
    have "length d' - (r + length (take n (drop r d'))) < length d' - r" using n data(6) by auto
    with data p have "promise_budget cfg t ?c < promise_budget cfg s ?c"
      by (simp add: t promise_budget_def Let_def)
    moreover have "file_budget cfg t f = file_budget cfg s f" using p(2) lt by (simp add: t file_budget_def)
    ultimately show ?thesis by simp
  next
    case (eof d')
    with rd have "finished_closed p'" "e = Some (Sentinel EOF)" by auto
    with eof(3,4) lt show ?thesis by (simp add: t promise_budget_def file_budget_def Let_def)
  qed
  then show ?thesis using lt by (intro pl_budget_chunk [of f _ "pl_pos s f"]) (auto simp: t)
qed

lemma pl_budget_step:
  assumes "pl_inv cfg s" "pl_step cfg s t"
  shows "pl_budget cfg t < pl_budget cfg s"
proof -
  have v: "pl_valid cfg" and si: "sched_inv cfg s" and di: "data_inv cfg s"
    using assms(1) by (simp_all add: pl_inv_def)
  from assms(2) show ?thesis
  proof cases
    case (pl_begin f)
    obtain m where "pl_chunks cfg f = Suc m" using v by (metis pl_valid_def gr0_implies_Suc)
    with pl_begin show ?thesis
      by (intro pl_budget_file [of f]) (simp_all add: sched_budget_submit file_budget_def)
  next
    case (pl_turn i pick q' wk)
    then show ?thesis
      using sched_budget_turn [OF pl_turn(2,3)] by (intro pl_budget_sched) (simp_all add: file_budget_def)
  next
    case (pl_first_error i f e)
    then show ?thesis
      using runs_stage [OF si pl_first_error(2)] sched_budget_finish [of i "pl_wq s" "(f, 0)" "(f, 0) # completed (pl_wq s)"]
      by (intro pl_budget_file [of f]) (simp_all add: file_budget_def)
  next
    case (pl_first_answer i f)
    then show ?thesis using runs_stage [OF si pl_first_answer(2)]
      by (intro pl_budget_file [of f]) (simp_all add: file_budget_def)
  next
    case (pl_next f k)
    then show ?thesis by (intro pl_budget_file [of f]) (simp_all add: sched_budget_submit file_budget_def)
  next
    case (pl_deliver i f k d e p')
    have "f < pl_files cfg" "k < pl_chunks cfg f"
      using runs_stage [OF si pl_deliver(2)] runs_chunk [OF si pl_deliver(2,4)] by simp_all
    moreover have "promise_budget cfg t (f, k) < promise_budget cfg s (f, k)"
      using pl_deliver(1,5,6) promise_before_deliver_new [OF si di pl_deliver(2,3)]
      by (auto simp: promise_budget_def Deliver_new read_pos_def)
    ultimately show ?thesis using pl_deliver(1)
      by (intro pl_budget_chunk [of f _ k]) (auto simp: file_budget_def)
  next
    case (pl_deliver_panic i f k d e msg)
    then show ?thesis
      using promise_before_deliver_new [OF si di pl_deliver_panic(2,3)] by (simp add: Deliver_new)
  next
    case (pl_return i c)
    then show ?thesis
      using sched_budget_finish [of i "pl_wq s" c] by (intro pl_budget_sched) (simp_all add: file_budget_def)
  next
    case (pl_read f n d e p')
    then show ?thesis using pl_budget_read [OF di] by blast
  next
    case (pl_read_panic f n msg)
    then show ?thesis using consumer_read_no_panic [OF data_invD(1) [OF di]] by simp
  qed
qed

interpretation pl: bounded_system "\<lambda>s. pl_valid cfg \<and> pl_init cfg s" "pl_step cfg" "pl_inv cfg" "pl_budget cfg"
  for cfg
  by unfold_locales (rule pl_budget_step)

section \<open>No run gets stuck without an error\<close>

definition jobs_succeed :: "pl_config \<Rightarrow> bool" where
  "jobs_succeed cfg \<longleftrightarrow> (\<forall>f < pl_files cfg. \<forall>k < pl_chunks cfg f. snd (pl_job cfg (f, k)) = None)"

lemma pl_invD:
  assumes "pl_inv cfg s"
  shows "pl_valid cfg" "sched_inv cfg s" "data_inv cfg s"
  using assms by (simp_all add: pl_inv_def)

text \<open>The chunk a consumer waits for has not left its worker.\<close>

lemma head_not_completed:
  assumes "pl_inv cfg s" "pl_stage s f \<noteq> FirstFailed"
  shows "(f, pl_pos s f) \<notin> set (completed (pl_wq s))"
proof
  assume c: "(f, pl_pos s f) \<in> set (completed (pl_wq s))"
  then have "\<not> holds_slice s i (f, pl_pos s f)" for i
    using runs_stage [OF pl_invD(2) [OF assms(1)], of i f "pl_pos s f"] by (auto simp: holds_slice_def)
  then show False
    using data_invD(1) [OF pl_invD(3) [OF assms(1)], of f "pl_pos s f"] c assms(2)
    by (auto simp: promise_ok_def promise_fresh_def promise_read_def promise_delivered_def split: if_splits)
qed

lemma deliver_enabled:
  assumes "pl_inv cfg s" "runs s i (f, k)" "\<not> pl_blocked s ! i" "pl_stage s f \<noteq> FirstQueued"
  shows "\<exists>t. pl_step cfg s t"
proof -
  obtain d e where "pl_job cfg (f, k) = (d, e)" by fastforce
  from pl_step.pl_deliver [OF assms(2-4) this] show ?thesis
    using promise_before_deliver_new [OF pl_invD(2,3) [OF assms(1)] assms(2,3)] by (metis Deliver_new)
qed

lemma head_progress:
  assumes "pl_inv cfg s" "runs s i (f, pl_pos s f)" "reading_file cfg s f"
  shows "\<exists>t. pl_step cfg s t"
proof (cases "pl_blocked s ! i")
  case True
  then have "\<not> promise_fresh s f (pl_pos s f)"
    using assms(2) by (auto simp: promise_fresh_def holds_slice_def)
  with data_invD(1) [OF pl_invD(3) [OF assms(1)], of f "pl_pos s f"]
  have "\<exists>d e p'. consumer_read s f 1 = Some (Ret (d, e, p'))"
    by (cases rule: consumer_read_cases [where n = 1]) auto
  with pl_step.pl_read [OF assms(3), of 1] show ?thesis by force
next
  case False
  moreover have "pl_stage s f \<noteq> FirstQueued" using assms(3) by (auto simp: reading_file_def)
  ultimately show ?thesis using deliver_enabled [OF assms(1,2)] by blast
qed

text \<open>If a chunk was delivered and waits to be read, the consumer's chunk is in a worker's hands.\<close>

lemma head_runs:
  assumes "pl_inv cfg s" "runs s i (f, k)" "pl_stage s f = Submitting m" "pl_pos s f \<le> k"
  shows "\<exists>j. runs s j (f, pl_pos s f)"
proof (cases "pl_pos s f = k")
  case True
  with assms(2) show ?thesis by blast
next
  case False
  note si = pl_invD(2) [OF assms(1)]
  have km: "k < m" "f < pl_files cfg"
    using runs_submitting [OF si assms(2)] runs_stage [OF si assms(2)] assms(3) by auto
  then have "(f, pl_pos s f) \<in> set (submitted (pl_wq s))"
    using sched_invD(2) [OF si] assms(3,4) by (simp add: submitted_in_order_def)
  moreover have "(f, pl_pos s f) \<notin> set (highPriority (pl_queue s))" "(f, pl_pos s f) \<notin> set (lowPriority (pl_queue s))"
    using sched_invD(3) [OF si] assms(3,4) False km(1) by (auto simp: waiting_last_def)
  ultimately show ?thesis
    using wq_submitted_cases [OF sched_invD(1,5) [OF si]] head_not_completed [OF assms(1), of f] assms(3) by auto
qed

lemma busy_progress:
  assumes inv: "pl_inv cfg s" and ok: "jobs_succeed cfg" and r: "runs s i (f, k)"
  shows "\<exists>t. pl_step cfg s t"
proof -
  note si = pl_invD(2) [OF inv] and di = pl_invD(3) [OF inv]
  consider "pl_stage s f = FirstQueued" | m where "pl_stage s f = Submitting m" "\<not> pl_blocked s ! i"
    | m where "pl_stage s f = Submitting m" "holds_slice s i (f, k)"
    using runs_submitting [OF si r] r by (auto simp: holds_slice_def)
  then show ?thesis
  proof cases
    case 1
    then have "k = 0" using runs_stage [OF si r] by simp
    with 1 r show ?thesis
      by (cases "pl_first cfg f") (auto intro: pl_step.pl_first_answer pl_step.pl_first_error)
  next
    case 2
    then show ?thesis using deliver_enabled [OF inv r] by simp
  next
    case 3
    have k: "f < pl_files cfg" "k < pl_chunks cfg f"
      using runs_stage [OF si r] runs_chunk [OF si r] 3(1) by simp_all
    then have job: "snd (pl_job cfg (f, k)) = None" using ok by (simp add: jobs_succeed_def)
    show ?thesis
    proof (cases "finished_closed (pl_promise s (f, k))")
      case True
      with 3 r show ?thesis using pl_step.pl_return [OF r] by (auto simp: holds_slice_def deliver_returns_def)
    next
      case False
      then have pos: "pl_pos s f \<le> k"
        using data_invD(1) [OF di, of f k] 3(2) job
        by (auto simp: promise_ok_def promise_fresh_def promise_delivered_def promise_data_def Let_def split: if_splits)
      then have "pl_pos s f < pl_chunks cfg f" "snd (pl_job cfg (f, pl_pos s f)) = None"
        using k ok by (simp_all add: jobs_succeed_def)
      then have "reading_file cfg s f"
        using data_invD(2) [OF di, of f] k 3(1)
        by (auto simp: reading_file_def file_over_def file_ok_def)
      then show ?thesis using head_runs [OF inv r 3(1) pos] head_progress [OF inv] by blast
    qed
  qed
qed

lemma idle_progress:
  assumes inv: "pl_inv cfg s" and idle: "\<And>i c. \<not> runs s i c" and w: "waiting_items (pl_queue s) = {#}"
    and f: "f < pl_files cfg" "pl_stage s f \<noteq> NotStarted" "\<not> file_over cfg s f"
  shows "\<exists>t. pl_step cfg s t"
proof -
  note si = pl_invD(2) [OF inv]
  have e: "highPriority (pl_queue s) = []" "lowPriority (pl_queue s) = []"
    using w by (simp_all add: waiting_items_def)
  have fin: "(f, k) \<in> set (completed (pl_wq s))" if "k < sent (pl_stage s f)" for k
    using wq_submitted_cases [OF sched_invD(1,5) [OF si], of "(f, k)"] sched_invD(2) [OF si] f(1) that e idle
    by (auto simp: submitted_in_order_def)
  show ?thesis
  proof (cases "pl_stage s f")
    case FirstQueued
    with fin [of 0] sched_invD(3) [OF si] show ?thesis by (simp add: waiting_last_def)
  next
    case FirstFailed
    with data_invD(2) [OF pl_invD(3) [OF inv], of f] f(3) show ?thesis by (auto simp: file_ok_def file_over_def)
  next
    case (Submitting k)
    show ?thesis
    proof (cases "k < pl_chunks cfg f")
      case True
      from pl_step.pl_next [OF f(1) Submitting True] e show ?thesis by auto
    next
      case False
      then have "pl_pos s f < k"
        using Submitting f(3) data_invD(2) [OF pl_invD(3) [OF inv], of f] by (auto simp: file_ok_def file_over_def)
      with fin [of "pl_pos s f"] head_not_completed [OF inv, of f] Submitting show ?thesis by simp
    qed
  qed (use f(2) in simp)
qed

text \<open>As long as a download is not over, some goroutine can go on.\<close>

lemma pl_progress:
  assumes inv: "pl_inv cfg s" and ok: "jobs_succeed cfg" and pos: "0 < pl_conc cfg" "0 < pl_limit cfg"
    and f: "f < pl_files cfg" "\<not> file_over cfg s f"
  shows "\<exists>t. pl_step cfg s t"
proof -
  note si = pl_invD(2) [OF inv]
  consider (busy) i g k where "runs s i (g, k)" | (wait) "\<And>i c. \<not> runs s i c" "waiting_items (pl_queue s) \<noteq> {#}"
    | (idle) "\<And>i c. \<not> runs s i c" "waiting_items (pl_queue s) = {#}"
    by force
  then show ?thesis
  proof cases
    case busy
    then show ?thesis using busy_progress [OF inv ok] by blast
  next
    case wait
    have n: "0 < length (pl_workers s)" using sched_invD(1) [OF si] pos(1) by (simp add: wq_inv_def)
    with wait(1) [of 0] have "pl_workers s ! 0 \<in> {AtSelect, AtInnerSelect}"
      by (cases "pl_workers s ! 0") auto
    from run_turn_progress [OF this wait(2)] pl_step.pl_turn [OF n] show ?thesis by blast
  next
    case idle
    note go = idle_progress [OF inv idle]
    show ?thesis
    proof (cases "pl_stage s f = NotStarted \<and> active_files cfg s = []")
      case True
      with pl_step.pl_begin [OF f(1), of s] pos(2) show ?thesis by auto
    next
      case False
      then consider "pl_stage s f \<noteq> NotStarted" | g where "g \<in> set (active_files cfg s)" by fastforce
      then show ?thesis using go [OF f(1) _ f(2)] go by cases (auto simp: active_files_def)
    qed
  qed
qed

section \<open>What the consumers get\<close>

abbreviation deliveries :: "pl_config \<Rightarrow> nat \<Rightarrow> delivery list" where
  "deliveries cfg f \<equiv> map (\<lambda>k. Some (Ret (pl_job cfg (f, k)))) [0..<pl_chunks cfg f]"

lemma upt_split: "p < n \<Longrightarrow> [0..<n] = [0..<p] @ p # [Suc p..<n]"
  by (metis less_imp_le_nat upt_add_eq_append upt_conv_Cons le_add_diff_inverse zero_le)

lemma append_cut: "xs @ ys @ zs = (xs @ take r ys) @ drop r ys @ zs"
  by (metis append.assoc append_take_drop_id)

lemma multi_read_skips:
  assumes "\<And>x. x \<in> set xs \<Longrightarrow> snd (j x) \<in> {None, Some (Sentinel EOF)}"
  shows "multi_read (map (\<lambda>x. Some (Ret (j x))) xs @ ds) =
     (case multi_read ds of
        Some (Ret (rest, e)) \<Rightarrow>
          Some (Ret (concat (map (\<lambda>x. case snd (j x) of None \<Rightarrow> fst (j x) | Some e \<Rightarrow> []) xs) @ rest, e))
      | r \<Rightarrow> r)"
  using assms
proof (induction xs)
  case Nil
  then show ?case by (auto split: option.splits outcome.splits)
next
  case (Cons x xs)
  obtain d e where "j x = (d, e)" by fastforce
  moreover have "e \<in> {None, Some (Sentinel EOF)}" using Cons.prems [of x] calculation by simp
  ultimately show ?case using Cons.IH Cons.prems by (auto split: option.splits outcome.splits)
qed

lemma chunks_before_pos:
  assumes "data_inv cfg s" "k < pl_pos s f"
  shows "snd (pl_job cfg (f, k)) \<in> {None, Some (Sentinel EOF)}"
  using data_invD(1) [OF assms(1), of f k] assms(2)
  by (auto simp: promise_ok_def promise_fresh_def promise_read_def promise_delivered_def promise_data_def
      Let_def split: if_splits option.splits)

lemma no_chunk_past_end:
  assumes "pl_inv cfg s"
  shows "promise_fresh s f (pl_chunks cfg f)"
proof -
  note si = pl_invD(2) [OF assms] and di = pl_invD(3) [OF assms]
  have "\<not> holds_slice s i (f, pl_chunks cfg f)" for i
  proof
    assume h: "holds_slice s i (f, pl_chunks cfg f)"
    then have "pl_stage s f \<noteq> FirstQueued" using holds_slice_stage [OF sched_invD(4) [OF si] h] by auto
    with h runs_chunk [OF si, of i f "pl_chunks cfg f"] show False by (simp add: holds_slice_def)
  qed
  then show ?thesis
    using data_invD(1) [OF di, of f "pl_chunks cfg f"] data_invD(2) [OF di, of f]
    by (auto simp: promise_ok_def promise_read_def promise_delivered_def file_ok_def split: if_splits)
qed

text \<open>A consumer that is through has read what reading the deliveries one after the other yields.\<close>

lemma over_multi_read:
  assumes "pl_inv cfg s" "file_over cfg s f" "pl_stage s f \<noteq> FirstFailed"
  shows "multi_read (deliveries cfg f) = Some (Ret (pl_out s f, pl_err s f))"
proof -
  note di = pl_invD(3) [OF assms(1)]
  let ?p = "pl_pos s f" and ?n = "pl_chunks cfg f" and ?j = "\<lambda>k. pl_job cfg (f, k)"
  note fo = data_invD(2) [OF di, of f, unfolded file_ok_def]
  have skip: "multi_read (map (\<lambda>k. Some (Ret (?j k))) [0..<?p] @ ds) =
     (case multi_read ds of
        Some (Ret (rest, e)) \<Rightarrow> Some (Ret (concat (map (\<lambda>k. good cfg (f, k)) [0..<?p]) @ rest, e)) | r \<Rightarrow> r)" for ds
    using chunks_before_pos [OF di, of _ f] unfolding good_def by (intro multi_read_skips) auto
  show ?thesis
  proof (cases "pl_err s f")
    case None
    with assms(2) have "?p = ?n" by (simp add: file_over_def)
    moreover have "read_pos (pl_promise s (f, ?n)) = 0"
      using no_chunk_past_end [OF assms(1)] by (simp add: promise_fresh_def)
    ultimately show ?thesis using skip [of "[]"] fo None by simp
  next
    case (Some e)
    with fo assms(3) have e: "?p < ?n" "snd (?j ?p) = Some e" "e \<noteq> Sentinel EOF" by auto
    then have "[0..<?n] = [0..<?p] @ ?p # [Suc ?p..<?n]" by (intro upt_split)
    moreover obtain d where "?j ?p = (d, Some e)" using e(2) by (metis prod.collapse)
    moreover have "good cfg (f, ?p) = []" using e(2) by (simp add: good_def)
    ultimately show ?thesis using skip fo Some e(3) by simp
  qed
qed

lemma pl_reachable_inv:
  assumes "pl_valid cfg" "reachable (pl_init cfg) (pl_step cfg) s"
  shows "pl_inv cfg s"
  using assms(2)
proof induction
  case (reach_init s)
  then show ?case using pl.inv_init assms(1) by blast
next
  case (reach_step s t)
  then show ?case using pl.inv_step by blast
qed

lemma first_failed_nothing:
  assumes "pl_inv cfg s" "pl_stage s f = FirstFailed"
  shows "pl_out s f = [] \<and> pl_err s f = pl_first cfg f"
proof -
  note si = pl_invD(2) [OF assms(1)] and di = pl_invD(3) [OF assms(1)]
  have pos: "pl_pos s f = 0" using data_invD(2) [OF di, of f] assms(2) by (simp add: file_ok_def)
  have "\<not> holds_slice s i (f, 0)" for i using holds_slice_stage [OF sched_invD(4) [OF si], of i f 0] assms(2) by auto
  then have "read_pos (pl_promise s (f, 0)) = 0"
    using data_invD(1) [OF di, of f 0] pos
    by (auto simp: promise_ok_def promise_fresh_def promise_read_def promise_delivered_def split: if_splits)
  then show ?thesis using data_invD(2) [OF di, of f] pos assms(2) by (simp add: file_ok_def)
qed

text \<open>What is read at any time is the beginning of the data of the chunks in order.\<close>

lemma out_prefix:
  assumes "pl_inv cfg s"
  shows "\<exists>rest. concat (map (\<lambda>k. good cfg (f, k)) [0..<pl_chunks cfg f]) = pl_out s f @ rest"
proof -
  let ?g = "\<lambda>k. good cfg (f, k)" and ?p = "pl_pos s f" and ?n = "pl_chunks cfg f"
    and ?r = "read_pos (pl_promise s (f, pl_pos s f))"
  note fo = data_invD(2) [OF pl_invD(3) [OF assms], of f, unfolded file_ok_def]
  show ?thesis
  proof (cases "?p = ?n")
    case True
    then have "?r = 0" using no_chunk_past_end [OF assms, of f] by (simp add: promise_fresh_def)
    with fo True have "pl_out s f = concat (map ?g [0..<?n])" by (metis append_Nil2 take_0)
    then have "concat (map ?g [0..<?n]) = pl_out s f @ []" by simp
    then show ?thesis ..
  next
    case False
    with fo have "?p < ?n" by simp
    have "concat (map ?g [0..<?n]) = concat (map ?g [0..<?p]) @ ?g ?p @ concat (map ?g [Suc ?p..<?n])"
      unfolding upt_split [OF \<open>?p < ?n\<close>] by simp
    also have "\<dots> = (concat (map ?g [0..<?p]) @ take ?r (?g ?p)) @ drop ?r (?g ?p) @ concat (map ?g [Suc ?p..<?n])"
      by (rule append_cut)
    also have "\<dots> = pl_out s f @ drop ?r (?g ?p) @ concat (map ?g [Suc ?p..<?n])"
      using fo by metis
    finally show ?thesis ..
  qed
qed

lemma ended_over:
  assumes "pl_inv cfg s" "jobs_succeed cfg" "0 < pl_conc cfg" "0 < pl_limit cfg" "f < pl_files cfg"
    and "\<And>t. \<not> pl_step cfg s t"
  shows "file_over cfg s f"
  using pl_progress [OF assms(1-5)] assms(6) by blast

lemma multi_read_deliveries:
  assumes "jobs_succeed cfg" "f < pl_files cfg"
  shows "multi_read (deliveries cfg f) =
     Some (Ret (concat (map (\<lambda>k. fst (pl_job cfg (f, k))) [0..<pl_chunks cfg f]), None))"
proof -
  have "deliveries cfg f = map (\<lambda>k. Some (Ret (fst (pl_job cfg (f, k)), None))) [0..<pl_chunks cfg f]"
    using assms by (intro map_cong refl) (simp add: jobs_succeed_def prod_eq_iff)
  then show ?thesis by (simp only: multi_read_data)
qed

text \<open>At the end of a run without failing chunks every file is complete, or its first request failed.\<close>

lemma ended_complete:
  assumes "pl_inv cfg s" "jobs_succeed cfg" "0 < pl_conc cfg" "0 < pl_limit cfg" "f < pl_files cfg"
    and "\<And>t. \<not> pl_step cfg s t"
  shows "if pl_first cfg f = None
     then pl_out s f = concat (map (\<lambda>k. fst (pl_job cfg (f, k))) [0..<pl_chunks cfg f]) \<and> pl_err s f = None
     else pl_out s f = [] \<and> pl_err s f = pl_first cfg f"
proof -
  note over = ended_over [OF assms]
  note fo = data_invD(2) [OF pl_invD(3) [OF assms(1)], of f]
  have "0 < pl_chunks cfg f" using pl_invD(1) [OF assms(1)] by (simp add: pl_valid_def)
  have none: "snd (pl_job cfg (f, k)) = None" if "k < pl_chunks cfg f" for k
    using that assms(2,5) by (simp add: jobs_succeed_def)
  show ?thesis
  proof (cases "pl_stage s f = FirstFailed")
    case True
    moreover have "pl_first cfg f \<noteq> None" using fo True by (simp add: file_ok_def)
    ultimately show ?thesis using first_failed_nothing [OF assms(1)] by auto
  next
    case False
    have "submitting (pl_stage s f)"
      using over fo False none \<open>0 < pl_chunks cfg f\<close> by (auto simp: file_over_def file_ok_def)
    then have "pl_first cfg f = None"
      using sched_invD(2) [OF pl_invD(2) [OF assms(1)]] by (auto simp: submitted_in_order_def submitting_def)
    then show ?thesis
      using over_multi_read [OF assms(1) over False] multi_read_deliveries [OF assms(2,5)] by simp
  qed
qed

section \<open>Errors stall the workers\<close>

text \<open>
  Every worker is inside \<open>Deliver\<close> with a chunk of a file whose consumer has stopped at an error.
  Since \<open>Deliver\<close> has no way out but the end of reading, this lasts for ever.
\<close>

definition stalled :: "pl_sys \<Rightarrow> bool" where
  "stalled s \<longleftrightarrow> (\<forall>i < length (pl_workers s). \<exists>c. pl_workers s ! i = Running c \<and> pl_blocked s ! i \<and>
     \<not> finished_closed (pl_promise s c) \<and> pl_err s (fst c) \<noteq> None)"

definition not_answered :: "pl_sys \<Rightarrow> nat \<Rightarrow> bool" where
  "not_answered s f \<longleftrightarrow> pl_stage s f \<in> {NotStarted, FirstQueued} \<and> pl_out s f = [] \<and> pl_pos s f = 0 \<and> pl_err s f = None"

lemma stalled_worker:
  "stalled s \<Longrightarrow> i < length (pl_workers s) \<Longrightarrow>
     \<exists>c. pl_workers s ! i = Running c \<and> pl_blocked s ! i \<and> \<not> finished_closed (pl_promise s c) \<and> pl_err s (fst c) \<noteq> None"
  by (simp add: stalled_def)

lemma stalled_step:
  assumes inv: "pl_inv cfg s" and st: "stalled s" and step: "pl_step cfg s t"
  shows "stalled t \<and> pl_wq t \<in> {w. workers w = pl_workers s \<and> completed w = completed (pl_wq s)} \<and>
     (not_answered s f \<longrightarrow> not_answered t f)"
proof -
  have w: "\<exists>m. pl_stage s (fst c) = Submitting m" if "runs s i c" for i c
    using stalled_worker [OF st, of i] that holds_slice_stage [OF sched_invD(4) [OF pl_invD(2) [OF inv]], of i "fst c" "snd c"]
    by (auto simp: holds_slice_def submitting_def)
  from step show ?thesis
  proof cases
    case (pl_begin f)
    then show ?thesis using st by (auto simp: stalled_def not_answered_def)
  next
    case (pl_turn i pick q' wk)
    then show ?thesis using stalled_worker [OF st pl_turn(2)] by auto
  next
    case (pl_first_error i f e)
    then show ?thesis using w [OF pl_first_error(2)] by simp
  next
    case (pl_first_answer i f)
    then show ?thesis using w [OF pl_first_answer(2)] by simp
  next
    case (pl_next f k)
    then show ?thesis using st by (auto simp: stalled_def not_answered_def)
  next
    case (pl_deliver i f k d e p')
    then show ?thesis using stalled_worker [OF st, of i] by auto
  next
    case (pl_deliver_panic i f k d e msg)
    then show ?thesis using stalled_worker [OF st, of i] by auto
  next
    case (pl_return i c)
    then show ?thesis using stalled_worker [OF st, of i] by (auto simp: deliver_returns_def)
  next
    case (pl_read g n d e p')
    then have g: "pl_err s g = None" "\<exists>m. pl_stage s g = Submitting m"
      by (auto simp: reading_file_def file_over_def)
    have "stalled t" unfolding stalled_def
    proof (intro allI impI)
      fix i
      assume "i < length (pl_workers t)"
      then obtain c where c: "pl_workers s ! i = Running c" "pl_blocked s ! i"
          "\<not> finished_closed (pl_promise s c)" "pl_err s (fst c) \<noteq> None"
        using stalled_worker [OF st, of i] pl_read(1) by auto
      moreover have "fst c \<noteq> g" using c(4) g(1) by auto
      ultimately show "\<exists>c. pl_workers t ! i = Running c \<and> pl_blocked t ! i \<and> \<not> finished_closed (pl_promise t c) \<and>
          pl_err t (fst c) \<noteq> None"
        using pl_read(1) by (cases c) auto
    qed
    moreover have "not_answered s f \<longrightarrow> not_answered t f" using g pl_read(1) by (auto simp: not_answered_def)
    ultimately show ?thesis using pl_read(1) by simp
  next
    case (pl_read_panic g n msg)
    then show ?thesis using st by (auto simp: stalled_def not_answered_def)
  qed
qed

lemma stalled_steps:
  assumes "(pl_step cfg)\<^sup>*\<^sup>* s t" "pl_inv cfg s" "stalled s"
  shows "stalled t \<and> pl_workers t = pl_workers s \<and> completed (pl_wq t) = completed (pl_wq s) \<and>
     (not_answered s f \<longrightarrow> not_answered t f)"
  using assms
proof (induction rule: rtranclp_induct)
  case base
  then show ?case by simp
next
  case (step u t)
  then have "pl_inv cfg u" using pl.inv_steps [OF step(1)] by blast
  from stalled_step [OF this _ step(2), of f] step show ?case by auto
qed

section \<open>The deliveries of a strategy\<close>

text \<open>
  The configuration that results from calls of \<open>Fetch\<close>, one per file, when every chunk's download
  ends without a panic: a failed first request, or the deliveries to the promises of the file.
\<close>

definition fetched ::
  "nat \<Rightarrow> nat \<Rightarrow> int64 \<Rightarrow> int64 \<Rightarrow> (nat \<Rightarrow> go_error + delivery list \<times> int64) \<Rightarrow> pl_config" where
  "fetched files lim conc bsize res =
     \<lparr>pl_files = files, pl_limit = lim, pl_conc = conc, pl_bufSize = bsize,
      pl_chunks = (\<lambda>f. case res f of Inr (readers, _) \<Rightarrow> if f < files then length readers else 1 | Inl _ \<Rightarrow> 1),
      pl_first = (\<lambda>f. case res f of Inl e \<Rightarrow> Some e | Inr _ \<Rightarrow> None),
      pl_job = (\<lambda>(f, k). case res f of
          Inr (readers, _) \<Rightarrow>
            if f < files \<and> k < length readers
            then (case readers ! k of Some (Ret r) \<Rightarrow> r | _ \<Rightarrow> ([], None)) else ([], None)
        | Inl _ \<Rightarrow> ([], None))\<rparr>"

lemma fetched_job:
  assumes "res f = Inr (map (\<lambda>d. Some (Ret (d, None))) ds, sz)" "f < files"
  shows "pl_job (fetched files lim conc bsize res) (f, k) = (if k < length ds then ds ! k else [], None)"
    "pl_chunks (fetched files lim conc bsize res) f = length ds" "pl_first (fetched files lim conc bsize res) f = None"
  using assms by (simp_all add: fetched_def)

lemma fetched_other: "\<not> f < files \<Longrightarrow> pl_job (fetched files lim conc bsize res) (f, k) = ([], None)"
  "\<not> f < files \<Longrightarrow> pl_chunks (fetched files lim conc bsize res) f = 1"
  by (auto simp: fetched_def split: sum.splits)

text \<open>If every promise gets data that fits the buffers, all runs end with the content of all files read.\<close>

lemma fetched_completes:
  assumes res: "\<And>f. f < files \<Longrightarrow> \<exists>readers sz. res f = Inr (readers, sz) \<and> complete_readers (content f) bsize readers"
    and pos: "0 \<le> bsize" "0 < conc" "0 < lim" and cfg: "cfg = fetched files lim conc bsize res"
    and r: "reachable (pl_init cfg) (pl_step cfg) s"
  shows "(\<exists>t. (pl_step cfg)\<^sup>*\<^sup>* s t \<and> (\<forall>u. \<not> pl_step cfg t u)) \<and>
     (\<forall>t f. (pl_step cfg)\<^sup>*\<^sup>* s t \<and> (\<forall>u. \<not> pl_step cfg t u) \<and> f < files \<longrightarrow>
        pl_out t f = content f \<and> pl_err t f = None)"
proof -
  define ds where "ds f = map (\<lambda>r. case r of Some (Ret (d, _)) \<Rightarrow> d | _ \<Rightarrow> []) (fst (projr (res f)))" for f
  have ds: "res f = Inr (map (\<lambda>d. Some (Ret (d, None))) (ds f), snd (projr (res f)))" "concat (ds f) = content f"
    "ds f \<noteq> []" "d \<in> set (ds f) \<Longrightarrow> int (length d) \<le> bsize" if f: "f < files" for f d
  proof -
    obtain parts sz where "res f = Inr (map (\<lambda>d. Some (Ret (d, None))) parts, sz)" and
      p: "concat parts = content f" "parts \<noteq> []" "\<forall>d \<in> set parts. int (length d) \<le> bsize"
      using res [OF f] unfolding complete_readers_def by blast
    moreover from this have "ds f = parts" by (simp add: ds_def comp_def)
    ultimately show "res f = Inr (map (\<lambda>d. Some (Ret (d, None))) (ds f), snd (projr (res f)))"
      "concat (ds f) = content f" "ds f \<noteq> []" "d \<in> set (ds f) \<Longrightarrow> int (length d) \<le> bsize" by simp_all
  qed
  have n: "pl_files cfg = files" "pl_limit cfg = lim" "pl_conc cfg = conc" "pl_bufSize cfg = bsize"
    by (simp_all add: cfg fetched_def)
  have job: "pl_job cfg (f, k) = (if f < files \<and> k < length (ds f) then ds f ! k else [], None)" for f k
    by (cases "f < files") (simp_all add: cfg fetched_job [OF ds(1)] fetched_other)
  have chunks: "pl_chunks cfg f = (if f < files then length (ds f) else 1)"
    "f < files \<Longrightarrow> pl_first cfg f = None" for f
    by (simp_all add: cfg fetched_job [OF ds(1)] fetched_other)
  have "pl_valid cfg" using ds(3,4) pos(1) by (auto simp: pl_valid_def chunks job n)
  then have inv: "pl_inv cfg s" using r by (rule pl_reachable_inv)
  have ok: "jobs_succeed cfg" by (simp add: jobs_succeed_def job)
  have "pl_out t f = content f \<and> pl_err t f = None"
    if t: "(pl_step cfg)\<^sup>*\<^sup>* s t" "\<And>u. \<not> pl_step cfg t u" and f: "f < files" for t f
  proof -
    have "map (\<lambda>k. fst (pl_job cfg (f, k))) [0..<pl_chunks cfg f] = ds f"
      using f by (intro nth_equalityI) (simp_all add: job chunks)
    then show ?thesis
      using ended_complete [OF pl.inv_steps [OF t(1) inv] ok _ _ _ t(2), of f] pos f chunks(2) n ds(2) by simp
  qed
  with pl.reaches_end [OF inv] show ?thesis by blast
qed

section \<open>The start, and an example\<close>

definition pl_start :: "pl_config \<Rightarrow> pl_sys" where
  "pl_start cfg =
     \<lparr>pl_wq = \<lparr>queue = newWorkQueue (pl_conc cfg) (pl_bufSize cfg), workers = replicate (nat (pl_conc cfg)) AtSelect,
        submitted = [], completed = []\<rparr>,
      pl_bufs = replicate (nat (pl_conc cfg)) (replicate (nat (pl_bufSize cfg)) 0),
      pl_blocked = replicate (nat (pl_conc cfg)) False, pl_stage = (\<lambda>_. NotStarted),
      pl_promise = (\<lambda>_. newReaderPromise), pl_holder = (\<lambda>_. 0), pl_pos = (\<lambda>_. 0), pl_out = (\<lambda>_. []),
      pl_err = (\<lambda>_. None), pl_panic = False\<rparr>"

lemma pl_start_init: "0 \<le> pl_bufSize cfg \<Longrightarrow> pl_init cfg (pl_start cfg)"
  by (auto simp: pl_init_def pl_start_def wq_init_def wq_start_def newWorkQueue_def)

lemma pl_start_reachable: "0 \<le> pl_bufSize cfg \<Longrightarrow> reachable (pl_init cfg) (pl_step cfg) (pl_start cfg)"
  by (rule reach_init) (rule pl_start_init)

lemma pl_budget_start:
  assumes "pl_init cfg s"
  shows "pl_budget cfg s =
     nat (pl_conc cfg) + (\<Sum>f<pl_files cfg. 3 + (\<Sum>k<pl_chunks cfg f. 7 + length (fst (pl_job cfg (f, k)))))"
proof -
  have w: "pl_workers s = replicate (nat (pl_conc cfg)) AtSelect" "highPriority (pl_queue s) = []"
    "lowPriority (pl_queue s) = []"
    using assms by (auto simp: pl_init_def wq_init_def wq_start_def newWorkQueue_def split: if_splits)
  have "(\<Sum>wk\<leftarrow>replicate n AtSelect. worker_budget wk) = n" for n by (induction n) auto
  then have "sched_budget (pl_wq s) = nat (pl_conc cfg)" using w by (simp add: sched_budget_def)
  moreover have "file_budget cfg s f = 3 + 5 * pl_chunks cfg f" for f
    using assms by (simp add: file_budget_def pl_init_def)
  moreover have "promise_budget cfg s c = 2 + length (fst (pl_job cfg c))" for c
    using assms by (simp add: promise_budget_def pl_init_def)
  ultimately show ?thesis
    by (simp add: pl_budget_def sum.distrib sum_Suc sum_distrib_left [symmetric]
        sum_distrib_right [symmetric])
qed

text \<open>Two files of one chunk each and one worker; the chunk of the first file fails.\<close>

definition failing_config :: pl_config where
  "failing_config = \<lparr>pl_files = 2, pl_limit = 2, pl_conc = 1, pl_bufSize = 4, pl_chunks = (\<lambda>_. 1),
     pl_first = (\<lambda>_. None), pl_job = (\<lambda>(f, k). if f = 0 then ([], Some (Errorf ''reset'')) else ([7], None))\<rparr>"

definition failing_promise :: readerPromise where
  "failing_promise = \<lparr>ready_closed = True, finished_closed = False, p_buf = Some 0,
     p_reader = Some \<lparr>rd_len = 0, rd_pos = 0\<rparr>, p_err = Some (Errorf ''reset'')\<rparr>"

text \<open>The states of a run of this configuration: how far the first file has come.\<close>

definition failing_run :: "nat \<Rightarrow> pl_sys" where
  "failing_run n = (pl_start failing_config)\<lparr>
     pl_wq := \<lparr>queue = (if n = 1 \<or> n = 2 then submitLow (0, 0) (newWorkQueue 1 4) else newWorkQueue 1 4),
        workers = [if n < 2 then AtSelect else if n = 2 then AtInnerSelect else Running (0, 0)],
        submitted = (if n = 0 then [] else [(0, 0)]), completed = []\<rparr>,
     pl_stage := (\<lambda>_. NotStarted)(0 := if n = 0 then NotStarted else if n < 4 then FirstQueued else Submitting 1),
     pl_blocked := [5 \<le> n],
     pl_promise := (\<lambda>_. newReaderPromise)((0, 0) := if n < 5 then newReaderPromise else failing_promise),
     pl_err := (\<lambda>_. None)(0 := if n < 6 then None else Some (Errorf ''reset''))\<rparr>"

lemma failing_run_0: "failing_run 0 = pl_start failing_config"
  by (simp add: failing_run_def pl_start_def failing_config_def fun_upd_idem)

lemmas failing_defs = failing_run_def pl_start_def failing_config_def

lemma failing_run_step:
  "pl_step failing_config (failing_run 0) (failing_run 1)"
  "pl_step failing_config (failing_run 1) (failing_run 2)"
  "pl_step failing_config (failing_run 2) (failing_run 3)"
  "pl_step failing_config (failing_run 3) (failing_run 4)"
  "pl_step failing_config (failing_run 4) (failing_run 5)"
  "pl_step failing_config (failing_run 5) (failing_run 6)"
proof -
  show "pl_step failing_config (failing_run 0) (failing_run 1)"
    using pl_step.pl_begin [of 0 failing_config "failing_run 0"]
    by (simp add: failing_defs active_files_def file_over_def)
  show "pl_step failing_config (failing_run 1) (failing_run 2)"
    using pl_step.pl_turn [of 0 "failing_run 1" True _ _ failing_config]
    by (simp add: failing_defs submitLow_def newWorkQueue_def)
  show "pl_step failing_config (failing_run 2) (failing_run 3)"
    using pl_step.pl_turn [of 0 "failing_run 2" True _ _ failing_config]
    by (simp add: failing_defs submitLow_def newWorkQueue_def)
  show "pl_step failing_config (failing_run 3) (failing_run 4)"
    using pl_step.pl_first_answer [of 0 "failing_run 3" 0 failing_config] by (simp add: failing_defs)
  show "pl_step failing_config (failing_run 4) (failing_run 5)"
    using pl_step.pl_deliver [of 0 "failing_run 4" 0 0 failing_config "[]" "Some (Errorf ''reset'')" failing_promise]
    by (simp add: failing_defs Deliver_new failing_promise_def overwrite_at_def fun_upd_idem)
  show "pl_step failing_config (failing_run 5) (failing_run 6)"
    using pl_step.pl_read [of failing_config "failing_run 5" 0 1 "[]" "Some (Errorf ''reset'')" failing_promise]
    by (simp add: failing_defs reading_file_def file_over_def consumer_read_def Read_def failing_promise_def fun_upd_idem)
qed

lemma failing_config_bufSize: "pl_bufSize failing_config = 4"
  by (simp add: failing_config_def)

lemma failing_valid: "pl_valid failing_config"
  by (simp add: pl_valid_def failing_config_def)

lemma failing_reachable: "reachable (pl_init failing_config) (pl_step failing_config) (failing_run 6)"
proof -
  have "reachable (pl_init failing_config) (pl_step failing_config) (failing_run 0)"
    unfolding failing_run_0 by (rule pl_start_reachable) (simp add: failing_config_bufSize)
  then show ?thesis using failing_run_step by (meson reach_step)
qed

lemma failing_run_facts:
  "stalled (failing_run 6)" "not_answered (failing_run 6) 1"
  by (simp_all add: stalled_def not_answered_def failing_defs failing_promise_def)

text \<open>Two files of two chunks each, downloaded by one worker, one file at a time.\<close>

definition two_files :: pl_config where
  "two_files = fetched 2 1 1 2 (\<lambda>f. Inr (map (\<lambda>d. Some (Ret (d, None))) (if f = 0 then [[1, 2], [3]] else [[4, 5], [6, 7]]), 0))"

lemma two_files_valid: "pl_valid two_files" "jobs_succeed two_files"
  by (auto simp: pl_valid_def jobs_succeed_def two_files_def fetched_def nth_Cons')

section \<open>Properties\<close>

text \<open>C10. In every run of the goroutines without failing chunks, whatever their scheduling, the
  downloads get through: a state in which no goroutine can go on is always reached, and there
  every file's consumer has read the data of all its chunks in order, or was told the error of
  the file's first request.\<close>

theorem pipeline_completes:
  assumes "pl_valid cfg" "reachable (pl_init cfg) (pl_step cfg) s" "jobs_succeed cfg"
    and "0 < pl_conc cfg" "0 < pl_limit cfg"
  shows "(\<exists>t. (pl_step cfg)\<^sup>*\<^sup>* s t \<and> (\<forall>u. \<not> pl_step cfg t u)) \<and>
     (\<forall>t f. (pl_step cfg)\<^sup>*\<^sup>* s t \<and> (\<forall>u. \<not> pl_step cfg t u) \<and> f < pl_files cfg \<longrightarrow>
        (if pl_first cfg f = None
         then pl_out t f = concat (map (\<lambda>k. fst (pl_job cfg (f, k))) [0..<pl_chunks cfg f]) \<and> pl_err t f = None
         else pl_out t f = [] \<and> pl_err t f = pl_first cfg f))"
proof -
  have inv: "pl_inv cfg s" using assms(1,2) by (rule pl_reachable_inv)
  have "pl_inv cfg t" if "(pl_step cfg)\<^sup>*\<^sup>* s t" for t using pl.inv_steps [OF that inv] .
  then show ?thesis using pl.reaches_end [OF inv] ended_complete [OF _ assms(3-5)] by meson
qed

theorem pipeline_completes_witness:
  "\<exists>t. (pl_step two_files)\<^sup>*\<^sup>* (pl_start two_files) t \<and> pl_out t 0 = [1, 2, 3] \<and> pl_out t 1 = [4, 5, 6, 7]"
proof -
  have p: "0 < pl_conc two_files" "0 < pl_limit two_files" "0 < pl_files two_files" "1 < pl_files two_files"
    "0 \<le> pl_bufSize two_files"
    by (simp_all add: two_files_def fetched_def)
  note c = pipeline_completes [OF two_files_valid(1) pl_start_reachable [OF p(5)] two_files_valid(2) p(1,2)]
  then obtain t where t: "(pl_step two_files)\<^sup>*\<^sup>* (pl_start two_files) t" "\<forall>u. \<not> pl_step two_files t u" by blast
  have "pl_first two_files f = None" for f by (simp add: two_files_def fetched_def)
  then have "pl_out t f = concat (map (\<lambda>k. fst (pl_job two_files (f, k))) [0..<pl_chunks two_files f])"
    if "f < pl_files two_files" for f using c t that by (metis (lifting))
  from this [OF p(3)] this [OF p(4)] t(1) show ?thesis
    by (auto simp: two_files_def fetched_def upt_rec)
qed

text \<open>C19. No run is longer than a bound that grows with the workers, the chunks and their bytes.\<close>

theorem pipeline_bounded:
  assumes "pl_valid cfg" "pl_init cfg s" "(pl_step cfg ^^ n) s t"
  shows "n \<le> nat (pl_conc cfg) + (\<Sum>f<pl_files cfg. 3 + (\<Sum>k<pl_chunks cfg f. 7 + length (fst (pl_job cfg (f, k)))))"
  using pl.steps_bounded [OF assms(3)] pl.inv_init assms(1,2) unfolding pl_budget_start [OF assms(2)] by fastforce

theorem pipeline_bounded_witness:
  "(pl_step failing_config ^^ 2) (pl_start failing_config) (failing_run 2) \<and>
   2 \<le> nat (pl_conc failing_config) + (\<Sum>f<pl_files failing_config. 3 +
      (\<Sum>k<pl_chunks failing_config f. 7 + length (fst (pl_job failing_config (f, k)))))"
proof -
  have r: "(pl_step failing_config ^^ 2) (pl_start failing_config) (failing_run 2)"
    using failing_run_step(1,2) unfolding failing_run_0 [symmetric] by (auto simp: numeral_2_eq_2)
  from pipeline_bounded [OF failing_valid pl_start_init r] r show ?thesis by (simp only: failing_config_bufSize)
qed

text \<open>C9. Whatever the scheduling and whichever chunks fail, no goroutine panics, and each consumer reads
  a beginning of the data of its file's chunks in order, never a byte of another chunk or of a
  later use of a worker's buffer; once it is through, it has read and returned exactly what
  reading the delivered chunks one after the other returns.\<close>

theorem pipeline_reads_in_order:
  assumes "pl_valid cfg" "reachable (pl_init cfg) (pl_step cfg) s"
  shows "\<not> pl_panic s \<and> (\<exists>rest. concat (map (\<lambda>k. good cfg (f, k)) [0..<pl_chunks cfg f]) = pl_out s f @ rest) \<and>
     (file_over cfg s f \<and> pl_stage s f \<noteq> FirstFailed \<longrightarrow>
        multi_read (deliveries cfg f) = Some (Ret (pl_out s f, pl_err s f)))"
  using pl_reachable_inv [OF assms] out_prefix over_multi_read data_invD(3) pl_invD(3) by blast

theorem pipeline_reads_in_order_witness:
  "multi_read (deliveries failing_config 0) = Some (Ret (pl_out (failing_run 6) 0, Some (Errorf ''reset'')))"
  using pipeline_reads_in_order [OF failing_valid failing_reachable, of 0]
  by (auto simp: file_over_def failing_defs)

text \<open>C37. Once every worker is inside \<open>Deliver\<close> for a file whose consumer has stopped at an error, the
  workers stay there in every continuation, and a file whose first request was not answered by
  then is never answered: \<open>Fetch\<close> does not return for it, neither with a reader nor with an error.\<close>

theorem pipeline_error_stalls:
  assumes "pl_valid cfg" "reachable (pl_init cfg) (pl_step cfg) s" "stalled s" "not_answered s f"
    and "(pl_step cfg)\<^sup>*\<^sup>* s t"
  shows "pl_workers t = pl_workers s \<and> pl_stage t f \<in> {NotStarted, FirstQueued} \<and> \<not> file_over cfg t f"
proof -
  have "pl_workers t = pl_workers s \<and> not_answered t f"
    using stalled_steps [OF assms(5) pl_reachable_inv [OF assms(1,2)] assms(3), of f] assms(4) by blast
  moreover have "0 < pl_chunks cfg f" using assms(1) by (simp add: pl_valid_def)
  ultimately show ?thesis by (auto simp: not_answered_def file_over_def)
qed

theorem pipeline_error_stalls_witness:
  "{t. (pl_step failing_config)\<^sup>*\<^sup>* (failing_run 6) t} \<subseteq>
     {t. pl_workers t = [Running (0, 0)] \<and> \<not> file_over failing_config t 1}"
proof
  fix t
  assume "t \<in> {t. (pl_step failing_config)\<^sup>*\<^sup>* (failing_run 6) t}"
  then show "t \<in> {t. pl_workers t = [Running (0, 0)] \<and> \<not> file_over failing_config t 1}"
    using pipeline_error_stalls [OF failing_valid failing_reachable failing_run_facts] by (simp add: failing_run_def)
qed

text \<open>C6. Downloading several files in buffer mode from servers that honour range requests, with the
  queue of the mode: every run of the goroutines can be continued until none of them can go on, and
  then each consumer has read exactly the content of its file.\<close>

theorem buffer_pipeline_content:
  assumes "\<And>f. f < files \<Longrightarrow> range_client C (client_Do (env f)) (content f)" "C ctx"
    and "\<And>f. f < files \<Longrightarrow> urls_parse (env f) (effective_url (env f) m (url f))"
    and "\<And>f. f < files \<Longrightarrow> bm_valid m (int (length (content f)))"
    and "\<And>f i. length (bufs f i) = nat (chunkSize m)"
    and "0 < maxConcurrency numCPU (bm_opts m)" "0 < lim" "0 \<le> chunkSize m"
    and "cfg = fetched files lim (maxConcurrency numCPU (bm_opts m)) (chunkSize m)
       (\<lambda>f. fst (bm_Fetch (env f) m ctx (url f) (bufs f) (ws f)))"
    and "reachable (pl_init cfg) (pl_step cfg) s"
  shows "(\<exists>t. (pl_step cfg)\<^sup>*\<^sup>* s t \<and> (\<forall>u. \<not> pl_step cfg t u)) \<and>
     (\<forall>t f. (pl_step cfg)\<^sup>*\<^sup>* s t \<and> (\<forall>u. \<not> pl_step cfg t u) \<and> f < files \<longrightarrow>
        pl_out t f = content f \<and> pl_err t f = None)"
proof (rule fetched_completes [OF _ assms(8,6,7,9,10)])
  fix f
  assume f: "f < files"
  show "\<exists>readers sz. fst (bm_Fetch (env f) m ctx (url f) (bufs f) (ws f)) = Inr (readers, sz) \<and>
      complete_readers (content f) (chunkSize m) readers"
    using bm_Fetch_readers [where bufs = "bufs f" and ws = "ws f", OF assms(1) [OF f] assms(2) assms(3,4) [OF f] assms(5)]
    by fastforce
qed

definition example_pipeline :: pl_config where
  "example_pipeline = fetched 2 1 4 3 (\<lambda>f. fst (bm_Fetch
     (example_env (if f = 0 then [1, 2, 3, 4, 5, 6, 7] else [8, 9]) 2 (\<lambda>_. False)) (example_bufferMode 3) background
     ''weights.example.com/a'' (\<lambda>_. replicate 3 0) (\<lambda>_. ())))"

theorem buffer_pipeline_content_witness:
  "\<exists>t. (pl_step example_pipeline)\<^sup>*\<^sup>* (pl_start example_pipeline) t \<and>
     pl_out t 0 = [1, 2, 3, 4, 5, 6, 7] \<and> pl_out t 1 = [8, 9]"
proof -
  let ?content = "\<lambda>f. if f = 0 then [1, 2, 3, 4, 5, 6, 7] else [8, 9 :: byte]"
  have conc: "maxConcurrency 1 (bm_opts (example_bufferMode 3)) = 4"
    by (simp add: maxConcurrency_def example_bufferMode_def example_options_def)
  have "(\<exists>t. (pl_step example_pipeline)\<^sup>*\<^sup>* (pl_start example_pipeline) t \<and> (\<forall>u. \<not> pl_step example_pipeline t u)) \<and>
    (\<forall>t f. (pl_step example_pipeline)\<^sup>*\<^sup>* (pl_start example_pipeline) t \<and> (\<forall>u. \<not> pl_step example_pipeline t u) \<and>
       f < 2 \<longrightarrow> pl_out t f = ?content f \<and> pl_err t f = None)"
  proof (rule buffer_pipeline_content [where C = plain_ctx and env = "\<lambda>f. example_env (?content f) 2 (\<lambda>_. False)"
        and ctx = background and m = "example_bufferMode 3" and url = "\<lambda>_. ''weights.example.com/a''"
        and bufs = "\<lambda>_ _. replicate 3 0" and ws = "\<lambda>_ _. ()" and numCPU = 1 and lim = 1])
    show "reachable (pl_init example_pipeline) (pl_step example_pipeline) (pl_start example_pipeline)"
      by (rule pl_start_reachable) (simp add: example_pipeline_def fetched_def)
    show "example_pipeline = fetched 2 1 (maxConcurrency 1 (bm_opts (example_bufferMode 3))) (chunkSize (example_bufferMode 3))
       (\<lambda>f. fst (bm_Fetch (example_env (?content f) 2 (\<lambda>_. False)) (example_bufferMode 3) background
          ''weights.example.com/a'' (\<lambda>_. replicate 3 0) (\<lambda>_. ())))"
      by (simp add: example_pipeline_def conc example_modes)
  qed (auto simp: example_facts example_modes conc)
  then obtain t where t: "(pl_step example_pipeline)\<^sup>*\<^sup>* (pl_start example_pipeline) t"
      "\<And>f. f < 2 \<Longrightarrow> pl_out t f = ?content f" by blast
  from t(1) t(2) [of 0] t(2) [of 1] show ?thesis by auto
qed

text \<open>The same holds in consistent-hashing mode, whether a chunk comes from its node, from another node
  or from the fallback strategy, whose jobs run on the same queue.\<close>

theorem hashing_pipeline_content:
  assumes "\<And>f. f < files \<Longrightarrow> cache_ready_for (env f) hash jump m (url f)"
    and "\<And>f. f < files \<Longrightarrow> cache_client (client_Do (env f)) (content f)"
    and "\<And>f. f < files \<Longrightarrow> range_client plain_ctx (client_Do (env f)) (content f)" "plain_ctx ctx"
    and "\<And>f. f < files \<Longrightarrow> urls_parse (env f) (url f)"
    and "\<And>f. f < files \<Longrightarrow> ch_valid m (int (length (content f)))"
    and "ch_built m" "chunkSize (FallbackStrategy m) \<le> SliceSize (ch_opts m)"
    and "\<And>f i. length (bufs f i) = nat (ch_chunkSize m)"
    and "0 < maxConcurrency numCPU (ch_opts m)" "0 < lim" "0 \<le> ch_chunkSize m"
    and "cfg = fetched files lim (maxConcurrency numCPU (ch_opts m)) (ch_chunkSize m)
       (\<lambda>f. case ch_Fetch (env f) hash jump m ctx (url f) (bufs f) (ws f) of
          Ret (r, _) \<Rightarrow> r | Panic msg \<Rightarrow> Inl (Errorf msg))"
    and "reachable (pl_init cfg) (pl_step cfg) s"
  shows "(\<exists>t. (pl_step cfg)\<^sup>*\<^sup>* s t \<and> (\<forall>u. \<not> pl_step cfg t u)) \<and>
     (\<forall>t f. (pl_step cfg)\<^sup>*\<^sup>* s t \<and> (\<forall>u. \<not> pl_step cfg t u) \<and> f < files \<longrightarrow>
        pl_out t f = content f \<and> pl_err t f = None)"
proof (rule fetched_completes [OF _ assms(12,10,11,13,14)])
  fix f
  assume f: "f < files"
  show "\<exists>readers sz. (case ch_Fetch (env f) hash jump m ctx (url f) (bufs f) (ws f) of
          Ret (r, _) \<Rightarrow> r | Panic msg \<Rightarrow> Inl (Errorf msg)) = Inr (readers, sz) \<and>
      complete_readers (content f) (ch_chunkSize m) readers"
    using ch_Fetch_readers [where bufs = "bufs f" and ws = "ws f", OF assms(1,2,3) [OF f] assms(4) assms(5,6) [OF f]
        assms(7,8,9)] by fastforce
qed

end
