(* ===== verification/Tar_Confined.thy ===== *)
theory Tar_Confined
  imports File_Frame
begin

text \<open>
  Where extraction (pkg/extract/tar.go) can change files. Starting from a tree without symbolic links
  and with an absolute destination, an archive of files, directories and hard links changes files
  only at places that the guard allows, whatever the names of its entries are; an archive with
  symbolic links can leave the destination when existing names may be removed.
\<close>

section \<open>Places that the guard allows\<close>

definition allowed_place :: "string \<Rightarrow> loc \<Rightarrow> bool" where
  "allowed_place destDir p \<longleftrightarrow> dest_comps destDir = [] \<or>
     (\<exists>sfx us. p = butlast (dest_comps destDir) @ (last (dest_comps destDir) @ sfx) # us)"

lemma lexical_plain: "list_all plain_comp cs \<Longrightarrow> lexical cur cs = cur @ cs"
  by (induction cs arbitrary: cur) (simp_all add: plain_comp_def)

lemma place_render:
  assumes "list_all plain_comp cs"
  shows "place cwd (render True cs) = cs"
proof (cases "cs = []")
  case True
  then show ?thesis by (simp add: place_def render_def path_simps rooted_def)
next
  case False
  then have "comps (render True cs) = [] # cs"
    using plain_no_slash [OF assms] by (simp add: render_def path_simps)
  then show ?thesis using lexical_plain [OF assms, of "[]"] rooted_render [of cs] by (simp add: place_def)
qed

lemma place_target: "rooted destDir \<Longrightarrow> place cwd (filepath_Join destDir name) = target_comps destDir name"
  using place_render [OF target_comps_plain, of cwd destDir name] by (simp add: join_target)

section \<open>Entries\<close>

text \<open>What one step of an extraction may do to the tree, for a set of places where files may change.\<close>

definition confined :: "(loc \<Rightarrow> bool) \<Rightarrow> file_system \<Rightarrow> file_system \<Rightarrow> bool" where
  "confined P fs fs' \<longleftrightarrow> plain_fs fs' \<and> grows fs fs' \<and> (\<forall>p. file_at fs' p \<noteq> file_at fs p \<longrightarrow> P p)"

lemma confined_trans: "confined P a b \<Longrightarrow> confined P b c \<Longrightarrow> confined P a c"
  unfolding confined_def using grows_trans by metis

lemma confined_one:
  assumes "plain_fs fs'" "grows fs fs'" "\<forall>q. q \<noteq> p \<longrightarrow> file_at fs' q = file_at fs q" "P p"
  shows "confined P fs fs'"
  using assms unfolding confined_def by metis

lemma confined_MkdirAll:
  assumes "plain_fs fs" "os_MkdirAll fs path = (e, fs')"
  shows "confined P fs fs'"
proof -
  have "adds_dirs fs fs'" using adds_dirs_MkdirAll [of fs path] assms(2) by simp
  then show ?thesis using assms(1) by (simp add: confined_def adds_dirs_plain adds_dirs_grows adds_dirs_file_at)
qed

lemma confined_write:
  assumes "plain_fs fs" "os_OpenFile fs target overwrite = (r, fs')" "P (place (fs_cwd fs) target)"
  shows "confined P fs fs' \<and> (\<forall>i d. r = Inr i \<longrightarrow> confined P fs (write_file fs' i d))"
proof -
  note o = OpenFile_frame [OF assms(2,1)]
  have c: "confined P fs fs'" using o assms(3) by (intro confined_one) auto
  moreover have "confined P fs (write_file fs' i d)" if "r = Inr i" for i d
  proof -
    have "plain_fs fs'" "node_at fs' (place (fs_cwd fs) target) = Some (File i)" using o that by auto
    from write_frame [OF this, of d] assms(3) have "confined P fs' (write_file fs' i d)"
      by (intro confined_one) auto
    with c show ?thesis by (rule confined_trans)
  qed
  ultimately show ?thesis by blast
qed

lemma tar_entry_confined:
  assumes "rooted destDir" "plain_fs fs" "tar_entry fs destDir overwrite header links = (r, fs')"
    and "\<And>wd. guardAgainstZipSlip wd (h_Name header) destDir = None \<Longrightarrow> P (target_comps destDir (h_Name header))"
  shows "confined P fs fs'"
proof -
  let ?t = "filepath_Join destDir (h_Name header)"
  obtain e1 fs1 where 1: "os_MkdirAll fs (filepath_Dir ?t) = (e1, fs1)" by fastforce
  have c1: "confined P fs fs1" using confined_MkdirAll [OF assms(2) 1] .
  then have p1: "plain_fs fs1" by (simp add: confined_def)
  obtain e2 fs2 where 2: "os_MkdirAll fs1 ?t = (e2, fs2)" by fastforce
  obtain r3 fs3 where 3: "os_OpenFile fs1 ?t overwrite = (r3, fs3)" by fastforce
  show ?thesis
  proof (cases "e1 = None \<and> guardAgainstZipSlip (os_Getwd fs1) (h_Name header) destDir = None")
    case False
    then have "fs' = fs1" using assms(3) 1 by (auto simp: tar_entry_def Let_def split: option.splits)
    with c1 show ?thesis by simp
  next
    case True
    then have "P (place (fs_cwd fs1) ?t)" unfolding place_target [OF assms(1)] using assms(4) by blast
    note w = confined_write [where P = P, OF p1 3 this]
    have "fs' \<in> {fs1, fs2, fs3} \<or> (\<exists>i. r3 = Inr i \<and> fs' = write_file fs3 i (h_Data header))"
      using assms(3) 1 2 3 True by (auto simp: tar_entry_def Let_def split: if_splits option.splits sum.splits)
    then show ?thesis using w confined_MkdirAll [where P = P, OF p1 2] c1 by (auto intro: confined_trans)
  qed
qed

lemma tar_loop_confined:
  assumes "rooted destDir" "plain_fs fs" "tar_loop destDir overwrite hs links fs = (r, fs')"
    and "\<And>h wd. h \<in> set hs \<Longrightarrow> guardAgainstZipSlip wd (h_Name h) destDir = None \<Longrightarrow> P (target_comps destDir (h_Name h))"
  shows "confined P fs fs'"
  using assms(2-4)
proof (induction hs arbitrary: links fs)
  case Nil
  then show ?case by (simp add: confined_def)
next
  case (Cons h hs)
  obtain r1 fs1 where 1: "tar_entry fs destDir overwrite h links = (r1, fs1)" by fastforce
  have c: "confined P fs fs1"
    by (rule tar_entry_confined [OF assms(1) Cons.prems(1) 1]) (use Cons.prems(3) in auto)
  then have p: "plain_fs fs1" by (simp add: confined_def)
  show ?case
  proof (cases r1)
    case (Inl e)
    then show ?thesis using c Cons.prems(2) 1 by simp
  next
    case (Inr links1)
    then have "tar_loop destDir overwrite hs links1 fs1 = (r, fs')" using Cons.prems(2) 1 by simp
    from Cons.IH [OF p this] Cons.prems(3) have "confined P fs1 fs'" by simp
    with c show ?thesis by (rule confined_trans)
  qed
qed

text \<open>A name without two dots that passes the guard leads into the destination.\<close>

lemma no_dots_inside:
  assumes "''..'' \<notin> set (comps name)"
  shows "\<exists>us. target_comps destDir name = dest_comps destDir @ us"
  using push_no_dotdot assms unfolding target_comps_def by metis

section \<open>Hard links\<close>

text \<open>
  Links are created when all files are there. Hard links give a file a second name, so from here on
  only the absence of symbolic links is known.
\<close>

definition loosely_confined :: "(loc \<Rightarrow> bool) \<Rightarrow> file_system \<Rightarrow> file_system \<Rightarrow> bool" where
  "loosely_confined P fs fs' \<longleftrightarrow> link_free fs' \<and> fs_cwd fs' = fs_cwd fs \<and> (\<forall>p. file_at fs' p \<noteq> file_at fs p \<longrightarrow> P p)"

lemma loosely_trans: "loosely_confined P a b \<Longrightarrow> loosely_confined P b c \<Longrightarrow> loosely_confined P a c"
  unfolding loosely_confined_def by metis

lemma loosely_refl: "link_free fs \<Longrightarrow> loosely_confined P fs fs"
  by (simp add: loosely_confined_def)

lemma confined_loosely: "confined P fs fs' \<Longrightarrow> loosely_confined P fs fs'"
  by (simp add: confined_def loosely_confined_def plain_fs_link_free grows_def)

lemma loosely_MkdirAll:
  assumes "link_free fs" "os_MkdirAll fs path = (e, fs')"
  shows "loosely_confined P fs fs'"
proof -
  have d: "adds_dirs fs fs'" using adds_dirs_MkdirAll [of fs path] assms(2) by simp
  have "node_at fs' p \<noteq> Some (Symlink t)" for p t
    using d assms(1) unfolding adds_dirs_def link_free_def by (metis node.distinct(3) option.inject)
  then show ?thesis using d
    by (simp add: loosely_confined_def link_free_def adds_dirs_file_at) (simp add: adds_dirs_def)
qed

text \<open>A change of one name, without touching the contents.\<close>

lemma loosely_name:
  assumes "link_free fs" "P p" "p \<noteq> []" "\<forall>t. x \<noteq> Some (Symlink t)"
  shows "loosely_confined P fs (fs\<lparr>fs_tree := (fs_tree fs)(p := x)\<rparr>)"
proof -
  let ?fs = "fs\<lparr>fs_tree := (fs_tree fs)(p := x)\<rparr>"
  have at: "node_at ?fs q = (if q = p then x else node_at fs q)" for q using assms(3) by (simp add: node_at_def)
  then have "file_at ?fs q = file_at fs q" if "q \<noteq> p" for q
    using that by (simp add: file_at_def split: option.split node.split)
  then have "file_at ?fs q \<noteq> file_at fs q \<Longrightarrow> P q" for q using assms(2) by metis
  moreover have "link_free ?fs" using assms(1,4) by (simp add: link_free_def at)
  ultimately show ?thesis by (simp add: loosely_confined_def)
qed

lemma loosely_remove:
  assumes "link_free fs" "remove_existing overwrite fs path = (e, fs')" "P (place (fs_cwd fs) path)"
  shows "loosely_confined P fs fs'"
proof -
  obtain e1 fs1 where 1: "os_Remove (is_empty_dir fs) fs path = (e1, fs1)" by fastforce
  have "loosely_confined P fs fs1"
  proof (cases "resolve fs False path")
    case (Inl err)
    then show ?thesis using 1 assms(1) by (simp add: os_Remove_def loosely_refl)
  next
    case (Inr p)
    have p: "P p" using resolve_place_free [OF assms(1) Inr] assms(3) by simp
    have "fs1 = fs \<or> p \<noteq> [] \<and> fs1 = fs\<lparr>fs_tree := (fs_tree fs)(p := None)\<rparr>"
      using 1 Inr by (auto simp: os_Remove_def node_at_def split: option.splits node.splits if_splits)
    then show ?thesis using loosely_name [where x = None and P = P, OF assms(1) p] loosely_refl [OF assms(1)] by auto
  qed
  then show ?thesis using assms(2) 1 loosely_refl [OF assms(1)]
    by (auto simp: remove_existing_def split: if_splits option.splits)
qed

lemma loosely_hard_link:
  assumes "link_free fs" "createHardLink fs old new overwrite = (e, fs')" "P (place (fs_cwd fs) new)"
  shows "loosely_confined P fs fs'"
proof -
  obtain e1 fs1 where 1: "remove_existing overwrite fs new = (e1, fs1)" by fastforce
  have c: "loosely_confined P fs fs1" using loosely_remove [where P = P, OF assms(1) 1 assms(3)] .
  then have l: "link_free fs1" "P (place (fs_cwd fs1) new)" using assms(3) by (simp_all add: loosely_confined_def)
  obtain e2 fs2 where 2: "os_Link fs1 old new = (e2, fs2)" by fastforce
  have "fs2 = fs1 \<or> (\<exists>p x. resolve fs1 False new = Inr p \<and> p \<noteq> [] \<and> (\<forall>t. x \<noteq> Symlink t) \<and> fs2 = put_node fs1 p x)"
  proof (cases "stat_node fs1 False old")
    case (Inl err)
    then show ?thesis using 2 by (simp add: os_Link_def)
  next
    case (Inr x)
    then have "\<forall>t. x \<noteq> Symlink t" using l(1)
      by (auto simp: stat_node_def link_free_def split: sum.splits option.splits)
    then show ?thesis using 2 Inr
      by (cases x) (auto simp: os_Link_def add_name_def node_at_def split: sum.splits if_splits)
  qed
  then have "loosely_confined P fs1 fs2"
    using loosely_name [where P = P, OF l(1)] resolve_place_free [OF l(1)] l(2) loosely_refl [OF l(1)]
    by (auto simp: put_node_def)
  then show ?thesis using assms(2) 1 2 c
    by (auto simp: createHardLink_def split: option.splits intro: loosely_trans)
qed

lemma createLinks_confined:
  assumes "link_free fs" "createLinks links destDir overwrite fs = (e, fs')"
    and "\<forall>l \<in> set links. linkType l \<noteq> TypeSymlink \<and> P (place (fs_cwd fs) (newName l))"
  shows "loosely_confined P fs fs'"
  using assms
proof (induction links arbitrary: fs)
  case Nil
  then show ?case by (simp add: loosely_refl)
next
  case (Cons l links)
  obtain e1 fs1 where 1: "os_MkdirAll fs (filepath_Dir (newName l)) = (e1, fs1)" by fastforce
  have c1: "loosely_confined P fs fs1" using loosely_MkdirAll [OF Cons.prems(1) 1] .
  then have l1: "link_free fs1" "fs_cwd fs1 = fs_cwd fs" by (simp_all add: loosely_confined_def)
  obtain e2 fs2 where 2: "createHardLink fs1 (filepath_Join destDir (oldName l)) (newName l) overwrite = (e2, fs2)"
    by fastforce
  have "loosely_confined P fs1 fs2" using loosely_hard_link [where P = P, OF l1(1) 2] l1(2) Cons.prems(3) by simp
  with c1 have c2: "loosely_confined P fs fs2" by (rule loosely_trans)
  then have l2: "link_free fs2" "fs_cwd fs2 = fs_cwd fs" by (simp_all add: loosely_confined_def)
  have "fs' = fs1 \<or> fs' = fs2 \<or> createLinks links destDir overwrite fs2 = (e, fs')"
    using Cons.prems(2,3) 1 2 by (auto simp: Let_def split: option.splits if_splits)
  then show ?case
  proof (elim disjE)
    assume "createLinks links destDir overwrite fs2 = (e, fs')"
    then have "loosely_confined P fs2 fs'" using Cons.IH [OF l2(1)] Cons.prems(3) l2(2) by simp
    with c2 show ?thesis by (rule loosely_trans)
  qed (use c1 c2 in auto)
qed

text \<open>The deferred links come from entries that passed the guard.\<close>

definition guarded_link :: "string \<Rightarrow> tar_header list \<Rightarrow> link \<Rightarrow> bool" where
  "guarded_link destDir hs l \<longleftrightarrow> (\<exists>h \<in> set hs. newName l = filepath_Join destDir (h_Name h) \<and>
     linkType l = h_Typeflag h \<and> (\<exists>wd. guardAgainstZipSlip wd (h_Name h) destDir = None))"

lemma tar_entry_links:
  "tar_entry fs destDir overwrite h links = (Inr links', fs') \<Longrightarrow> l \<in> set links' \<Longrightarrow>
     l \<in> set links \<or> guarded_link destDir [h] l"
  by (auto simp: tar_entry_def Let_def guarded_link_def split: option.splits prod.splits if_splits sum.splits)

lemma tar_loop_links:
  "tar_loop destDir overwrite hs links fs = (Inr links', fs') \<Longrightarrow> l \<in> set links' \<Longrightarrow>
     l \<in> set links \<or> guarded_link destDir hs l"
proof (induction hs arbitrary: links fs)
  case Nil
  then show ?case by simp
next
  case (Cons h hs)
  then obtain links1 fs1 where 1: "tar_entry fs destDir overwrite h links = (Inr links1, fs1)"
    "tar_loop destDir overwrite hs links1 fs1 = (Inr links', fs')" by (auto split: prod.splits sum.splits)
  show ?case using Cons.IH [OF 1(2) Cons.prems(2)] tar_entry_links [OF 1(1), of l] by (auto simp: guarded_link_def)
qed

section \<open>The files of an archive\<close>

text \<open>
  What extraction means for the contents of files, without paths, handles and inodes: every entry of
  a regular file puts its data at the place of its name. Where existing files are not overwritten,
  the end of a longer old content stays behind the new data.
\<close>

definition overwritten :: "bool \<Rightarrow> byte list option \<Rightarrow> byte list \<Rightarrow> byte list" where
  "overwritten overwrite old data =
     data @ (if overwrite then [] else drop (length data) (case old of None \<Rightarrow> [] | Some old' \<Rightarrow> old'))"

fun archive_files ::
  "string \<Rightarrow> bool \<Rightarrow> tar_header list \<Rightarrow> (loc \<rightharpoonup> byte list) \<Rightarrow> (loc \<rightharpoonup> byte list)" where
  "archive_files destDir overwrite [] files = files"
| "archive_files destDir overwrite (h # hs) files =
     archive_files destDir overwrite hs
       (if h_Typeflag h = TypeReg
        then let p = target_comps destDir (h_Name h) in files(p \<mapsto> overwritten overwrite (files p) (h_Data h))
        else files)"

lemma open_write_files:
  assumes "os_OpenFile fs path trunc = (Inr i, fs')" "plain_fs fs"
  shows "file_at (write_file fs' i d) =
     (file_at fs)(place (fs_cwd fs) path \<mapsto> overwritten trunc (file_at fs (place (fs_cwd fs) path)) d)"
proof
  fix q
  let ?p = "place (fs_cwd fs) path"
  have o: "plain_fs fs'" "\<And>p. p \<noteq> ?p \<Longrightarrow> file_at fs' p = file_at fs p" "node_at fs' ?p = Some (File i)"
    using OpenFile_frame [OF assms] by auto
  show "file_at (write_file fs' i d) q = ((file_at fs)(?p \<mapsto> overwritten trunc (file_at fs ?p) d)) q"
  proof (cases "q = ?p")
    case True
    obtain p where p: "resolve fs True path = Inr p" using assms(1) by (auto simp: os_OpenFile_def split: sum.splits)
    then have "p = ?p" by (rule resolve_place [OF assms(2)])
    then have "fs_data fs' i = (if trunc then [] else case file_at fs ?p of None \<Rightarrow> [] | Some old \<Rightarrow> old)"
      using assms(1) p by (auto simp: os_OpenFile_def file_at_def split: option.splits node.splits if_splits)
    then show ?thesis using True o(3) by (simp add: file_at_def write_file_def overwritten_def)
  next
    case False
    then show ?thesis using write_frame [OF o(1,3), of d] o(2) by simp
  qed
qed

lemma tar_entry_files:
  assumes "rooted destDir" "plain_fs fs" "tar_entry fs destDir overwrite h links = (Inr links', fs')"
  shows "plain_fs fs' \<and> file_at fs' = archive_files destDir overwrite [h] (file_at fs)"
proof -
  let ?t = "filepath_Join destDir (h_Name h)"
  have "plain_fs fs'" using tar_entry_confined [where P = "\<lambda>_. True", OF assms] by (simp add: confined_def)
  obtain e1 fs1 where 1: "os_MkdirAll fs (filepath_Dir ?t) = (e1, fs1)" by fastforce
  obtain e2 fs2 where 2: "os_MkdirAll fs1 ?t = (e2, fs2)" by fastforce
  obtain r3 fs3 where 3: "os_OpenFile fs1 ?t overwrite = (r3, fs3)" by fastforce
  have d: "adds_dirs fs fs1" "adds_dirs fs1 fs2"
    using adds_dirs_MkdirAll [of fs "filepath_Dir ?t"] adds_dirs_MkdirAll [of fs1 ?t] 1 2 by simp_all
  then have f: "file_at fs1 = file_at fs" "file_at fs2 = file_at fs" "plain_fs fs1"
    using adds_dirs_file_at adds_dirs_plain [OF d(1) assms(2)] by auto
  have "file_at fs' = archive_files destDir overwrite [h] (file_at fs)"
  proof (cases "h_Typeflag h = TypeReg")
    case True
    then obtain i where "r3 = Inr i" "fs' = write_file fs3 i (h_Data h)"
      using assms(3) 1 3 by (auto simp: tar_entry_def Let_def TypeReg_def TypeDir_def TypeXGlobalHeader_def
          split: option.splits sum.splits)
    then show ?thesis using True open_write_files [OF _ f(3), of ?t overwrite i fs3 "h_Data h"] 3
      by (simp add: place_target [OF assms(1)] f(1) Let_def)
  next
    case False
    then have "fs' \<in> {fs1, fs2}"
      using assms(3) 1 2 by (auto simp: tar_entry_def Let_def split: option.splits if_splits)
    then show ?thesis using False f(1,2) by auto
  qed
  with \<open>plain_fs fs'\<close> show ?thesis by blast
qed

lemma tar_loop_files:
  assumes "rooted destDir"
  shows "plain_fs fs \<Longrightarrow> tar_loop destDir overwrite hs links fs = (Inr links', fs') \<Longrightarrow>
     plain_fs fs' \<and> file_at fs' = archive_files destDir overwrite hs (file_at fs)"
proof (induction hs arbitrary: links fs)
  case (Cons h hs)
  then obtain links1 fs1 where 1: "tar_entry fs destDir overwrite h links = (Inr links1, fs1)"
    "tar_loop destDir overwrite hs links1 fs1 = (Inr links', fs')" by (auto split: prod.splits sum.splits)
  note e = tar_entry_files [OF assms Cons.prems(1) 1(1)]
  show ?case using Cons.IH [OF conjunct1 [OF e] 1(2)] e by simp
qed simp

text \<open>An archive without links defers none.\<close>

definition no_link_header :: "tar_header \<Rightarrow> bool" where
  "no_link_header h \<longleftrightarrow> h_Typeflag h \<noteq> TypeSymlink \<and> h_Typeflag h \<noteq> TypeLink"

lemma tar_entry_no_link:
  "no_link_header h \<Longrightarrow> tar_entry fs destDir overwrite h links = (Inr links', fs') \<Longrightarrow> links' = links"
  by (auto simp: no_link_header_def tar_entry_def Let_def split: option.splits prod.splits if_splits sum.splits)

lemma tar_loop_no_link:
  "list_all no_link_header hs \<Longrightarrow> tar_loop destDir overwrite hs links fs = (Inr links', fs') \<Longrightarrow> links' = links"
proof (induction hs arbitrary: links fs)
  case (Cons h hs)
  then obtain links1 fs1 where 1: "tar_entry fs destDir overwrite h links = (Inr links1, fs1)"
    "tar_loop destDir overwrite hs links1 fs1 = (Inr links', fs')" by (auto split: prod.splits sum.splits)
  then have "links1 = links" using Cons.prems(1) tar_entry_no_link by auto
  then show ?case using Cons.IH [of links1 fs1] Cons.prems(1) 1(2) by simp
qed simp

section \<open>Properties\<close>

text \<open>Where an archive may change files: everywhere the guard allows, or, when no name contains two
  dots, below the destination.\<close>

definition tar_places :: "string \<Rightarrow> tar_header list \<Rightarrow> loc \<Rightarrow> bool" where
  "tar_places destDir hs p \<longleftrightarrow>
     (if list_all (\<lambda>h. ''..'' \<notin> set (comps (h_Name h))) hs then \<exists>us. p = dest_comps destDir @ us
      else allowed_place destDir p)"

lemma guarded_places:
  assumes "rooted destDir" "h \<in> set hs" "guardAgainstZipSlip wd (h_Name h) destDir = None"
  shows "tar_places destDir hs (target_comps destDir (h_Name h))"
  using assms no_dots_inside guard_iff [OF assms(1)]
  unfolding tar_places_def allowed_place_def list_all_iff by metis

text \<open>C21. Extracting an archive without symbolic links to an absolute destination, in a file system that holds no
  symbolic link and no file with a second name beforehand (an existing link inside the destination
  would lead entries elsewhere): whatever the entries are called and whether or not it succeeds,
  extraction changes files only inside the destination if no name contains two dots, and otherwise
  only inside the destination or siblings whose names begin with its name.\<close>

theorem tar_writes_confined:
  assumes "rooted destDir" "plain_fs fs" "TarFile archive fs inp destDir overwrite = (e, fs')"
    and "archive (detectFormat (take peekSize (fst inp))) inp = Inr ts"
    and "\<forall>h \<in> set (ts_headers ts). h_Typeflag h \<noteq> TypeSymlink"
    and "file_at fs' p \<noteq> file_at fs p"
  shows "tar_places destDir (ts_headers ts) p"
proof -
  let ?P = "tar_places destDir (ts_headers ts)"
  obtain r fs1 where 1: "tar_loop destDir overwrite (ts_headers ts) [] fs = (r, fs1)" by fastforce
  have c: "loosely_confined ?P fs fs1"
    by (rule confined_loosely, rule tar_loop_confined [OF assms(1,2) 1]) (rule guarded_places [OF assms(1)])
  then have l: "link_free fs1" "fs_cwd fs1 = fs_cwd fs" by (simp_all add: loosely_confined_def)
  have "fs' \<in> {fs, fs1} \<or> (\<exists>links e2. r = Inr links \<and> createLinks links destDir overwrite fs1 = (e2, fs'))"
    using assms(3,4) 1 by (auto simp: TarFile_def split: prod.splits if_splits sum.splits option.splits)
  then have "loosely_confined ?P fs fs'"
  proof
    assume "fs' \<in> {fs, fs1}"
    then show ?thesis using c assms(2) by (auto simp: loosely_refl plain_fs_link_free)
  next
    assume "\<exists>links e2. r = Inr links \<and> createLinks links destDir overwrite fs1 = (e2, fs')"
    then obtain links e2 where links: "r = Inr links" "createLinks links destDir overwrite fs1 = (e2, fs')" by blast
    have "linkType k \<noteq> TypeSymlink \<and> ?P (place (fs_cwd fs1) (newName k))" if "k \<in> set links" for k
      using tar_loop_links [OF 1 [unfolded links(1)] that] assms(5) guarded_places [OF assms(1)]
      by (auto simp: guarded_link_def place_target [OF assms(1)])
    then have "loosely_confined ?P fs1 fs'" using createLinks_confined [where P = ?P, OF l(1) links(2)] by blast
    with c show ?thesis by (rule loosely_trans)
  qed
  then show ?thesis using assms(6) by (simp add: loosely_confined_def)
qed

text \<open>C23. What a successful extraction leaves, for an absolute destination in a file system without symbolic or
  hard links: once all entries are extracted and before the links of the archive are created, the
  content of every place is the one that the regular files of the archive give it one after the
  other: the data of the last entry with that place, and the old content where there is none. Where
  existing files are not overwritten, the end of a longer old content stays behind the new data, also
  of an earlier entry of the same archive. The links are the last change; without link entries there
  is none.\<close>

theorem tar_archive_content:
  assumes "rooted destDir" "plain_fs fs" "TarFile archive fs inp destDir overwrite = (None, fs')"
    and "archive (detectFormat (take peekSize (fst inp))) inp = Inr ts"
  shows "\<exists>links fs1. file_at fs1 = archive_files destDir overwrite (ts_headers ts) (file_at fs) \<and>
     createLinks links destDir overwrite fs1 = (None, fs') \<and>
     (list_all no_link_header (ts_headers ts) \<longrightarrow> links = [] \<and> fs' = fs1)"
proof -
  obtain data rerr where i: "inp = (data, rerr)" by fastforce
  obtain links fs1 where 1: "tar_loop destDir overwrite (ts_headers ts) [] fs = (Inr links, fs1)"
    "createLinks links destDir overwrite fs1 = (None, fs')"
    using TarFile_ok [OF assms(3) [unfolded i]] assms(4) i by auto
  have "links = []" if "list_all no_link_header (ts_headers ts)" using tar_loop_no_link [OF that 1(1)] .
  then have "list_all no_link_header (ts_headers ts) \<longrightarrow> links = [] \<and> fs' = fs1" using 1(2) by auto
  then show ?thesis using tar_loop_files [OF assms(1,2) 1(1)] 1(2) by blast
qed

definition plain_example_fs :: file_system where
  "plain_example_fs = \<lparr>fs_tree = [[''d''] \<mapsto> Dir, [''x''] \<mapsto> File 0], fs_data = (\<lambda>_. [9]), fs_next = 1, fs_cwd = []\<rparr>"

text \<open>An archive with one file, read from any bytes.\<close>

definition example_archive :: archive_reader where
  "example_archive d inp = Inr \<lparr>ts_headers = [example_header], ts_err = None, ts_taken = length (fst inp)\<rparr>"

theorem tar_writes_confined_witness:
  "file_at (snd (TarFile example_archive plain_example_fs (replicate 8 1, None) ''/d'' True)) [''d'', ''f''] = Some [1, 2] \<and>
   tar_places ''/d'' [example_header] [''d'', ''f'']"
proof -
  let ?i = "(replicate 8 1, None) :: byte list \<times> go_error option"
  have p: "plain_fs plain_example_fs"
    by (auto simp: plain_fs_def plain_example_fs_def node_at_def split: if_splits)
  obtain e fs' where r: "TarFile example_archive plain_example_fs ?i ''/d'' True = (e, fs')" by fastforce
  have j: "filepath_Join ''/d'' ''f'' = ''/d/f''" "filepath_Dir ''/d/f'' = ''/d''" by code_simp+
  have m: "os_MkdirAll plain_example_fs ''/d'' = (None, plain_example_fs)"
    by (simp add: os_MkdirAll_def rooted_def slash_def comps_def stat_node_def resolve_def walk.simps(2)
        node_at_def plain_example_fs_def Let_def)
  have g: "guardAgainstZipSlip (os_Getwd plain_example_fs) ''f'' ''/d'' = None"
    by (simp add: plain_example_fs_def os_Getwd_def) code_simp
  have o: "resolve plain_example_fs True ''/d/f'' = Inr [''d'', ''f'']"
    by (simp add: resolve_def rooted_def slash_def comps_def walk.simps(2) node_at_def plain_example_fs_def)
  have f: "file_at fs' [''d'', ''f''] = Some [1, 2]"
    using r j m g o
    by (auto simp: TarFile_def example_archive_def peekSize_def tar_entry_def example_header_def TypeReg_def TypeDir_def
        TypeXGlobalHeader_def os_OpenFile_def write_file_def file_at_def node_at_def plain_example_fs_def put_node_def Let_def)
  moreover have "file_at plain_example_fs [''d'', ''f''] = None" by (simp add: file_at_def node_at_def plain_example_fs_def)
  moreover have "rooted ''/d''" by (simp add: rooted_def slash_def)
  moreover have "h_Typeflag example_header \<noteq> TypeSymlink" by (simp add: example_header_def TypeReg_def TypeSymlink_def)
  ultimately have "tar_places ''/d'' [example_header] [''d'', ''f'']"
    using tar_writes_confined [OF _ p r, of "\<lparr>ts_headers = [example_header], ts_err = None, ts_taken = 8\<rparr>"]
    by (simp add: example_archive_def)
  with f show ?thesis unfolding r by simp
qed

text \<open>An archive with two entries for one name, the second one shorter: without overwriting, the end of the
  first one stays.\<close>

definition twice_headers :: "tar_header list" where
  "twice_headers = [example_header\<lparr>h_Data := [1, 2, 3]\<rparr>, example_header\<lparr>h_Data := [9]\<rparr>]"

definition twice_archive :: archive_reader where
  "twice_archive d inp = Inr \<lparr>ts_headers = twice_headers, ts_err = None, ts_taken = length (fst inp)\<rparr>"

lemma twice_extracted:
  "\<exists>fs'. TarFile twice_archive plain_example_fs (replicate 8 1, None) ''/d'' False = (None, fs')"
proof -
  let ?fs1 = "\<lparr>fs_tree = [[''d''] \<mapsto> Dir, [''x''] \<mapsto> File 0, [''d'', ''f''] \<mapsto> File 1], fs_data = (\<lambda>_. [9])(1 := [1, 2, 3]),
    fs_next = 2, fs_cwd = []\<rparr>"
  have j: "filepath_Join ''/d'' ''f'' = ''/d/f''" "filepath_Dir ''/d/f'' = ''/d''" by code_simp+
  have m: "os_MkdirAll plain_example_fs ''/d'' = (None, plain_example_fs)" "os_MkdirAll ?fs1 ''/d'' = (None, ?fs1)"
    by (simp_all add: os_MkdirAll_def rooted_def slash_def comps_def stat_node_def resolve_def walk.simps(2)
        node_at_def plain_example_fs_def Let_def)
  have wd: "os_Getwd plain_example_fs = os_Getwd ?fs1" by (simp add: plain_example_fs_def os_Getwd_def)
  have g: "guardAgainstZipSlip (os_Getwd ?fs1) ''f'' ''/d'' = None" by (simp add: os_Getwd_def) code_simp
  have "resolve plain_example_fs True ''/d/f'' = Inr [''d'', ''f'']" "resolve ?fs1 True ''/d/f'' = Inr [''d'', ''f'']"
    by (simp_all add: resolve_def rooted_def slash_def comps_def walk.simps(2) node_at_def plain_example_fs_def)
  then have o: "os_OpenFile plain_example_fs ''/d/f'' False = (Inr 1, ?fs1\<lparr>fs_data := (\<lambda>_. [9])(1 := [])\<rparr>)"
    "os_OpenFile ?fs1 ''/d/f'' False = (Inr 1, ?fs1)"
    by (simp_all add: os_OpenFile_def node_at_def plain_example_fs_def put_node_def)
  have "tar_entry plain_example_fs ''/d'' False (example_header\<lparr>h_Data := [1, 2, 3]\<rparr>) [] = (Inr [], ?fs1)"
    using j m(1) wd g o(1)
    by (simp add: tar_entry_def example_header_def TypeReg_def TypeDir_def TypeXGlobalHeader_def write_file_def Let_def)
  moreover have "\<exists>fs2. tar_entry ?fs1 ''/d'' False (example_header\<lparr>h_Data := [9]\<rparr>) [] = (Inr [], fs2)"
    using j m(2) g o(2)
    by (simp add: tar_entry_def example_header_def TypeReg_def TypeDir_def TypeXGlobalHeader_def write_file_def Let_def)
  ultimately show ?thesis by (auto simp: TarFile_def twice_archive_def twice_headers_def peekSize_def)
qed

theorem tar_archive_content_witness:
  "\<exists>fs'. TarFile twice_archive plain_example_fs (replicate 8 1, None) ''/d'' False = (None, fs') \<and>
     file_at fs' [''d'', ''f''] = Some [9, 2, 3]"
proof -
  obtain fs' where r: "TarFile twice_archive plain_example_fs (replicate 8 1, None) ''/d'' False = (None, fs')"
    using twice_extracted by blast
  have p: "plain_fs plain_example_fs" "rooted ''/d''"
    by (auto simp: plain_fs_def plain_example_fs_def node_at_def rooted_def slash_def split: if_splits)
  have t: "target_comps ''/d'' ''f'' = [''d'', ''f'']" by code_simp
  have n: "list_all no_link_header twice_headers"
    by (simp add: twice_headers_def example_header_def no_link_header_def TypeReg_def TypeSymlink_def TypeLink_def)
  have "file_at plain_example_fs [''d'', ''f''] = None" by (simp add: file_at_def node_at_def plain_example_fs_def)
  then have "archive_files ''/d'' False twice_headers (file_at plain_example_fs) [''d'', ''f''] = Some [9, 2, 3]"
    by (simp add: twice_headers_def example_header_def t overwritten_def)
  moreover have "file_at fs' = archive_files ''/d'' False twice_headers (file_at plain_example_fs)"
    using tar_archive_content [OF p(2,1) r, of "\<lparr>ts_headers = twice_headers, ts_err = None, ts_taken = 8\<rparr>"] n
    by (auto simp: twice_archive_def)
  ultimately show ?thesis using r by auto
qed

section \<open>Symbolic links\<close>

text \<open>
  An archive of two symbolic links, \<open>a\<close> to /etc and \<open>a/x\<close> to anything. The loop over the headers makes
  the directory \<open>a\<close> for the second entry. When existing names may be removed, the first link
  replaces that directory, and the second link is created behind it, in /etc.
\<close>

definition link_header :: "string \<Rightarrow> string \<Rightarrow> tar_header" where
  "link_header name target = \<lparr>h_Name = name, h_Typeflag = TypeSymlink, h_Mode = 511, h_Linkname = target,
     h_Data = [], h_DataErr = None\<rparr>"

definition links_archive :: "string \<Rightarrow> archive_reader" where
  "links_archive t d inp = Inr \<lparr>ts_headers = [link_header ''a'' ''/etc'', link_header ''a/x'' t], ts_err = None,
     ts_taken = length (fst inp)\<rparr>"

definition etc_fs :: file_system where
  "etc_fs = \<lparr>fs_tree = [[''out''] \<mapsto> Dir, [''etc''] \<mapsto> Dir], fs_data = (\<lambda>_. []), fs_next = 0, fs_cwd = []\<rparr>"

text \<open>The tree with the given node at /out/a.\<close>

abbreviation etc_with :: "node \<Rightarrow> file_system" where
  "etc_with x \<equiv> etc_fs\<lparr>fs_tree := (fs_tree etc_fs)([''out'', ''a''] \<mapsto> x)\<rparr>"

lemmas etc_simps = stat_node_def resolve_def rooted_def slash_def comps_def walk.simps(2) node_at_def etc_fs_def
  link_base_def

lemma etc_paths:
  "filepath_Join ''/out'' ''a'' = ''/out/a''" "filepath_Join ''/out'' ''a/x'' = ''/out/a/x''"
  "filepath_Dir ''/out/a'' = ''/out''" "filepath_Dir ''/out/a/x'' = ''/out/a''"
  "guardAgainstZipSlip (Inr ''/'') ''a'' ''/out'' = None" "guardAgainstZipSlip (Inr ''/'') ''a/x'' ''/out'' = None"
  by code_simp+

lemma etc_getwd: "os_Getwd (etc_with x) = Inr ''/''" "os_Getwd etc_fs = Inr ''/''"
  by (simp_all add: os_Getwd_def etc_fs_def render_def slash_def)

lemma etc_mkdir:
  "os_MkdirAll etc_fs ''/out'' = (None, etc_fs)"
  "os_MkdirAll (etc_with Dir) ''/out'' = (None, etc_with Dir)"
  "os_MkdirAll etc_fs ''/out/a'' = (None, etc_with Dir)"
  "os_MkdirAll (etc_with (Symlink ''/etc'')) ''/out/a'' = (None, etc_with (Symlink ''/etc''))"
  by (simp_all add: os_MkdirAll_def os_Mkdir_def add_name_def put_node_def Let_def etc_simps not_exist_def)

lemma etc_first_link:
  "createSymlink (etc_with Dir) ''/etc'' ''/out/a'' overwrite =
     (if overwrite then (None, etc_with (Symlink ''/etc'')) else (Some (errno ''file exists''), etc_with Dir))"
  by (simp add: createSymlink_def remove_existing_def os_Remove_def os_Symlink_def add_name_def put_node_def
      is_empty_dir_def etc_simps)

lemma etc_second_link:
  "createSymlink (etc_with (Symlink ''/etc'')) t ''/out/a/x'' True =
     (None, put_node (etc_with (Symlink ''/etc'')) [''etc'', ''x''] (Symlink t))"
  by (simp add: createSymlink_def remove_existing_def os_Remove_def os_Symlink_def add_name_def etc_simps not_exist_def)

lemma etc_loop:
  "tar_loop ''/out'' overwrite [link_header ''a'' ''/etc'', link_header ''a/x'' t] [] etc_fs =
     (Inr [\<lparr>linkType = TypeSymlink, oldName = ''/etc'', newName = ''/out/a''\<rparr>,
           \<lparr>linkType = TypeSymlink, oldName = t, newName = ''/out/a/x''\<rparr>], etc_with Dir)"
  by (simp add: tar_entry_def link_header_def etc_paths etc_mkdir etc_getwd Let_def
      TypeSymlink_def TypeReg_def TypeDir_def TypeXGlobalHeader_def)

text \<open>C24. When existing files may be overwritten, symbolic links of an archive can leave the destination
  although every entry passes the guard: an archive of two links, extracted to /out, creates a link
  with any target in /etc. Without that option the same archive is refused and /etc stays as it is.\<close>

theorem tar_links_escape:
  "node_at (snd (TarFile (links_archive t) etc_fs (replicate 8 0, None) ''/out'' overwrite)) [''etc'', ''x''] =
     (if overwrite then Some (Symlink t) else None) \<and>
   (fst (TarFile (links_archive t) etc_fs (replicate 8 0, None) ''/out'' overwrite) = None \<longleftrightarrow> overwrite)"
proof -
  have "createLinks [\<lparr>linkType = TypeSymlink, oldName = ''/etc'', newName = ''/out/a''\<rparr>,
      \<lparr>linkType = TypeSymlink, oldName = t, newName = ''/out/a/x''\<rparr>] ''/out'' overwrite (etc_with Dir) =
      (if overwrite then (None, put_node (etc_with (Symlink ''/etc'')) [''etc'', ''x''] (Symlink t))
       else (Some (Wrapf (''error creating symlink from '' @ ''/etc'' @ '' to '' @ ''/out/a'') (errno ''file exists'')),
         etc_with Dir))"
    by (simp add: etc_paths etc_mkdir etc_first_link etc_second_link TypeSymlink_def TypeLink_def)
  then show ?thesis
    by (simp add: TarFile_def peekSize_def links_archive_def etc_loop node_at_put del: createLinks.simps tar_loop.simps)
       (simp add: node_at_def etc_fs_def)
qed

text \<open>The target of a hard link is not guarded at all: extracting to /out an archive with one hard link to
  ../secret makes the file /secret available inside the destination, with or without overwriting.\<close>

definition secret_fs :: "byte list \<Rightarrow> file_system" where
  "secret_fs secret = \<lparr>fs_tree = [[''out''] \<mapsto> Dir, [''secret''] \<mapsto> File 0], fs_data = (\<lambda>_. secret), fs_next = 1, fs_cwd = []\<rparr>"

definition hard_link_archive :: archive_reader where
  "hard_link_archive d inp = Inr \<lparr>ts_headers = [(link_header ''x'' ''../secret'')\<lparr>h_Typeflag := TypeLink\<rparr>], ts_err = None,
     ts_taken = length (fst inp)\<rparr>"

lemma hard_link_reaches_out:
  "fst (TarFile hard_link_archive (secret_fs secret) (replicate 8 0, None) ''/out'' overwrite) = None \<and>
   node_at (snd (TarFile hard_link_archive (secret_fs secret) (replicate 8 0, None) ''/out'' overwrite)) [''out'', ''x''] =
     node_at (secret_fs secret) [''secret'']"
proof -
  have paths: "filepath_Join ''/out'' ''x'' = ''/out/x''" "filepath_Join ''/out'' ''../secret'' = ''/secret''"
    "filepath_Dir ''/out/x'' = ''/out''" "guardAgainstZipSlip (Inr ''/'') ''x'' ''/out'' = None" by code_simp+
  have wd: "os_Getwd (secret_fs secret) = Inr ''/''" by (simp add: os_Getwd_def secret_fs_def render_def slash_def)
  have mk: "os_MkdirAll (secret_fs secret) ''/out'' = (None, secret_fs secret)"
    by (simp add: os_MkdirAll_def Let_def etc_simps secret_fs_def)
  have loop: "tar_loop ''/out'' overwrite [(link_header ''x'' ''../secret'')\<lparr>h_Typeflag := TypeLink\<rparr>] [] (secret_fs secret) =
      (Inr [\<lparr>linkType = TypeLink, oldName = ''../secret'', newName = ''/out/x''\<rparr>], secret_fs secret)"
    by (simp add: tar_entry_def link_header_def paths mk wd Let_def
        TypeSymlink_def TypeReg_def TypeDir_def TypeXGlobalHeader_def TypeLink_def)
  have "createHardLink (secret_fs secret) ''/secret'' ''/out/x'' overwrite =
      (None, put_node (secret_fs secret) [''out'', ''x''] (File 0))"
    by (simp add: createHardLink_def remove_existing_def os_Remove_def os_Link_def add_name_def etc_simps secret_fs_def not_exist_def)
  then have "createLinks [\<lparr>linkType = TypeLink, oldName = ''../secret'', newName = ''/out/x''\<rparr>] ''/out'' overwrite (secret_fs secret) =
      (None, put_node (secret_fs secret) [''out'', ''x''] (File 0))"
    by (simp add: paths mk)
  then show ?thesis
    by (simp add: TarFile_def peekSize_def hard_link_archive_def loop node_at_put del: createLinks.simps tar_loop.simps)
       (simp add: node_at_def secret_fs_def)
qed

end
