(* ===== verification/Spec2Isabelle.thy ===== *)
theory Spec2Isabelle
  imports Program Redirects Pipeline_Runs Tar_Confined
begin

text \<open>
  rpget downloads files over HTTP with many range requests at a time. This development models its
  Go sources under src/ and proves what makes them correct.

  \<^bold>\<open>The program.\<close> The root command (cmd/root) downloads one URL, the multifile command
  (cmd/multifile) the entries of a manifest. Both turn options into the settings of an HTTP client
  (pkg/client), a strategy (pkg/download) and a consumer (pkg/consumer), and call the getter
  (pkg/rpget.go). Around them the process builds its commands and flags (main.go, cmd/cmd.go), settles
  the options and takes the lock of the PID file (pkg/cli). The strategy's \<open>Fetch\<close> asks for a first chunk, learns the size of the file,
  submits one job per further chunk to a priority work queue, and returns a reader over promises in
  the order of the chunks; the workers fill the promises. In buffer mode all requests go to one
  server. In consistent-hashing mode the file is cut into slices, each slice belongs to a cache node
  (pkg/consistent), and requests that a node cannot answer go to a second node and then to the
  buffer mode. A body that breaks off is resumed (common.go). The consumer writes the bytes to a
  file, extracts them as an archive (pkg/extract), or drops them.

  \<^bold>\<open>Theories.\<close>
  \<^item> \<open>Rpget_Prelude\<close>: 64-bit integers with their wrap-around, errors, panics, transition systems and
    the locale \<open>invariant_system\<close>. \<open>Go_Strings\<close>, \<open>Go_Http\<close>, \<open>Go_Filepath\<close>, \<open>Go_Files\<close>: the parts of
    Go's standard library the program uses, among them a file system with directories, inodes and
    symbolic links.
  \<^item> \<open>Range_Resume\<close> (common.go): resumption of a body. A loop that does not end is \<open>None\<close>.
  \<^item> \<open>Chunk_Plan\<close>: the locale of a plan of byte ranges and what readers of its chunks yield.
    \<open>Buffer_Mode\<close> (buffer.go) and \<open>Consistent_Hashing_Mode\<close> (consistent_hashing.go) interpret it.
  \<^item> \<open>Consistent_Hash\<close> (consistent.go): the choice of a bucket, with hash and jump hash as parameters.
  \<^item> \<open>Work_Queue\<close> (work_queue.go) and \<open>Reader_Promise\<close> (reader_promise.go): transition systems of
    workers, producer and consumer; the queue refines an abstract pool. \<open>Download_Pipeline\<close> puts them
    together with the submissions of \<open>Fetch\<close> and the consumers of several files into one system of
    goroutines with an invariant; \<open>Pipeline_Runs\<close> shows by the locale \<open>bounded_system\<close> that its
    runs end, and where.
  \<^item> \<open>Retry_Client\<close> (client.go): headers, retry policy, back-off and dialer; \<open>Redirects\<close>: how its
    client follows redirects. \<open>Config_Opts\<close> (pkg/config),
    \<open>Cli_Common\<close> (pkg/cli), \<open>Manifest\<close> (manifest.go), \<open>Version_Info\<close> (pkg/version).
  \<^item> \<open>Tar_Extract\<close> (pkg/extract) and \<open>Consumers\<close> (pkg/consumer, locale \<open>byte_consumer\<close>) on the file
    system. \<open>File_Frame\<close>: writing one file changes no other; \<open>Tar_Confined\<close>: where extraction can
    change files, and what the files of an archive hold afterwards; \<open>Tree_Typing\<close>: every call keeps the
    file system well-formed, hence (\<open>Command_Types\<close>) so do the getter and the commands.
  \<^item> \<open>Getter\<close> (rpget.go): one file, and many files as runs of events of an errgroup; the locale
    \<open>download_strategy\<close> is the contract of \<open>Fetch\<close>, interpreted by both strategies.
    \<open>Multi_Download\<close>: all files of a manifest on the disk.
  \<^item> \<open>Commands\<close> (cmd/root, cmd/multifile): hooks, set-up and execution of both commands, and what
    they write. A strategy comes with the work queue that was built and started for it: its buffers
    have the size of the queue, and without a worker its \<open>Fetch\<close> never returns. \<open>Command_Flags\<close>: the declaration of commands and flags (\<open>GetCommand\<close>,
    \<open>persistentFlags\<close>, \<open>HideFlags\<close>, \<open>DeprecateFlags\<close>, \<open>ViperInit\<close>) over a library of flags, and which
    chunk size results from command line and environment. \<open>Program\<close> (main.go, cmd.go, log.go): the
    commands as functions that the command library calls in its documented order, and the process
    up to its exit status. \<open>Range_Server\<close>: a server with unreliable connections to evaluate
    the models on; it shows that the assumptions about the outside world can be met.

  \<^bold>\<open>What is shown.\<close> A process that downloads one file or a manifest puts exactly the served content at
  the destinations, for every interleaving of the downloads, ends with status 0 and frees its lock
  (with at least one worker, the file consumer and a file system without links); it does not start
  while another process holds the lock. Below that: plans of ranges cover every byte once and
  fit the buffers; downloads are complete although bodies break off; the queue loses no
  work; in every scheduling of the goroutines the downloads get through, and the readers of the
  sequential models of \<open>Fetch\<close> are what the consumers read; the consumer of a promise sees only what
  was delivered, and gets all of it; a request to the cache nodes tries at most two of them and discards
  no response, whatever they answer; the failures that lead to the fallback strategy are exactly
  those of an unreachable node; credentials stop at a redirect; overrides, manifests, cache hosts
  and headers mean what they say; extraction stays where the guard allows and leaves what the entries
  say. Theorems also pin down
  where the code falls short of its comments: unbounded resumption, a delivered error that blocks its
  worker for ever and can stall all downloads, the unused Retry-After header, redirects without a
  limit, a command that never returns for want of workers, files of an archive mixed from two
  entries, chunk sizes of the command line that lose against the environment, truncated manifests,
  and archive formats that are never recognised.

  \<^bold>\<open>Conventions.\<close> Machine integers are integers with \<open>wrap64\<close> written out. A Go call that may
  panic returns an \<open>outcome\<close>, and a call that may never return an \<open>option\<close>. Concurrent jobs of one download get their own worlds, so results hold
  for every interleaving. The walk along a path follows at most 40 links, as on Linux. The
  only other bounds are those of the code: the 64 KiB lines of the scanner and the 500 MiB slices.
  Code that is not in the repository (HTTP library, URL parser, hash functions,
  decompressors and the tar reader, DNS, the libraries of commands, flags and configuration) is a
  parameter; what is assumed of it is a named predicate (\<open>flag_laws\<close>, \<open>viper_order\<close>, \<open>flags_parsed\<close>,
  \<open>cobra_order\<close>, \<open>range_client\<close> and others), shown to be satisfiable by an example.

  \<^bold>\<open>Not modelled.\<close> Log messages, elapsed times, file permissions, the descriptions of the commands and
  the usage template, and tools.go, which has no code. The parsing of the command line is an input
  of the model, and the PID file is a store of its own beside the file system. One download's effects on the file system are one step of a run of
  many; interleaving within two consumers is not modelled. In the system of goroutines the answers
  to requests are fixed beforehand, a fallback \<open>Fetch\<close> counts as a download of its own, and a
  consumer stops at the first error.
\<close>

section \<open>Downloads are complete\<close>

text \<open>C4. Whenever the server honours range requests, possibly with interrupted bodies, a
  download in buffer mode yields readers whose bytes in order are exactly the content of the
  file, together with its size and without an error, for every positive chunk size and every
  interleaving of the jobs.\<close>

theorem buffer_fetch_complete:
  assumes "range_client C (client_Do env) content" "C ctx"
    and "urls_parse env (effective_url env m url)" and "bm_valid m (int (length content))"
    and "\<And>i. length (bufs i) = nat (chunkSize m)"
  shows "\<exists>readers m'. bm_Fetch env m ctx url bufs ws = (Inr (readers, int (length content)), m') \<and>
     multi_read readers = Some (Ret (content, None))"
  using bm_Fetch_content [OF assms] .

theorem buffer_fetch_complete_witness:
  "\<exists>readers m'. bm_Fetch (example_env [1, 2, 3, 4, 5, 6, 7] 2 (\<lambda>_. False)) (example_bufferMode 3)
       background ''weights.example.com/a'' (\<lambda>_. replicate 3 0) (\<lambda>_. ()) = (Inr (readers, 7), m') \<and>
     multi_read readers = Some (Ret ([1, 2, 3, 4, 5, 6, 7], None))"
  using buffer_fetch_complete [of plain_ctx "example_env [1, 2, 3, 4, 5, 6, 7] 2 (\<lambda>_. False)"
      "[1, 2, 3, 4, 5, 6, 7]" background "example_bufferMode 3" "''weights.example.com/a''"
      "\<lambda>_. replicate 3 0" "\<lambda>_. ()"]
  by (simp add: example_facts example_modes)

text \<open>C5. In consistent-hashing mode a download is complete in the same sense when the cache
  nodes serve ranges completely or fail with an error that asks for the fallback, and the
  origin honours range requests: a chunk comes from its node, from the second node or from
  the fallback strategy, and the whole file from the fallback strategy where the URL is not
  cacheable or the first request finds no node, provided a chunk is no longer than a slice.\<close>

theorem hashing_fetch_complete:
  assumes "cache_ready_for env hash jump m url" and "cache_client (client_Do env) content"
    and "range_client plain_ctx (client_Do env) content" "plain_ctx ctx"
    and "urls_parse env url" and "ch_valid m (int (length content))"
    and "ch_built m" and "chunkSize (FallbackStrategy m) \<le> SliceSize (ch_opts m)"
    and "\<And>i. length (bufs i) = nat (ch_chunkSize m)"
  shows "\<exists>readers m'. ch_Fetch env hash jump m ctx url bufs ws = Ret (Inr (readers, int (length content)), m') \<and>
     multi_read readers = Some (Ret (content, None))"
  using ch_Fetch_content [OF assms] .

theorem hashing_fetch_complete_witness:
  "\<exists>readers m'. ch_Fetch (example_env [1, 2, 3, 4, 5, 6, 7] 2 (\<lambda>h. h = ''n1'')) example_hash example_jump
       (example_chMode 2 3 [''n0'', ''n1'']) background ''weights.example.com/a''
       (\<lambda>_. replicate 2 0) (\<lambda>_. ()) = Ret (Inr (readers, 7), m') \<and>
     multi_read readers = Some (Ret ([1, 2, 3, 4, 5, 6, 7], None))"
  using hashing_fetch_complete [where env = "example_env [1, 2, 3, 4, 5, 6, 7] 2 (\<lambda>h. h = ''n1'')"
      and hash = example_hash and jump = example_jump and m = "example_chMode 2 3 [''n0'', ''n1'']"
      and content = "[1, 2, 3, 4, 5, 6, 7]" and ctx = background and url = "''weights.example.com/a''"
      and bufs = "\<lambda>_. replicate 2 0" and ws = "\<lambda>_. ()"]
  by (simp add: example_facts example_modes)

text \<open>C7. A chunk whose body broke off after some bytes is completed by \<open>resumeDownload\<close>: it
  returns with the length of the whole part and no error, and the rest of the buffer holds
  exactly the missing bytes, however often the connection breaks again, as long as every
  answer brings at least one byte.\<close>

theorem resume_completes_chunk:
  assumes "range_client C client content" "C (req_Ctx req)"
    and "header_get (req_Header req) ''Range'' = range_header a b"
    and "0 \<le> a" "in64 b" "int (length content) < 2 ^ 63"
    and "k < part_len content a b" "length buffer = part_len content a b - k"
  shows "\<exists>w'. resumeDownload client w req buffer (int k) =
     Some (int (part_len content a b), None, piece content (nat a + k) (part_len content a b - k), w')"
  using resumeDownload_completes [OF assms] .

theorem resume_completes_chunk_witness:
  "\<exists>w'. resumeDownload (file_server [1, 2, 3, 4, 5, 6] 1 (\<lambda>_. False)) () (example_request 1 4) [0, 0, 0] (int 1) =
     Some (int (part_len [1, 2, 3, 4, 5, 6] 1 4), None,
       piece [1, 2, 3, 4, 5, 6] (nat 1 + 1) (part_len [1, 2, 3, 4, 5, 6 :: byte] 1 4 - 1), w')"
  by (rule resume_completes_chunk [OF file_server_range_client])
     (simp_all add: example_request_def plain_ctx_def background_def in64_def part_len_def)

section \<open>Chunks and slices\<close>

text \<open>C12. The ranges of buffer mode contain every byte of the file in exactly one range, and the
  part of each range fits into the buffer of a worker.\<close>

theorem buffer_plan_exact:
  assumes "bm_valid m sz"
  shows "(\<forall>x. 0 \<le> x \<and> x < sz \<longrightarrow> length (filter (\<lambda>(a, b). a \<le> x \<and> x \<le> b) (bm_plan m sz)) = 1) \<and>
    (\<forall>(a, b) \<in> set (bm_plan m sz). 0 \<le> a \<and> a \<le> b \<and> a < sz \<and> min (b + 1) sz - a \<le> chunkSize m)"
  using bm.plan_each_byte_once [OF assms] bm.plan_range [OF assms] bm.plan_limit [OF assms] by auto

theorem buffer_plan_exact_witness:
  "length (filter (\<lambda>(a, b). a \<le> 9 \<and> 9 \<le> b) (bm_plan (example_bufferMode 4) 10)) = 1"
  using buffer_plan_exact [of "example_bufferMode 4" 10] by (simp add: example_modes)

text \<open>C11. The ranges of consistent-hashing mode contain every byte of the file in exactly one
  range, no range crosses a slice boundary (a request that did would be refused), and the
  part of each range fits into the buffer of a worker.\<close>

theorem hashing_plan_exact:
  assumes "ch_valid m sz"
  shows "(\<forall>x. 0 \<le> x \<and> x < sz \<longrightarrow> length (filter (\<lambda>(a, b). a \<le> x \<and> x \<le> b) (ch_plan m sz)) = 1) \<and>
    (\<forall>(a, b) \<in> set (ch_plan m sz). 0 \<le> a \<and> a \<le> b \<and> a < sz \<and> min (b + 1) sz - a \<le> ch_chunkSize m \<and>
       a sdiv SliceSize (ch_opts m) = b sdiv SliceSize (ch_opts m))"
  using ch.plan_each_byte_once [OF assms] ch.plan_range [OF assms] ch.plan_limit [OF assms]
    ch_plan_in_slice [OF assms] by auto

theorem hashing_plan_exact_witness:
  "length (filter (\<lambda>(a, b). a \<le> 7 \<and> 7 \<le> b) (ch_plan (example_chMode 3 5 [''n0'']) 11)) = 1"
  using hashing_plan_exact [of "example_chMode 3 5 [''n0'']" 11] by (simp add: example_modes)

section \<open>Requests\<close>

text \<open>C16. A request for a range of one slice to the cache nodes, whatever they answer and whether they answer
  at all: it does not panic; at most two nodes are tried, different ones; each of them whose entry is
  not empty gets one request, in plain HTTP and for exactly that range. The second node is tried only
  if the first one is not ready or asks for the fallback. The result is the last response, if its
  status is good; a response of a bad status gives the error for an unexpected status, which does not
  lead to the fallback strategy; an error that does is returned only after a second node was tried,
  if there is one, and no node had answered with a response.\<close>

theorem hashing_request_tries_two_nodes:
  assumes "client_Do env = recorded http" "cache_ready_for env hash jump m url"
    and "url_parse env url = Inr u" "a sdiv SliceSize (ch_opts m) = b sdiv SliceSize (ch_opts m)"
  shows "\<exists>ans w' log nodes. ch_DoRequest env hash jump m ctx a b url (w, []) = (Ret ans, (w', log)) \<and>
     asked m nodes log \<and> length nodes \<le> 2 \<and> (\<forall>(req, _) \<in> set log. node_request a b req) \<and> request_end m nodes log ans"
  using ch_DoRequest_recorded [OF assms] .

definition recorded_env :: "'w http_client \<Rightarrow> ('w \<times> exchanges) net_env" where
  "recorded_env http = \<lparr>url_parse = example_parse, url_String = (\<lambda>u. url_Host u @ url_Path u),
     url_JoinPath = (\<lambda>h p. Inr (h @ p)), strings_ToLower = id, client_Do = recorded http, proxyAuthHeader = ''''\<rparr>"

theorem hashing_request_tries_two_nodes_witness:
  "\<exists>ans w' log nodes. ch_DoRequest (recorded_env (file_server [1, 2, 3, 4] 2 (\<lambda>h. h = ''n0''))) example_hash example_jump
       (example_chMode 2 2 [''n0'', ''n1'']) background 2 3 ''weights.example.com/a'' ((), []) = (Ret ans, (w', log)) \<and>
     asked (example_chMode 2 2 [''n0'', ''n1'']) nodes log \<and> length nodes \<le> 2 \<and>
     (\<forall>(req, _) \<in> set log. node_request 2 3 req) \<and> request_end (example_chMode 2 2 [''n0'', ''n1'']) nodes log ans"
proof (rule hashing_request_tries_two_nodes)
  let ?env = "recorded_env (file_server [1, 2, 3, 4] 2 (\<lambda>h. h = ''n0''))"
  show "url_parse ?env ''weights.example.com/a'' = Inr (example_url ''weights.example.com'' ''/a'')"
    "client_Do ?env = recorded (file_server [1, 2, 3, 4] 2 (\<lambda>h. h = ''n0''))"
    by (simp_all add: recorded_env_def example_parse_def)
  show "cache_ready_for ?env example_hash example_jump (example_chMode 2 2 [''n0'', ''n1'']) ''weights.example.com/a''"
    using example_cache_ready [of "[''n0'', ''n1'']" 2 "[1]" 1 "\<lambda>_. False" 2 "''weights.example.com/a''"]
    by (simp add: recorded_env_def cache_ready_for_def cache_ready_def example_env_def)
qed (simp add: sdiv_nonneg)

text \<open>C17. The node of an attempt is one of the configured ones and none of those tried before;
  unless its entry is empty, the request is sent to it in plain HTTP.\<close>

theorem hashing_picks_new_node:
  assumes "cache_ready env hash jump m (req_URL req)" "valid_previous (int (length (cache_hosts m))) prevs"
    and "a sdiv SliceSize (ch_opts m) = b sdiv SliceSize (ch_opts m)"
  shows "\<exists>i e req'. rewriteRequestToCacheHost env hash jump m req a b prevs = Ret (i, e, req') \<and>
     0 \<le> i \<and> i < int (length (cache_hosts m)) \<and> i \<notin> set prevs \<and>
     (if cache_hosts m ! nat i = '''' then e = Some (Sentinel ErrStrategyFallback)
      else e = None \<and> url_Host (req_URL req') = cache_hosts m ! nat i \<and> url_Scheme (req_URL req') = ''http'')"
  by (rule rewriteRequestToCacheHost_cases [OF assms]) blast

theorem hashing_picks_new_node_witness:
  "\<exists>i e req'. rewriteRequestToCacheHost (example_env [1] 1 (\<lambda>_. False)) example_hash example_jump
       (example_chMode 2 4 [''n0'', '''', ''n2'']) (example_request 0 1) 0 1 [1] = Ret (i, e, req') \<and>
     0 \<le> i \<and> i < int (length (cache_hosts (example_chMode 2 4 [''n0'', '''', ''n2'']))) \<and> i \<notin> set [1] \<and>
     (if cache_hosts (example_chMode 2 4 [''n0'', '''', ''n2'']) ! nat i = ''''
      then e = Some (Sentinel ErrStrategyFallback)
      else e = None \<and> url_Host (req_URL req') = cache_hosts (example_chMode 2 4 [''n0'', '''', ''n2'']) ! nat i \<and>
        url_Scheme (req_URL req') = ''http'')"
  by (rule hashing_picks_new_node)
     (simp_all add: example_modes sdiv_nonneg valid_previous_def cache_hosts_def example_chMode_def
        example_options_def cache_ready_def example_facts)

text \<open>C35. In buffer mode the configured proxy credentials stop at a redirect. When the first request of a
  download was answered for another URL than the one it asked for, or an earlier download saw that,
  then neither the remaining chunks of this download nor any later download depend on the
  credentials: with any other ones the strategy does exactly the same. Otherwise every request for
  a remaining chunk carries them, if there are any, to the URL of the first request.\<close>

theorem buffer_credentials_stop_at_redirect:
  assumes "first_request env m ctx url w = (Inr (fileSize, trueURL, resp), m', w')"
  shows "if redirected m \<or> trueURL \<noteq> effective_url env m url
     then (\<forall>cred rng buf v. chunk_job (with_credentials cred env) m' ctx trueURL rng buf v =
             chunk_job env m' ctx trueURL rng buf v) \<and>
       (\<forall>cred ctx later bufs ws. bm_Fetch (with_credentials cred env) m' ctx later bufs ws =
             bm_Fetch env m' ctx later bufs ws)
     else trueURL = effective_url env m url \<and> (\<forall>a b req. bm_request env m' ctx a b trueURL = Inr req \<longrightarrow>
       req_Header req ''Authorization'' = (if proxyAuthHeader env = '''' then None else Some (proxyAuthHeader env)))"
proof (cases "redirected m \<or> trueURL \<noteq> effective_url env m url")
  case True
  then have "redirected m'" using first_request_redirected [OF assms] by simp
  then show ?thesis unfolding if_P [OF True] by (intro conjI allI chunk_job_credentials bm_Fetch_credentials)
next
  case False
  then have "\<not> redirected m'" using first_request_redirected [OF assms] by simp
  then show ?thesis using False bm_request_authorization [of env m' ctx _ _ trueURL] by auto
qed

text \<open>A server that redirects every request, and one that does not.\<close>

definition redirecting_env :: "bool \<Rightarrow> unit net_env" where
  "redirecting_env redirects = (example_env [1, 2, 3, 4, 5, 6, 7] 7 (\<lambda>_. False))
     \<lparr>proxyAuthHeader := ''secret'', url_String := (\<lambda>u. if redirects then ''elsewhere'' else url_Host u @ url_Path u)\<rparr>"

lemma redirecting_first_request:
  "\<exists>trueURL resp m' w'. first_request (redirecting_env redirects) (example_bufferMode 3) background ''h/p'' () =
     (Inr (7, trueURL, resp), m', w')"
proof -
  let ?env = "redirecting_env redirects"
  have "range_client plain_ctx (client_Do ?env) [1, 2, 3, 4, 5, 6, 7]" "urls_parse ?env ''h/p''"
    using example_facts by (simp_all add: redirecting_env_def example_env_def urls_parse_def example_parse_def)
  then have "range_client plain_ctx (client_Do ?env) [1, 2, 3, 4, 5, 6, 7]"
    "urls_parse ?env (effective_url ?env (example_bufferMode 3) ''h/p'')" by (simp_all add: example_effective_url)
  from first_request_served [OF this(1) example_plain_ctx this(2) example_bm_valid, of "()"] show ?thesis by fastforce
qed

theorem buffer_credentials_stop_at_redirect_witness:
  "\<exists>trueURL resp m' w'. first_request (redirecting_env True) (example_bufferMode 3) background ''h/p'' () =
       (Inr (7, trueURL, resp), m', w') \<and>
     (\<forall>cred bufs ws. bm_Fetch (with_credentials cred (redirecting_env True)) m' background ''h/q'' bufs ws =
        bm_Fetch (redirecting_env True) m' background ''h/q'' bufs ws)"
proof -
  obtain trueURL resp m' w' where
    f: "first_request (redirecting_env True) (example_bufferMode 3) background ''h/p'' () = (Inr (7, trueURL, resp), m', w')"
    using redirecting_first_request by blast
  then have "trueURL = ''elsewhere''"
    by (auto simp: first_request_def redirecting_env_def Let_def split: prod.splits sum.splits if_splits)
  with buffer_credentials_stop_at_redirect [OF f] f show ?thesis by (auto simp: example_effective_url)
qed

section \<open>From the server to the disk\<close>

text \<open>With a server that honours range requests, downloading one file in buffer mode to a file
  returns the size of the content and no error, and afterwards the destination holds exactly the
  content, whenever the destination can be written and is new or may be overwritten.\<close>

theorem buffer_download_writes_file:
  assumes "buffer_ready (env, m, ctx, bufs, ws) url content" "the_consumer g = FileWriter ow"
    and "ow \<or> read_file (snd (os_MkdirAll fs (filepath_Dir dest))) dest = None"
    and "fst (FileWriter_Consume ow fs (content, None) dest (int (length content))) = None"
  shows "\<exists>fs' ms. DownloadFile archive g (buffer_fetch (env, m, ctx, bufs, ws)) fs url dest =
     Some (Ret ((int (length content), None), fs', ms)) \<and> read_file fs' dest = Some content"
  using buffer_strategy.download_file_complete [OF assms] .

definition example_getter :: "int getter" where
  "example_getter = \<lparr>g_Consumer = Some (FileWriter True), g_MaxConcurrentFiles = 0, g_endpoint = '''',
     g_version = ''1'', g_throughput = (\<lambda>n. n), g_marshals = (\<lambda>_. True)\<rparr>"

lemma example_file_writable:
  "fst (FileWriter_Consume True example_fs (content, None) ''/f'' (int (length content))) = None"
proof -
  have d: "filepath_Dir ''/f'' = ''/''" by code_simp
  have m: "os_MkdirAll example_fs ''/'' = (None, example_fs)"
    by (simp add: os_MkdirAll_def rooted_def slash_def comps_def)
  have "resolve example_fs True ''/f'' = Inr [''f'']"
    by (simp add: resolve_def rooted_def slash_def comps_def walk.simps(2) node_at_def example_fs_def)
  then obtain fs2 where "os_OpenFile example_fs ''/f'' True = (Inr 0, fs2)"
    by (simp add: os_OpenFile_def node_at_def example_fs_def)
  with d m show ?thesis by (simp add: FileWriter_Consume_def)
qed

theorem buffer_download_writes_file_witness:
  "\<exists>fs' ms. DownloadFile (\<lambda>_ _. Inl (Errorf '''')) example_getter
       (buffer_fetch (example_env [1, 2, 3, 4, 5, 6, 7] 2 (\<lambda>_. False), example_bufferMode 3, background,
          \<lambda>_. replicate 3 0, \<lambda>_. ())) example_fs ''weights.example.com/a'' ''/f'' =
     Some (Ret ((int (length [1, 2, 3, 4, 5, 6, 7 :: byte]), None), fs', ms)) \<and>
     read_file fs' ''/f'' = Some [1, 2, 3, 4, 5, 6, 7]"
  by (rule buffer_download_writes_file [OF _ _ _ example_file_writable])
     (simp_all add: example_facts example_modes example_getter_def the_consumer_def)

text \<open>The same holds in consistent-hashing mode, with cache nodes that serve ranges or fail over
  to the fallback strategy.\<close>

theorem hashing_download_writes_file:
  assumes "hashing_ready (env, hash, jump, m, ctx, bufs, ws) url content" "the_consumer g = FileWriter ow"
    and "ow \<or> read_file (snd (os_MkdirAll fs (filepath_Dir dest))) dest = None"
    and "fst (FileWriter_Consume ow fs (content, None) dest (int (length content))) = None"
  shows "\<exists>fs' ms. DownloadFile archive g (hashing_fetch (env, hash, jump, m, ctx, bufs, ws)) fs url dest =
     Some (Ret ((int (length content), None), fs', ms)) \<and> read_file fs' dest = Some content"
  using hashing_strategy.download_file_complete [OF assms] .

theorem hashing_download_writes_file_witness:
  "\<exists>fs' ms. DownloadFile (\<lambda>_ _. Inl (Errorf '''')) example_getter
       (hashing_fetch (example_env [1, 2, 3, 4, 5, 6, 7] 2 (\<lambda>h. h = ''n1''), example_hash, example_jump,
          example_chMode 2 3 [''n0'', ''n1''], background, \<lambda>_. replicate 2 0, \<lambda>_. ()))
       example_fs ''weights.example.com/a'' ''/f'' =
     Some (Ret ((int (length [1, 2, 3, 4, 5, 6, 7 :: byte]), None), fs', ms)) \<and>
     read_file fs' ''/f'' = Some [1, 2, 3, 4, 5, 6, 7]"
  by (rule hashing_download_writes_file [OF _ _ _ example_file_writable])
     (simp_all add: example_facts example_modes example_getter_def the_consumer_def)

end
